(* ===== verification/Prelude.thy ===== *)
theory Prelude
  imports
    Main
    "HOL-Library.Word"
    "HOL-Library.AList"
    "HOL-Library.FSet"
    "HOL-Library.Product_Lexorder"
begin

text \<open>
  Shared vocabulary of the development: machine-integer and time types, the
  representation of Rust's hash maps, prefix masks over words, and a generic
  locale for state-based replication.

  \<^item> A \<open>std::collections::HashMap\<close> (or \<open>DashMap\<close>) is an association list without
    duplicate keys (\<open>hm_wf\<close>). Rust leaves the iteration order of a hash map open;
    here it is the order of the list, and the theorems quantify over every
    well-formed list, hence over every order.
  \<^item> A \<open>HashSet\<close> is an \<open>fset\<close>, or a list without duplicates where the code iterates
    over it into a list.
  \<^item> \<open>chrono::DateTime<Utc>\<close> is an integer number of nanoseconds (\<open>instant\<close>);
    \<open>std::time::Duration\<close> is a natural number of nanoseconds (\<open>duration\<close>).
    Reading a clock is an argument \<open>now\<close> of the operation that reads it.
  \<^item> Unsigned machine integers are words; \<open>+\<close> wraps, as in the release profile of
    the workspace, which leaves \<open>overflow-checks\<close> off.
\<close>

unbundle bit_operations_syntax

named_theorems hm_simps \<open>lookups after updates of hash maps\<close>
named_theorems hm_intros \<open>well-formedness of hash maps\<close>

section \<open>Types\<close>

type_synonym u8 = "8 word"
type_synonym u16 = "16 word"
type_synonym u32 = "32 word"
type_synonym u64 = "64 word"
type_synonym u128 = "128 word"
type_synonym byte = "8 word"
type_synonym instant = int
type_synonym duration = nat
type_synonym ('k, 'v) hmap = "('k \<times> 'v) list"

definition ns_per_sec :: nat where
  "ns_per_sec = 1000000000"

abbreviation secs :: "nat \<Rightarrow> duration" where
  "secs n \<equiv> n * ns_per_sec"

section \<open>Hash maps\<close>

abbreviation hm_empty :: "('k, 'v) hmap" where
  "hm_empty \<equiv> []"

abbreviation hm_get :: "('k, 'v) hmap \<Rightarrow> 'k \<Rightarrow> 'v option" where
  "hm_get m k \<equiv> map_of m k"

abbreviation hm_insert :: "'k \<Rightarrow> 'v \<Rightarrow> ('k, 'v) hmap \<Rightarrow> ('k, 'v) hmap" where
  "hm_insert k v m \<equiv> AList.update k v m"

abbreviation hm_remove :: "'k \<Rightarrow> ('k, 'v) hmap \<Rightarrow> ('k, 'v) hmap" where
  "hm_remove k m \<equiv> AList.delete k m"

abbreviation hm_contains :: "('k, 'v) hmap \<Rightarrow> 'k \<Rightarrow> bool" where
  "hm_contains m k \<equiv> map_of m k \<noteq> None"

definition hm_retain :: "('k \<Rightarrow> 'v \<Rightarrow> bool) \<Rightarrow> ('k, 'v) hmap \<Rightarrow> ('k, 'v) hmap" where
  "hm_retain P m = filter (\<lambda>(k, v). P k v) m"

definition hm_values :: "('k, 'v) hmap \<Rightarrow> 'v list" where
  "hm_values m = map snd m"

definition hm_keys :: "('k, 'v) hmap \<Rightarrow> 'k list" where
  "hm_keys m = map fst m"

definition hm_wf :: "('k, 'v) hmap \<Rightarrow> bool" where
  "hm_wf m \<longleftrightarrow> distinct (map fst m)"

definition hm_get_or :: "'v \<Rightarrow> ('k, 'v) hmap \<Rightarrow> 'k \<Rightarrow> 'v" where
  \<comment> \<open>\<open>get(k).unwrap_or(d)\<close> and \<open>entry(k).or_default()\<close>\<close>
  "hm_get_or d m k = (case map_of m k of None \<Rightarrow> d | Some v \<Rightarrow> v)"

lemma hm_get_insert [hm_simps, simp]:
  "hm_get (hm_insert k v m) k' = (if k' = k then Some v else hm_get m k')"
  by (simp add: update_conv')

lemma hm_get_remove [hm_simps, simp]:
  "hm_get (hm_remove k m) k' = (if k' = k then None else hm_get m k')"
  by (simp add: delete_conv')

lemma hm_wf_empty [hm_intros, simp]: "hm_wf []"
  by (simp add: hm_wf_def)

lemma hm_wf_insert [hm_intros, simp]: "hm_wf m \<Longrightarrow> hm_wf (hm_insert k v m)"
  by (simp add: hm_wf_def distinct_update)

lemma hm_wf_remove [hm_intros, simp]: "hm_wf m \<Longrightarrow> hm_wf (hm_remove k m)"
  by (simp add: hm_wf_def distinct_delete)

lemma hm_wf_retain [hm_intros, simp]: "hm_wf m \<Longrightarrow> hm_wf (hm_retain P m)"
  by (simp add: hm_wf_def hm_retain_def distinct_map_filter)

lemma hm_wf_map_values [simp]: "hm_wf (map (\<lambda>(k, v). (k, f k v)) m) = hm_wf m"
  by (simp add: hm_wf_def case_prod_beta comp_def)

lemma hm_get_map_values [simp]: "hm_get (map (\<lambda>(k, v). (k, f k v)) m) j = map_option (f j) (hm_get m j)"
  by (induction m) auto

lemma hm_get_or_insert [simp]: "hm_get_or d (hm_insert k v m) j = (if j = k then v else hm_get_or d m j)"
  by (simp add: hm_get_or_def)

lemma hm_wf_Cons [simp]: "hm_wf ((k, v) # m) \<longleftrightarrow> k \<notin> fst ` set m \<and> hm_wf m"
  by (simp add: hm_wf_def)

lemma hm_get_eq_Some: "hm_wf m \<Longrightarrow> hm_get m k = Some v \<longleftrightarrow> (k, v) \<in> set m"
  by (simp add: hm_wf_def map_of_eq_Some_iff)

lemma hm_get_None_keys: "hm_get m k = None \<longleftrightarrow> k \<notin> set (map fst m)"
  by (simp add: map_of_eq_None_iff)

lemma hm_get_retain [hm_simps]:
  assumes "hm_wf m"
  shows "hm_get (hm_retain P m) k =
    (case hm_get m k of None \<Rightarrow> None | Some v \<Rightarrow> if P k v then Some v else None)"
proof (cases "hm_get m k")
  case None
  then have "hm_get (hm_retain P m) k = None"
    by (auto simp: hm_retain_def map_of_eq_None_iff)
  with None show ?thesis by simp
next
  case (Some v)
  then have "(k, v) \<in> set m" using assms by (simp add: hm_get_eq_Some)
  then have "hm_get (hm_retain P m) k = Some v" if "P k v"
    using assms that by (simp add: hm_get_eq_Some) (simp add: hm_retain_def)
  moreover have "hm_get (hm_retain P m) k = None" if "\<not> P k v"
  proof (rule ccontr)
    assume "hm_get (hm_retain P m) k \<noteq> None"
    then obtain w where "hm_get (hm_retain P m) k = Some w" by auto
    then have "(k, w) \<in> set (hm_retain P m)" by (rule map_of_SomeD)
    then have "(k, w) \<in> set m" and "P k w" by (auto simp: hm_retain_def)
    then show False using Some assms that by (simp add: hm_get_eq_Some [symmetric])
  qed
  ultimately show ?thesis using Some by simp
qed

text \<open>Inserting a list of entries into a map: the last write to a key wins.\<close>

lemma fold_upd:
  "fold (\<lambda>(k, v) f. f(k := v)) ws f j = (case map_of (rev ws) j of None \<Rightarrow> f j | Some v \<Rightarrow> v)"
  by (induction ws arbitrary: f) (auto simp: map_add_def split: option.splits)

lemma fold_upd_idem:
  "fold (\<lambda>(k, v) f. f(k := v)) ws (fold (\<lambda>(k, v) f. f(k := v)) ws f) = fold (\<lambda>(k, v) f. f(k := v)) ws f"
  by (rule ext) (simp add: fold_upd split: option.splits)

lemma map_of_rev_distinct: "hm_wf m \<Longrightarrow> map_of (rev m) = map_of m"
  by (subst map_of_inject_set) (simp_all add: hm_wf_def rev_map [symmetric])

lemma foldl_hm_insert:
  "hm_get (foldl (\<lambda>m x. hm_insert (f x) (g x) m) m0 xs) k =
     (case map_of (rev (map (\<lambda>x. (f x, g x)) xs)) k of None \<Rightarrow> hm_get m0 k | Some v \<Rightarrow> Some v)"
  by (induction xs arbitrary: m0) (auto simp: map_add_def split: option.splits)

lemma foldl_hm_insert_wf: "hm_wf m0 \<Longrightarrow> hm_wf (foldl (\<lambda>m x. hm_insert (f x) (g x) m) m0 xs)"
  by (induction xs arbitrary: m0) auto

lemma hm_set_values: "hm_wf m \<Longrightarrow> set (hm_values m) = {v. \<exists>k. hm_get m k = Some v}"
  by (force simp: hm_values_def hm_get_eq_Some)

lemma hm_set_keys [simp]: "set (hm_keys m) = dom (hm_get m)"
  by (auto simp: hm_keys_def dom_map_of_conv_image_fst)

lemma hm_length_insert:
  "hm_wf m \<Longrightarrow> length (hm_insert k v m) = (if hm_contains m k then length m else Suc (length m))"
  by (induction m) (auto dest: map_of_SomeD simp: image_iff)

lemma hm_length_insert_le: "length (hm_insert k v m) \<le> Suc (length m)"
  by (induction m) auto

lemma hm_length_remove_le: "length (hm_remove k m) \<le> length m"
  by (simp add: AList.length_delete_le)

lemma hm_insert_existing: "hm_wf m \<Longrightarrow> hm_get m k = Some v \<Longrightarrow> hm_insert k v m = m"
  by (induction m) auto

lemma hm_set_insert:
  "hm_wf m \<Longrightarrow> set (hm_insert k v m) = insert (k, v) {p \<in> set m. fst p \<noteq> k}"
  by (induction m) (force simp: image_iff)+

lemma hm_set_remove: "set (hm_remove k m) = {p \<in> set m. fst p \<noteq> k}"
  by (auto simp: AList.delete_eq)

text \<open>Two maps with the same lookups have the same entries, whatever their order.\<close>

lemma hm_same_set: "hm_wf m \<Longrightarrow> hm_wf n \<Longrightarrow> map_of m = map_of n \<Longrightarrow> set m = set n"
  by (auto simp: hm_get_eq_Some [symmetric])

lemma hm_retain_all: "length (hm_retain P m) = length m \<Longrightarrow> hm_retain P m = m"
  unfolding hm_retain_def by (metis (no_types, lifting) filter_True length_filter_less less_irrefl)

section \<open>Prefix masks\<close>

text \<open>
  The network mask of a prefix length: the code's \<open>if l == 0 { 0 } else { MAX << (w - l) }\<close>.
\<close>

definition prefix_mask :: "nat \<Rightarrow> 'a::len word" where
  "prefix_mask l = (if l = 0 then 0 else push_bit (LENGTH('a) - l) (- 1))"

lemma bit_prefix_mask:
  "bit (prefix_mask l :: 'a::len word) i \<longleftrightarrow> i < LENGTH('a) \<and> LENGTH('a) < i + l + 1"
  by (auto simp: prefix_mask_def bit_not_iff bit_mask_iff dest: bit_imp_le_length)

lemma prefix_mask_and [simp]:
  "(a AND prefix_mask l) AND prefix_mask k = (a AND prefix_mask (min k l) :: 'a::len word)"
  by (rule bit_eqI) (auto simp: bit_and_iff bit_prefix_mask min_def)

lemma prefix_mask_full [simp]: "(a :: 'a::len word) AND prefix_mask LENGTH('a) = a"
  by (rule bit_eqI) (auto simp: bit_and_iff bit_prefix_mask dest: bit_imp_le_length)

lemma prefix_mask_mono:
  "a AND prefix_mask l = (b :: 'a::len word) AND prefix_mask l \<Longrightarrow> k \<le> l \<Longrightarrow>
   a AND prefix_mask k = b AND prefix_mask k"
  by (metis min.absorb1 prefix_mask_and)

text \<open>The block of a shorter prefix has an address outside the block of a longer one.\<close>

lemma prefix_mask_split:
  fixes a :: "'a::len word"
  assumes "l < k" "k \<le> LENGTH('a)"
  shows "\<exists>x. x AND prefix_mask l = a AND prefix_mask l \<and> x AND prefix_mask k \<noteq> a AND prefix_mask k"
proof (intro exI conjI)
  let ?i = "LENGTH('a) - Suc l"
  let ?x = "a XOR push_bit ?i 1"
  show "?x AND prefix_mask l = a AND prefix_mask l"
    using assms by (intro bit_eqI) (auto simp: bit_simps bit_prefix_mask)
  have "bit (?x AND prefix_mask k) ?i \<noteq> bit (a AND prefix_mask k) ?i"
    using assms by (auto simp: bit_simps bit_prefix_mask)
  then show "?x AND prefix_mask k \<noteq> a AND prefix_mask k" by metis
qed

section \<open>State-based replication\<close>

text \<open>
  A join over a carrier: closed, associative, commutative and idempotent there.
  Folding deliveries with such a join gives a result that depends only on the
  set of values delivered, not on their order, grouping or repetition.
\<close>

locale replica_join =
  fixes carrier :: "'a set" and join :: "'a \<Rightarrow> 'a \<Rightarrow> 'a"
  assumes closed: "a \<in> carrier \<Longrightarrow> b \<in> carrier \<Longrightarrow> join a b \<in> carrier"
    and assoc: "a \<in> carrier \<Longrightarrow> b \<in> carrier \<Longrightarrow> c \<in> carrier \<Longrightarrow>
      join (join a b) c = join a (join b c)"
    and commute: "a \<in> carrier \<Longrightarrow> b \<in> carrier \<Longrightarrow> join a b = join b a"
    and idem: "a \<in> carrier \<Longrightarrow> join a a = a"
begin

lemma foldl_closed: "a \<in> carrier \<Longrightarrow> set xs \<subseteq> carrier \<Longrightarrow> foldl join a xs \<in> carrier"
  by (induction xs arbitrary: a) (auto simp: closed)

lemma foldl_join_left:
  "a \<in> carrier \<Longrightarrow> b \<in> carrier \<Longrightarrow> set xs \<subseteq> carrier \<Longrightarrow>
   foldl join (join a b) xs = join a (foldl join b xs)"
  by (induction xs arbitrary: b) (auto simp: assoc closed)

lemma foldl_absorb:
  assumes "a \<in> carrier" "set xs \<subseteq> carrier" "x \<in> insert a (set xs)"
  shows "join x (foldl join a xs) = foldl join a xs"
  using assms
proof (induction xs arbitrary: a)
  case Nil
  then show ?case by (simp add: idem)
next
  case (Cons y xs)
  have c: "join a y \<in> carrier" using Cons.prems by (simp add: closed)
  show ?case
  proof (cases "x = a \<or> x = y")
    case True
    then have "join x (join a y) = join a y"
      using Cons.prems by (metis assoc commute idem insert_subset list.set(2))
    then show ?thesis
      using Cons.prems c True by (metis foldl_Cons foldl_join_left insert_subset list.set(2))
  next
    case False
    then show ?thesis using Cons.prems Cons.IH [of "join a y"] c by simp
  qed
qed

lemma foldl_upper:
  assumes "a \<in> carrier" "set xs \<subseteq> carrier" "u \<in> carrier"
    and "\<And>x. x \<in> insert a (set xs) \<Longrightarrow> join x u = u"
  shows "join (foldl join a xs) u = u"
  using assms
proof (induction xs arbitrary: a)
  case (Cons y xs)
  have "join (join a y) u = u"
    using Cons.prems by (simp add: assoc)
  then have "\<And>x. x \<in> insert (join a y) (set xs) \<Longrightarrow> join x u = u"
    using Cons.prems by auto
  then show ?case using Cons.prems Cons.IH [of "join a y"] by (simp add: closed)
qed simp

text \<open>Strong eventual consistency: equal sets of deliveries give equal states.\<close>

theorem converge:
  assumes "a \<in> carrier" "set xs \<subseteq> carrier" "b \<in> carrier" "set ys \<subseteq> carrier"
    and "insert a (set xs) = insert b (set ys)"
  shows "foldl join a xs = foldl join b ys"
proof -
  let ?x = "foldl join a xs" and ?y = "foldl join b ys"
  have cx: "?x \<in> carrier" and cy: "?y \<in> carrier"
    using assms by (simp_all add: foldl_closed)
  have "join ?x ?y = ?y" using assms cy by (intro foldl_upper foldl_absorb) auto
  moreover have "join ?y ?x = ?x" using assms cx by (intro foldl_upper foldl_absorb) auto
  ultimately show ?thesis using commute [OF cx cy] by simp
qed

end

end
