(* ===== verification/Net_Types.thy ===== *)
theory Net_Types
  imports Prelude
begin

text \<open>
  IP addresses and networks. \<open>ip_addr\<close> is \<open>std::net::IpAddr\<close>, \<open>ip_net\<close> the enum
  \<open>ipnet::IpNet\<close> with the address and prefix length its accessors return.

  The operations of the crate \<open>ipnet\<close> that the code calls are not under \<open>src/\<close>;
  they are the fields of a record \<open>ipnet_ops\<close>, which every definition that calls
  them takes as an argument. The locale \<open>ipnet_spec\<close> states their documented
  behaviour; \<open>ipnet_ref\<close> is a concrete instance.
\<close>

datatype ip_addr = IpV4 u32 | IpV6 u128

datatype ip_net = NetV4 u32 u8 | NetV6 u128 u8

fun net_addr :: "ip_net \<Rightarrow> ip_addr" where
  "net_addr (NetV4 a l) = IpV4 a"
| "net_addr (NetV6 a l) = IpV6 a"

fun prefix_len :: "ip_net \<Rightarrow> u8" where
  "prefix_len (NetV4 a l) = l"
| "prefix_len (NetV6 a l) = l"

text \<open>The type invariant of \<open>IpNet\<close>: the crate rejects longer prefixes.\<close>

fun net_ok :: "ip_net \<Rightarrow> bool" where
  "net_ok (NetV4 a l) = (unat l \<le> 32)"
| "net_ok (NetV6 a l) = (unat l \<le> 128)"

text \<open>The addresses of a network: those that agree with it on the prefix.\<close>

fun in_net :: "ip_net \<Rightarrow> ip_addr \<Rightarrow> bool" where
  "in_net (NetV4 a l) (IpV4 b) = (a AND prefix_mask (unat l) = b AND prefix_mask (unat l))"
| "in_net (NetV6 a l) (IpV6 b) = (a AND prefix_mask (unat l) = b AND prefix_mask (unat l))"
| "in_net _ _ = False"

fun truncate_net :: "ip_net \<Rightarrow> ip_net" where
  "truncate_net (NetV4 a l) = NetV4 (a AND prefix_mask (unat l)) l"
| "truncate_net (NetV6 a l) = NetV6 (a AND prefix_mask (unat l)) l"

definition truncated :: "ip_net \<Rightarrow> bool" where
  "truncated n \<longleftrightarrow> truncate_net n = n"

record ipnet_ops =
  net_new :: "ip_addr \<Rightarrow> u8 \<Rightarrow> ip_net option"
  net_trunc :: "ip_net \<Rightarrow> ip_net"
  net_contains :: "ip_net \<Rightarrow> ip_addr \<Rightarrow> bool"

section \<open>Facts about networks\<close>

lemma prefix_len_truncate [simp]: "prefix_len (truncate_net n) = prefix_len n"
  by (cases n) auto

lemma net_ok_truncate [simp]: "net_ok (truncate_net n) = net_ok n"
  by (cases n) auto

lemma truncated_truncate [simp]: "truncated (truncate_net n)"
  by (cases n) (auto simp: truncated_def)

lemma truncate_idem [simp]: "truncate_net (truncate_net n) = truncate_net n"
  by (cases n) auto

lemma in_net_self [simp]: "in_net n (net_addr n)"
  by (cases n) auto

lemma in_net_truncate [simp]: "in_net (truncate_net n) ip = in_net n ip"
  by (cases n; cases ip) auto

text \<open>
  Networks nest or are disjoint: two networks that share an address are ordered
  by their prefix lengths.
\<close>

lemma in_net_nested:
  assumes "in_net m x" "in_net n x" "unat (prefix_len m) \<le> unat (prefix_len n)" "in_net n y"
  shows "in_net m y"
  using assms by (cases m; cases n; cases x; cases y) (auto dest: prefix_mask_mono)

lemma truncated_same:
  assumes "truncated m" "truncated n" "in_net m x" "in_net n x" "prefix_len m = prefix_len n"
  shows "m = n"
  using assms by (cases m; cases n; cases x) (auto simp: truncated_def)

lemma net_share_iff:
  "(\<exists>x. in_net m x \<and> in_net n x) \<longleftrightarrow> in_net m (net_addr n) \<or> in_net n (net_addr m)"
proof
  assume "\<exists>x. in_net m x \<and> in_net n x"
  then obtain x where x: "in_net m x" "in_net n x" by blast
  show "in_net m (net_addr n) \<or> in_net n (net_addr m)"
    using in_net_nested [OF x] in_net_nested [OF x(2,1)] in_net_self
    by (meson nat_le_linear)
qed (use in_net_self in blast)

text \<open>One network covers another: every address of the second is in the first.\<close>

definition net_covers :: "ip_net \<Rightarrow> ip_net \<Rightarrow> bool" where
  "net_covers m n \<longleftrightarrow> in_net m (net_addr n) \<and> unat (prefix_len m) \<le> unat (prefix_len n)"

lemma net_covers_iff:
  assumes "net_ok m"
  shows "net_covers m n \<longleftrightarrow> (\<forall>x. in_net n x \<longrightarrow> in_net m x)"
proof
  assume "net_covers m n"
  then show "\<forall>x. in_net n x \<longrightarrow> in_net m x"
    using in_net_nested [of m "net_addr n" n] by (auto simp: net_covers_def)
next
  assume all: "\<forall>x. in_net n x \<longrightarrow> in_net m x"
  then have self: "in_net m (net_addr n)" by simp
  have "\<not> unat (prefix_len n) < unat (prefix_len m)"
  proof
    assume less: "unat (prefix_len n) < unat (prefix_len m)"
    show False
    proof (cases n)
      case (NetV4 a l)
      with self obtain b k where m: "m = NetV4 b k" by (cases m) auto
      have k: "unat l < unat k" "unat k \<le> LENGTH(32)" using less assms NetV4 m by auto
      obtain x where "x AND prefix_mask (unat l) = a AND prefix_mask (unat l)"
        "x AND prefix_mask (unat k) \<noteq> a AND prefix_mask (unat k)"
        using prefix_mask_split [OF k, of a] by blast
      then show False using spec [OF all, of "IpV4 x"] self NetV4 m by simp
    next
      case (NetV6 a l)
      with self obtain b k where m: "m = NetV6 b k" by (cases m) auto
      have k: "unat l < unat k" "unat k \<le> LENGTH(128)" using less assms NetV6 m by auto
      obtain x where "x AND prefix_mask (unat l) = a AND prefix_mask (unat l)"
        "x AND prefix_mask (unat k) \<noteq> a AND prefix_mask (unat k)"
        using prefix_mask_split [OF k, of a] by blast
      then show False using spec [OF all, of "IpV6 x"] self NetV6 m by simp
    qed
  qed
  then show "net_covers m n" using self by (simp add: net_covers_def)
qed

lemma net_covers_refl [simp]: "net_covers n n"
  by (simp add: net_covers_def)

section \<open>The documented behaviour of the crate\<close>

locale ipnet_spec =
  fixes N :: ipnet_ops
  assumes new_v4: "net_new N (IpV4 a) l = (if unat l \<le> 32 then Some (NetV4 a l) else None)"
    and new_v6: "net_new N (IpV6 b) l = (if unat l \<le> 128 then Some (NetV6 b l) else None)"
    and trunc: "net_ok n \<Longrightarrow> net_trunc N n = truncate_net n"
    and contains: "net_ok n \<Longrightarrow> net_contains N n ip = in_net n ip"
begin

lemma contains_share:
  "net_ok m \<Longrightarrow> net_ok n \<Longrightarrow>
   (net_contains N m (net_addr n) \<or> net_contains N n (net_addr m)) =
   (\<exists>x. in_net m x \<and> in_net n x)"
  by (simp add: contains net_share_iff)

lemma new_ok: "net_new N ip l = Some n \<Longrightarrow> net_ok n \<and> net_addr n = ip \<and> prefix_len n = l"
  by (cases ip) (auto simp: new_v4 new_v6 split: if_splits)

end

definition ipnet_ref :: ipnet_ops where
  "ipnet_ref = \<lparr>net_new = (\<lambda>ip l. case ip of
       IpV4 a \<Rightarrow> if unat l \<le> 32 then Some (NetV4 a l) else None
     | IpV6 b \<Rightarrow> if unat l \<le> 128 then Some (NetV6 b l) else None),
     net_trunc = truncate_net, net_contains = in_net\<rparr>"

interpretation ipref: ipnet_spec ipnet_ref
  by unfold_locales (simp_all add: ipnet_ref_def)

end
