(* ===== verification/Models.thy ===== *)
theory Models
  imports Net_Types Complex_Main
begin

text \<open>
  The domain types of \<open>hiveguard-core/src/models.rs\<close> and the error type of
  \<open>errors.rs\<close>. A 32-byte hash is a byte list; \<open>f32\<close> is a real number.
\<close>

datatype EventType =
    AuthFailure | AuthSuccess | HttpRequest | Http4xx | Http5xx
  | SmtpAuthFailure | PortAccess | ConnectionEvent | Custom string

record NormalizedEvent =
  ev_timestamp :: instant
  ev_source_ip :: ip_addr
  ev_event_type :: EventType
  ev_source_name :: string
  ev_raw_line :: string
  ev_metadata :: "(string, string) hmap"

datatype Action = Ban duration | Observe | Escalate

record DetectionSignal =
  sg_source_ip :: ip_net
  sg_severity :: u8
  sg_confidence :: real
  sg_reason :: string
  sg_evidence_hash :: "byte list"
  sg_suggested_action :: Action
  sg_detector_name :: string
  sg_timestamp :: instant

datatype BanSource = LocalDetector string | ClusterPeer string | ManualAdmin

record GeoIpInfo =
  country_iso :: "string option"
  asn :: "u32 option"
  asn_org :: "string option"
  is_datacenter :: bool

record BanRecord =
  br_subject :: ip_net
  br_created_at :: instant
  br_expires_at :: "instant option"
  br_severity :: u8
  br_reason :: string
  br_evidence_hash :: "byte list"
  br_source :: BanSource
  br_geo_info :: "GeoIpInfo option"

datatype HiveGuardError =
    EConfig | EIo | EParse | EEnforcement | EStorage | EProtocol

type_synonym 'a result = "HiveGuardError + 'a"

text \<open>A ban without expiry is permanent; otherwise it is active until the expiry.\<close>

definition ban_active :: "instant \<Rightarrow> BanRecord \<Rightarrow> bool" where
  "ban_active now b \<longleftrightarrow> (case br_expires_at b of None \<Rightarrow> True | Some e \<Rightarrow> e > now)"

end
