(* ===== verification/Strings.thy ===== *)
theory Strings
  imports Prelude
begin

text \<open>
  The string functions of Rust's standard library that the detectors, the rule
  language and the sanitisers call. A \<open>String\<close> is the list of its bytes in UTF-8, a
  \<open>string\<close> of HOL, so \<open>as_bytes\<close> is \<open>str_bytes\<close> and the ASCII functions act on single
  characters. Functions that need the Unicode tables are arguments of the
  definitions that call them.
\<close>

definition str_bytes :: "string \<Rightarrow> byte list" where
  "str_bytes s = List.map of_char s"

lemma of_char_byte_inject: "(of_char c :: byte) = of_char d \<longleftrightarrow> c = d"
proof
  assume "(of_char c :: byte) = of_char d"
  then have "unat (word_of_nat (of_char c) :: byte) = unat (word_of_nat (of_char d) :: byte)"
    by (simp only: of_nat_of_char)
  moreover have "of_char x < (256 :: nat)" for x by (cases x) (simp add: of_char_def)
  ultimately have "of_char c = (of_char d :: nat)" by (simp add: unat_of_nat)
  then show "c = d" by (metis char_of_char)
qed simp

lemma str_bytes_inject [simp]: "str_bytes s = str_bytes t \<longleftrightarrow> s = t"
  by (simp add: str_bytes_def inj_map_eq_map inj_def of_char_byte_inject)

definition char_code :: "char \<Rightarrow> nat" where
  "char_code c = of_char c"

definition squote :: string where
  "squote = [CHR 0x27]"

section \<open>ASCII case\<close>

definition is_ascii_uppercase :: "char \<Rightarrow> bool" where
  "is_ascii_uppercase c \<longleftrightarrow> 65 \<le> char_code c \<and> char_code c \<le> 90"

definition is_ascii_lowercase :: "char \<Rightarrow> bool" where
  "is_ascii_lowercase c \<longleftrightarrow> 97 \<le> char_code c \<and> char_code c \<le> 122"

definition is_ascii_digit :: "char \<Rightarrow> bool" where
  "is_ascii_digit c \<longleftrightarrow> 48 \<le> char_code c \<and> char_code c \<le> 57"

definition is_ascii_alphanumeric :: "char \<Rightarrow> bool" where
  "is_ascii_alphanumeric c \<longleftrightarrow> is_ascii_uppercase c \<or> is_ascii_lowercase c \<or> is_ascii_digit c"

definition to_ascii_lower_char :: "char \<Rightarrow> char" where
  "to_ascii_lower_char c = (if is_ascii_uppercase c then char_of (char_code c + 32) else c)"

definition to_ascii_lowercase :: "string \<Rightarrow> string" where
  "to_ascii_lowercase s = List.map to_ascii_lower_char s"

definition eq_ignore_ascii_case :: "string \<Rightarrow> string \<Rightarrow> bool" where
  "eq_ignore_ascii_case s t \<longleftrightarrow> to_ascii_lowercase s = to_ascii_lowercase t"

section \<open>Prefixes, suffixes, substrings\<close>

fun starts_with :: "'a list \<Rightarrow> 'a list \<Rightarrow> bool" where
  "starts_with s [] = True"
| "starts_with [] (p # ps) = False"
| "starts_with (c # s) (p # ps) = (c = p \<and> starts_with s ps)"

definition ends_with :: "'a list \<Rightarrow> 'a list \<Rightarrow> bool" where
  "ends_with s p = starts_with (rev s) (rev p)"

fun str_contains :: "'a list \<Rightarrow> 'a list \<Rightarrow> bool" where
  "str_contains [] p = (p = [])"
| "str_contains (c # s) p = (starts_with (c # s) p \<or> str_contains s p)"

text \<open>\<open>Iterator::position\<close>; on the bytes of a string, \<open>str::find\<close> of an ASCII character.\<close>

fun position :: "('a \<Rightarrow> bool) \<Rightarrow> 'a list \<Rightarrow> nat option" where
  "position P [] = None"
| "position P (x # xs) = (if P x then Some 0 else map_option Suc (position P xs))"

text \<open>
  \<open>str::chars\<close>: a character is its encoding, a leading byte with the continuation bytes
  (\<open>0x80\<close> to \<open>0xBF\<close>) after it.
\<close>

definition is_continuation :: "char \<Rightarrow> bool" where
  "is_continuation b \<longleftrightarrow> 128 \<le> char_code b \<and> char_code b < 192"

function chars :: "string \<Rightarrow> string list" where
  "chars [] = []"
| "chars (b # bs) = (b # takeWhile is_continuation bs) # chars (dropWhile is_continuation bs)"
  by pat_completeness auto
termination
  by (relation "measure length") (auto simp: le_imp_less_Suc length_dropWhile_le)

text \<open>\<open>[str]::join\<close>.\<close>

fun str_join :: "'a list \<Rightarrow> 'a list list \<Rightarrow> 'a list" where
  "str_join sep [] = []"
| "str_join sep [x] = x"
| "str_join sep (x # y # ys) = x @ sep @ str_join sep (y # ys)"

lemma append_sep_eq:
  "c \<notin> set x \<Longrightarrow> c \<notin> set u \<Longrightarrow> x @ c # a = u @ c # b \<Longrightarrow> x = u \<and> a = b"
proof (induction x arbitrary: u)
  case Nil
  then show ?case by (cases u) auto
next
  case (Cons d x)
  then show ?case by (cases u) auto
qed

lemma str_join_Cons: "ys \<noteq> [] \<Longrightarrow> str_join sep (x # ys) = x @ sep @ str_join sep ys"
  by (cases ys) auto

lemma str_join_inj:
  "str_join [c] xs = str_join [c] ys \<Longrightarrow> xs \<noteq> [] \<Longrightarrow> ys \<noteq> [] \<Longrightarrow>
     \<forall>s \<in> set xs. c \<notin> set s \<Longrightarrow> \<forall>s \<in> set ys. c \<notin> set s \<Longrightarrow> xs = ys"
proof (induction xs arbitrary: ys)
  case (Cons x xs)
  then obtain u us where ys: "ys = u # us" by (cases ys) auto
  have x: "c \<notin> set x" "c \<notin> set u" using Cons.prems(4,5) ys by simp_all
  show ?case
  proof (cases "xs = []"; cases "us = []")
    assume "xs = []" "us = []"
    then show ?thesis using Cons.prems(1) ys by simp
  next
    assume "xs = []" "us \<noteq> []"
    then have "x = u @ c # str_join [c] us" using Cons.prems(1) ys by (simp add: str_join_Cons)
    then show ?thesis using x(1) by simp
  next
    assume "xs \<noteq> []" "us = []"
    then have "x @ c # str_join [c] xs = u" using Cons.prems(1) ys by (simp add: str_join_Cons)
    then show ?thesis using x(2) by auto
  next
    assume ne: "xs \<noteq> []" "us \<noteq> []"
    then have eq: "x @ c # str_join [c] xs = u @ c # str_join [c] us"
      using Cons.prems(1) ys by (simp add: str_join_Cons)
    from append_sep_eq [OF x eq] have "x = u" "str_join [c] xs = str_join [c] us" by simp_all
    then show ?thesis using Cons.IH [OF _ ne] Cons.prems(4,5) ys by simp
  qed
qed simp

lemma concat_chars [simp]: "concat (chars s) = s"
  by (induction s rule: chars.induct) simp_all

lemma chars_ascii: "\<forall>b \<in> set s. char_code b < 128 \<Longrightarrow> chars s = List.map (\<lambda>b. [b]) s"
proof (induction s)
  case (Cons b bs)
  then have "takeWhile is_continuation bs = []" "dropWhile is_continuation bs = bs"
    by (cases bs; force simp: is_continuation_def)+
  then show ?case using Cons by simp
qed simp

lemma starts_with_iff: "starts_with s p \<longleftrightarrow> (\<exists>r. s = p @ r)"
  by (induction s p rule: starts_with.induct) auto

lemma ends_with_iff: "ends_with s p \<longleftrightarrow> (\<exists>r. s = r @ p)"
proof -
  have "ends_with s p \<longleftrightarrow> (\<exists>r. rev s = rev p @ r)" by (simp add: ends_with_def starts_with_iff)
  also have "\<dots> \<longleftrightarrow> (\<exists>r. s = r @ p)" by (metis rev_append rev_rev_ident)
  finally show ?thesis .
qed

lemma str_contains_iff: "str_contains s p \<longleftrightarrow> (\<exists>l r. s = l @ p @ r)"
proof (induction s)
  case (Cons c s)
  have "(\<exists>l r. c # s = l @ p @ r) \<longleftrightarrow> (\<exists>r. c # s = p @ r) \<or> (\<exists>l r. s = l @ p @ r)"
    by (metis append_Cons append_Nil list.exhaust list.inject)
  then show ?case by (simp add: Cons.IH starts_with_iff)
qed simp

section \<open>Numbers\<close>

function show_nat :: "nat \<Rightarrow> string" where
  "show_nat n = (if n < 10 then [char_of (48 + n)] else show_nat (n div 10) @ [char_of (48 + n mod 10)])"
  by pat_completeness auto
termination by (relation "measure id") auto

declare show_nat.simps [simp del]

definition show_int :: "int \<Rightarrow> string" where
  "show_int i = (if i < 0 then ''-'' @ show_nat (nat (- i)) else show_nat (nat i))"

fun digits_acc :: "nat \<Rightarrow> string \<Rightarrow> nat option" where
  "digits_acc acc [] = Some acc"
| "digits_acc acc (c # cs) =
     (if is_ascii_digit c then digits_acc (10 * acc + (char_code c - 48)) cs else None)"

text \<open>\<open>str::parse\<close> at an unsigned type: an optional plus sign, at least one digit, in range.\<close>

definition parse_unsigned :: "nat \<Rightarrow> string \<Rightarrow> nat option" where
  "parse_unsigned hi s =
     (let ds = (case s of c # cs \<Rightarrow> if c = CHR ''+'' then cs else s | [] \<Rightarrow> [])
      in if ds = [] then None
         else case digits_acc 0 ds of
           Some n \<Rightarrow> if n \<le> hi then Some n else None
         | None \<Rightarrow> None)"

lemma digit_char [simp]: "k < 10 \<Longrightarrow> is_ascii_digit (char_of (48 + k))" "k < 10 \<Longrightarrow> char_code (char_of (48 + k)) = 48 + k"
  by (simp_all add: is_ascii_digit_def char_code_def)

lemma digits_acc_append: "digits_acc a (xs @ ys) = (case digits_acc a xs of Some b \<Rightarrow> digits_acc b ys | None \<Rightarrow> None)"
  by (induction xs arbitrary: a) (auto split: option.splits)

lemma digits_show_nat: "digits_acc 0 (show_nat n) = Some n"
proof (induction n rule: show_nat.induct)
  case (1 n)
  then show ?case by (subst show_nat.simps) (auto simp: digits_acc_append)
qed

lemma show_nat_digits: "\<forall>c \<in> set (show_nat n). is_ascii_digit c"
proof (induction n rule: show_nat.induct)
  case (1 n)
  then show ?case by (subst show_nat.simps) auto
qed

lemma show_nat_nonempty: "show_nat n \<noteq> []"
  by (subst show_nat.simps) simp

lemma parse_show_nat: "n \<le> hi \<Longrightarrow> parse_unsigned hi (show_nat n) = Some n"
proof -
  assume n: "n \<le> hi"
  obtain c cs where s: "show_nat n = c # cs" using show_nat_nonempty by (cases "show_nat n") auto
  then have "is_ascii_digit c" using show_nat_digits [of n] by simp
  then have "c \<noteq> CHR ''+''" by (auto simp: is_ascii_digit_def char_code_def)
  then show ?thesis using n s digits_show_nat [of n] by (simp add: parse_unsigned_def)
qed

end
