(* ===== verification/Detector_Base.thy ===== *)
theory Detector_Base
  imports Models Strings
begin

text \<open>
  What the detectors of \<open>hiveguard-core/src/detectors\<close> share: the counting keys of
  \<open>netkey.rs\<close>, the pruning of a sliding window, and the contract of a detector that
  counts events per key in such a window.

  A detector takes the code it calls outside \<open>src/\<close> as a record \<open>det_env\<close>: the crate
  \<open>ipnet\<close>, \<open>chrono::Duration::from_std\<close> and the hash function of \<open>blake3\<close>. The
  rendering of addresses, networks and durations in messages and the Unicode
  lower-casing and trimming are arguments as well.
  A detector returns its signal, if any, and its new state. \<open>expect\<close> and \<open>unwrap\<close>
  are \<open>the\<close>; the lemmas show that it is never applied to \<open>None\<close>.
\<close>

record det_env =
  de_net :: ipnet_ops
  de_from_std :: "duration \<Rightarrow> int option"
  de_blake3 :: "byte list \<Rightarrow> byte list"
  de_show_ip :: "ip_addr \<Rightarrow> string"
  de_show_net :: "ip_net \<Rightarrow> string"
  de_show_duration :: "duration \<Rightarrow> string"
  de_to_lowercase :: "string \<Rightarrow> string"
  de_trim :: "string \<Rightarrow> string"

text \<open>The largest \<open>chrono::Duration\<close>: \<open>i64::MAX\<close> milliseconds.\<close>

definition CHRONO_MAX :: nat where
  "CHRONO_MAX = (2 ^ 63 - 1) * 1000000"

locale det_env_spec = net: ipnet_spec "de_net E" for E :: det_env +
  assumes from_std: "de_from_std E w = (if w \<le> CHRONO_MAX then Some (int w) else None)"
    and blake3_length: "length (de_blake3 E bs) = 32"

definition ex_env :: det_env where
  "ex_env = \<lparr>de_net = ipnet_ref,
     de_from_std = (\<lambda>w. if w \<le> CHRONO_MAX then Some (int w) else None),
     de_blake3 = (\<lambda>bs. replicate 32 (of_nat (length bs))),
     de_show_ip = (\<lambda>ip. case ip of IpV4 a \<Rightarrow> show_nat (unat a) | IpV6 b \<Rightarrow> show_nat (unat b)),
     de_show_net = (\<lambda>n. show_nat (unat (prefix_len n))),
     de_show_duration = show_nat,
     de_to_lowercase = to_ascii_lowercase,
     de_trim = (\<lambda>s. rev (dropWhile (\<lambda>c. c = CHR '' '') (rev (dropWhile (\<lambda>c. c = CHR '' '') s))))\<rparr>"

interpretation exenv: det_env_spec ex_env
proof (rule det_env_spec.intro)
  show "ipnet_spec (de_net ex_env)" by (simp add: ex_env_def ipref.ipnet_spec_axioms)
  show "det_env_spec_axioms ex_env" by unfold_locales (simp_all add: ex_env_def)
qed

section \<open>Literals of type f32\<close>

text \<open>The single-precision values nearest to 0.85, 0.9 and 0.95.\<close>

definition f32_085 :: real where "f32_085 = 14260634 / 2 ^ 24"
definition f32_09 :: real where "f32_09 = 15099494 / 2 ^ 24"
definition f32_095 :: real where "f32_095 = 15938355 / 2 ^ 24"

section \<open>Counting keys\<close>

definition DEFAULT_IPV6_PREFIX :: u8 where "DEFAULT_IPV6_PREFIX = 64"
definition MIN_IPV6_PREFIX :: u8 where "MIN_IPV6_PREFIX = 48"
definition MIN_IPV4_SUBNET_PREFIX :: u8 where "MIN_IPV4_SUBNET_PREFIX = 16"

definition source_key :: "ipnet_ops \<Rightarrow> ip_addr \<Rightarrow> u8 \<Rightarrow> ip_net" where
  "source_key N ip ipv6_prefix =
     (case ip of
        IpV4 v4 \<Rightarrow> the (net_new N (IpV4 v4) 32)
      | IpV6 v6 \<Rightarrow>
          (let p = (if ipv6_prefix = 0 \<or> ipv6_prefix \<ge> 128 then 128 else ipv6_prefix)
           in net_trunc N (the (net_new N (IpV6 v6) p))))"

definition subnet_of :: "ipnet_ops \<Rightarrow> ip_addr \<Rightarrow> u8 \<Rightarrow> u8 \<Rightarrow> ip_net option" where
  "subnet_of N ip v4_prefix v6_prefix =
     (case ip of
        IpV4 v4 \<Rightarrow> if v4_prefix > 0 then map_option (net_trunc N) (net_new N (IpV4 v4) (min v4_prefix 32)) else None
      | IpV6 v6 \<Rightarrow> if v6_prefix > 0 then map_option (net_trunc N) (net_new N (IpV6 v6) (min v6_prefix 128)) else None)"

definition validate_ipv6_prefix :: "string \<Rightarrow> u8 \<Rightarrow> string + unit" where
  "validate_ipv6_prefix key prefix =
     (if prefix = 0 \<or> (MIN_IPV6_PREFIX \<le> prefix \<and> prefix \<le> 128) then Inr ()
      else Inl (key @ '' must be 0 (per address) or '' @ show_nat (unat MIN_IPV6_PREFIX)
                @ ''..=128, got '' @ show_nat (unat prefix)))"

definition validate_v4_subnet_prefix :: "string \<Rightarrow> u8 \<Rightarrow> string + unit" where
  "validate_v4_subnet_prefix key prefix =
     (if prefix = 0 \<or> (MIN_IPV4_SUBNET_PREFIX \<le> prefix \<and> prefix \<le> 32) then Inr ()
      else Inl (key @ '' must be 0 (off) or '' @ show_nat (unat MIN_IPV4_SUBNET_PREFIX)
                @ ''..=32, got '' @ show_nat (unat prefix)))"

text \<open>The \<open>ip_to_net\<close> that several detectors have: the network of one address.\<close>

definition ip_to_net :: "ipnet_ops \<Rightarrow> ip_addr \<Rightarrow> ip_net" where
  "ip_to_net N ip = (case ip of IpV4 v4 \<Rightarrow> the (net_new N (IpV4 v4) 32) | IpV6 v6 \<Rightarrow> the (net_new N (IpV6 v6) 128))"

definition compute_evidence_hash :: "det_env \<Rightarrow> ip_addr \<Rightarrow> string \<Rightarrow> byte list" where
  "compute_evidence_hash E ip reason = de_blake3 E (str_bytes (de_show_ip E ip @ '':'' @ reason))"

definition window_cutoff :: "det_env \<Rightarrow> duration \<Rightarrow> instant \<Rightarrow> instant" where
  "window_cutoff E window now = now - (case de_from_std E window of Some d \<Rightarrow> d | None \<Rightarrow> 0)"

text \<open>\<open>timestamp() / 60\<close>: whole seconds rounded down, then a division that rounds towards zero.\<close>

definition minute_of :: "instant \<Rightarrow> int" where
  "minute_of t = (let s = t div int ns_per_sec in sgn s * (abs s div 60))"

fun prune_front :: "instant \<Rightarrow> instant list \<Rightarrow> instant list" where
  "prune_front cutoff [] = []"
| "prune_front cutoff (front # deque) = (if front < cutoff then prune_front cutoff deque else front # deque)"

definition prune_window :: "det_env \<Rightarrow> duration \<Rightarrow> instant \<Rightarrow> instant list \<Rightarrow> instant list" where
  "prune_window E window now deque = prune_front (window_cutoff E window now) deque"

section \<open>Keys and subnets\<close>

lemma key_prefix: "unat (if p = 0 \<or> 128 \<le> p then 128 else p :: u8) \<le> 128"
  by (auto simp: word_le_nat_alt)

context det_env_spec
begin

lemma host_key: "ip_to_net (de_net E) ip = (case ip of IpV4 a \<Rightarrow> NetV4 a 32 | IpV6 b \<Rightarrow> NetV6 b 128)"
  by (simp add: ip_to_net_def net.new_v4 net.new_v6 split: ip_addr.split)

lemma source_key_eq:
  "source_key (de_net E) ip p =
     (case ip of IpV4 a \<Rightarrow> NetV4 a 32
               | IpV6 b \<Rightarrow> truncate_net (NetV6 b (if p = 0 \<or> 128 \<le> p then 128 else p)))"
  using key_prefix [of p]
  by (cases ip) (auto simp: source_key_def net.new_v4 net.new_v6 net.trunc Let_def split: if_splits)

lemma source_key_ok:
  "net_ok (source_key (de_net E) ip p)" "truncated (source_key (de_net E) ip p)"
  "in_net (source_key (de_net E) ip p) ip"
  using key_prefix [of p]
  by (cases ip; simp add: source_key_eq truncated_def prefix_mask_full [where 'a = 32, simplified] del: prefix_mask_full)+

lemma subnet_of_in_net: "subnet_of (de_net E) ip p q = Some n \<Longrightarrow> in_net n ip"
  by (cases ip) (auto simp: subnet_of_def net.new_v4 net.new_v6 net.trunc split: if_splits)

lemma cutoff: "w \<le> CHRONO_MAX \<Longrightarrow> window_cutoff E w now = now - int w"
  by (simp add: window_cutoff_def from_std)

end

text \<open>The source key is determined by its address, so counting by address is counting by key.\<close>

lemma source_key_addr:
  assumes "det_env_spec E"
  shows "net_addr (source_key (de_net E) a p) = net_addr (source_key (de_net E) b p) \<longleftrightarrow>
    source_key (de_net E) a p = source_key (de_net E) b p"
  using det_env_spec.source_key_eq [OF assms] by (cases a; cases b) auto

section \<open>Counting events in a sliding window\<close>

text \<open>\<open>signals\<close> runs a detector over events and collects what each call returns.\<close>

fun signals :: "('s \<Rightarrow> 'e \<Rightarrow> 'r \<times> 's) \<Rightarrow> 's \<Rightarrow> 'e list \<Rightarrow> 'r list" where
  "signals process s [] = []"
| "signals process s (e # es) = (case process s e of (r, s') \<Rightarrow> r # signals process s' es)"

fun after :: "('s \<Rightarrow> 'e \<Rightarrow> 'r \<times> 's) \<Rightarrow> 's \<Rightarrow> 'e list \<Rightarrow> 's" where
  "after process s [] = s"
| "after process s (e # es) = after process (snd (process s e)) es"

lemma signals_Cons: "signals process s (e # es) = fst (process s e) # signals process (snd (process s e)) es"
  by (simp split: prod.splits)

declare signals.simps(2) [simp del] signals_Cons [simp]

lemma length_signals [simp]: "length (signals process s es) = length es"
  by (induction es arbitrary: s) auto

lemma nth_signals: "i < length es \<Longrightarrow> signals process s es ! i = fst (process (after process s (take i es)) (es ! i))"
  by (induction es arbitrary: s i) (auto simp: nth_Cons split: nat.splits)

lemma after_append: "after process s (xs @ ys) = after process (after process s xs) ys"
  by (induction xs arbitrary: s) auto

lemma sorted_le_last: "sorted xs \<Longrightarrow> x \<in> set xs \<Longrightarrow> x \<le> last xs"
  by (induction xs) (auto simp: last_in_set)

text \<open>Two detectors related at each moment report the same on every stream in order of time.\<close>

lemma signals_simulation:
  assumes "\<And>T s s' e. R T s s' \<Longrightarrow> T \<le> time_of e \<Longrightarrow>
      fst (p s e) = fst (p' s' e) \<and> R (time_of e) (snd (p s e)) (snd (p' s' e))"
    and "R T s s'" "sorted ((T :: instant) # List.map time_of es)"
  shows "signals p s es = signals p' s' es"
  using assms(2,3)
proof (induction es arbitrary: T s s')
  case (Cons e es)
  then have step: "fst (p s e) = fst (p' s' e)" "R (time_of e) (snd (p s e)) (snd (p' s' e))"
    using assms(1) [of T s s' e] by auto
  then show ?case using Cons.IH [OF step(2)] Cons.prems(2) by simp
qed simp

text \<open>One map has lost some of the entries of another, but only ones that satisfy \<open>stale\<close>.\<close>

definition lost :: "('v \<Rightarrow> bool) \<Rightarrow> ('k, 'v) hmap \<Rightarrow> ('k, 'v) hmap \<Rightarrow> bool" where
  "lost stale m m' \<longleftrightarrow> (\<forall>k. hm_get m k = hm_get m' k
     \<or> hm_get m k = None \<and> (case hm_get m' k of Some v \<Rightarrow> stale v | None \<Rightarrow> False))"

lemma lostD:
  assumes "lost P m m'"
  obtains "hm_get m k = hm_get m' k" | v where "hm_get m k = None" "hm_get m' k = Some v" "P v"
  using spec [OF assms [unfolded lost_def], of k] by (auto split: option.splits)

lemma lost_refl [simp]: "lost P m m"
  by (simp add: lost_def)

lemma lost_insert: "lost P m m' \<Longrightarrow> lost P (hm_insert k v m) (hm_insert k v m')"
  by (simp add: lost_def)

lemma lost_mono: "lost P m m' \<Longrightarrow> (\<And>v. P v \<Longrightarrow> Q v) \<Longrightarrow> lost Q m m'"
  unfolding lost_def by (erule all_forward) (auto split: option.splits)

lemma lost_retain:
  assumes "hm_wf m" "lost P m m'" "\<And>k v. hm_get m k = Some v \<Longrightarrow> \<not> Q k v \<Longrightarrow> P v"
  shows "lost P (hm_retain Q m) m'"
  unfolding lost_def
proof
  fix k
  show "hm_get (hm_retain Q m) k = hm_get m' k \<or> hm_get (hm_retain Q m) k = None
      \<and> (case hm_get m' k of Some v \<Rightarrow> P v | None \<Rightarrow> False)"
  proof (cases "hm_get m k")
    case None
    then show ?thesis using assms(1,2) by (simp add: hm_get_retain lost_def) metis
  next
    case (Some v)
    then have "hm_get m' k = Some v" using assms(2) by (metis lost_def option.distinct(1))
    then show ?thesis using assms(1,3) Some by (simp add: hm_get_retain)
  qed
qed

abbreviation since :: "instant \<Rightarrow> instant list \<Rightarrow> instant list" where
  "since c q \<equiv> filter (\<lambda>t. c \<le> t) q"

lemma prune_front_sorted: "sorted q \<Longrightarrow> prune_front c q = since c q"
proof (induction q)
  case (Cons t q)
  then have "\<not> t < c \<Longrightarrow> since c q = q" by (intro filter_True) force
  then show ?case using Cons by simp
qed simp

lemma since_since: "c \<le> d \<Longrightarrow> since d (since c q) = since d q"
  by (auto intro: filter_cong)

lemma since_cong: "since c q = since c q' \<Longrightarrow> c \<le> d \<Longrightarrow> since d q = since d q'"
  by (metis since_since)

definition queued_until :: "('k \<Rightarrow> instant list) \<Rightarrow> instant \<Rightarrow> bool" where
  "queued_until q T \<longleftrightarrow> (\<forall>k. sorted (q k) \<and> (\<forall>t \<in> set (q k). t \<le> T))"

text \<open>
  A burst: at least \<open>n\<close> of the events are selected, and every selected one lies within
  the window that ends with the last event.
\<close>

definition burst :: "('e \<Rightarrow> instant) \<Rightarrow> ('e \<Rightarrow> bool) \<Rightarrow> nat \<Rightarrow> int \<Rightarrow> 'e list \<Rightarrow> bool" where
  "burst time_of sel n w es \<longleftrightarrow> es \<noteq> [] \<and> n \<le> length (filter sel es)
     \<and> (\<forall>e \<in> set es. sel e \<longrightarrow> time_of (last es) - w \<le> time_of e)"

text \<open>
  The contract. An event that matters is counted under its key together with the
  earlier ones inside the window; the detector fires when their number reaches the
  limit and then starts again. Only the part of a queue inside the window is
  promised, so an implementation may drop what is older whenever it likes.
\<close>

locale window_detector =
  fixes process :: "'s \<Rightarrow> 'e \<Rightarrow> 'r \<times> 's"
    and relevant :: "'e \<Rightarrow> bool" and key_of :: "'s \<Rightarrow> 'e \<Rightarrow> 'k" and time_of :: "'e \<Rightarrow> instant"
    and queue :: "'s \<Rightarrow> 'k \<Rightarrow> instant list" and fires :: "'r \<Rightarrow> bool"
    and limit :: "'s \<Rightarrow> nat" and width :: "'s \<Rightarrow> int" and ok :: "'s \<Rightarrow> bool"
  assumes params: "limit (snd (process s e)) = limit s" "width (snd (process s e)) = width s"
      "ok (snd (process s e)) = ok s" "key_of (snd (process s e)) = key_of s"
    and width_nonneg: "0 \<le> width s"
    and irrelevant: "ok s \<Longrightarrow> \<not> relevant e \<Longrightarrow> \<not> fires (fst (process s e)) \<and> queue (snd (process s e)) = queue s"
    and fires_iff: "ok s \<Longrightarrow> relevant e \<Longrightarrow> queued_until (queue s) T \<Longrightarrow> T \<le> time_of e \<Longrightarrow>
      fires (fst (process s e)) \<longleftrightarrow>
      limit s \<le> Suc (length (since (time_of e - width s) (queue s (key_of s e))))"
    and queue_key: "ok s \<Longrightarrow> relevant e \<Longrightarrow> queued_until (queue s) T \<Longrightarrow> T \<le> time_of e \<Longrightarrow>
      since (time_of e - width s) (queue (snd (process s e)) (key_of s e)) =
      (if fires (fst (process s e)) then []
       else since (time_of e - width s) (queue s (key_of s e) @ [time_of e]))"
    and queue_other: "ok s \<Longrightarrow> relevant e \<Longrightarrow> queued_until (queue s) T \<Longrightarrow> T \<le> time_of e \<Longrightarrow> k \<noteq> key_of s e \<Longrightarrow>
      since (time_of e - width s) (queue (snd (process s e)) k) = since (time_of e - width s) (queue s k)"
    and queued: "ok s \<Longrightarrow> relevant e \<Longrightarrow> queued_until (queue s) T \<Longrightarrow> T \<le> time_of e \<Longrightarrow>
      queued_until (queue (snd (process s e))) (time_of e)"
begin

definition hit :: "'s \<Rightarrow> 'k \<Rightarrow> 'e \<Rightarrow> bool" where
  "hit s k e \<longleftrightarrow> relevant e \<and> key_of s e = k"

lemma hit_next [simp]: "hit (snd (process s e)) = hit s"
  by (simp add: hit_def params fun_eq_iff)

lemma queued_step:
  assumes "ok s" "queued_until (queue s) T" "T \<le> time_of e"
  shows "queued_until (queue (snd (process s e))) (time_of e)"
proof (cases "relevant e")
  case False
  then show ?thesis using irrelevant [OF assms(1) False] assms(2,3) by (force simp: queued_until_def)
qed (use queued assms in blast)

lemma since_step:
  assumes "ok s" "queued_until (queue s) T" "T \<le> time_of e" "time_of e - width s \<le> c"
  shows "since c (queue (snd (process s e)) k) =
    (if hit s k e then if fires (fst (process s e)) then [] else since c (queue s k @ [time_of e])
     else since c (queue s k))"
proof (cases "relevant e")
  case False
  then show ?thesis using irrelevant [OF assms(1) False] by (simp add: hit_def)
next
  case True
  show ?thesis
  proof (cases "key_of s e = k")
    case key: True
    have "since (time_of e - width s) (queue (snd (process s e)) k) =
      (if fires (fst (process s e)) then [] else since (time_of e - width s) (queue s k @ [time_of e]))"
      using queue_key [OF assms(1) True assms(2,3)] key by simp
    then have "since c (queue (snd (process s e)) k) =
      since c (if fires (fst (process s e)) then [] else since (time_of e - width s) (queue s k @ [time_of e]))"
      using since_since [OF assms(4), of "queue (snd (process s e)) k"] by simp
    then show ?thesis using True key since_since [OF assms(4), of "queue s k @ [time_of e]"] by (simp add: hit_def)
  next
    case False
    then show ?thesis
      using since_cong [OF queue_other [OF assms(1) True assms(2,3)] assms(4), of k] by (auto simp: hit_def)
  qed
qed

text \<open>Enough events of one key inside one window: one of them is reported.\<close>

theorem detects:
  assumes "ok s" "queued_until (queue s) T" "sorted (T # List.map time_of es)"
    and "\<forall>e \<in> set es. hit s k e \<longrightarrow> C \<le> time_of e" "\<forall>e \<in> set es. time_of e - width s \<le> C"
    and "limit s \<le> length (since C (queue s k)) + length (filter (hit s k) es)" "filter (hit s k) es \<noteq> []"
  shows "\<exists>i < length es. hit s k (es ! i) \<and> fires (signals process s es ! i)"
  using assms
proof (induction es arbitrary: s T)
  case (Cons e es)
  let ?s = "snd (process s e)"
  have T: "T \<le> time_of e" and C: "time_of e - width s \<le> C" using Cons.prems by auto
  note step = since_step [OF Cons.prems(1,2) T C]
  show ?case
  proof (cases "hit s k e \<and> fires (fst (process s e))")
    case True
    then show ?thesis by (intro exI [of _ 0]) simp
  next
    case False
    have more: "limit s \<le> length (since C (queue ?s k)) + length (filter (hit s k) es)"
    proof (cases "hit s k e")
      case True
      then have "since C (queue ?s k) = since C (queue s k @ [time_of e])" "C \<le> time_of e"
        using step [of k] False Cons.prems(4) by simp_all
      then show ?thesis using Cons.prems(6) True by simp
    next
      case no: False
      then show ?thesis using step [of k] Cons.prems(6) by simp
    qed
    have ne: "filter (hit s k) es \<noteq> []"
    proof
      assume nil: "filter (hit s k) es = []"
      then have hit: "hit s k e" using Cons.prems(7) by (metis filter.simps(2))
      then have "limit s \<le> Suc (length (since C (queue s k)))" using Cons.prems(6) nil by simp
      also have "length (since C (queue s k)) \<le> length (since (time_of e - width s) (queue s k))"
        using since_since [OF C, of "queue s k"] by (metis length_filter_le)
      finally have "fires (fst (process s e))"
        using hit fires_iff [OF Cons.prems(1) _ Cons.prems(2) T] by (simp add: hit_def)
      then show False using False hit by blast
    qed
    have "\<exists>i < length es. hit ?s k (es ! i) \<and> fires (signals process ?s es ! i)"
    proof (rule Cons.IH)
      show "queued_until (queue ?s) (time_of e)" by (rule queued_step [OF Cons.prems(1,2) T])
      show "sorted (time_of e # List.map time_of es)" using Cons.prems(3) by simp
    qed (use Cons.prems(1,4,5) more ne in \<open>simp_all add: params\<close>)
    then obtain i where "i < length es" "hit s k (es ! i)" "fires (signals process ?s es ! i)"
      by (metis hit_next)
    then show ?thesis by (intro exI [of _ "Suc i"]) simp
  qed
qed simp

text \<open>A report is never made on fewer events than the limit.\<close>

theorem no_false_alarm:
  assumes "ok s" "queued_until (queue s) T" "sorted (T # List.map time_of (es @ [e]))"
    and "relevant e" "fires (fst (process (after process s es) e))"
  shows "limit s \<le> length (since (time_of e - width s) (queue s (key_of s e)))
    + length (filter (\<lambda>d. hit s (key_of s e) d \<and> time_of e - width s \<le> time_of d) (es @ [e]))"
  using assms
proof (induction es arbitrary: s T)
  case Nil
  then show ?case using fires_iff [OF Nil(1) Nil(4) Nil(2)] width_nonneg [of s] by (simp add: hit_def)
next
  case (Cons d es)
  let ?s = "snd (process s d)" and ?k = "key_of s e"
  have T: "T \<le> time_of d" "time_of d \<le> time_of e" using Cons.prems by auto
  have "limit ?s \<le> length (since (time_of e - width ?s) (queue ?s (key_of ?s e)))
    + length (filter (\<lambda>d. hit ?s (key_of ?s e) d \<and> time_of e - width ?s \<le> time_of d) (es @ [e]))"
    using Cons.prems queued_step [OF Cons.prems(1,2) T(1)]
    by (intro Cons.IH [of ?s "time_of d"]) (simp_all add: params)
  moreover have "length (since (time_of e - width s) (queue ?s ?k)) \<le>
    length (since (time_of e - width s) (queue s ?k)) + (if hit s ?k d \<and> time_of e - width s \<le> time_of d then 1 else 0)"
    using since_step [OF Cons.prems(1,2) T(1), of "time_of e - width s" ?k] T(2) by simp
  ultimately show ?case by (simp add: params split: if_splits)
qed

lemma after_params:
  "limit (after process s es) = limit s" "width (after process s es) = width s"
  "ok (after process s es) = ok s" "key_of (after process s es) = key_of s"
  by (induction es arbitrary: s) (simp_all add: params)

lemma queued_after:
  "ok s \<Longrightarrow> queued_until (queue s) T \<Longrightarrow> sorted (T # List.map time_of es) \<Longrightarrow>
   queued_until (queue (after process s es)) (last (T # List.map time_of es))"
proof (induction es arbitrary: s T)
  case (Cons e es)
  then have "queued_until (queue (snd (process s e))) (time_of e)" by (intro queued_step [of s T]) auto
  then show ?case using Cons.IH [of "snd (process s e)" "time_of e"] Cons.prems by (simp add: params)
qed simp

theorem burst_detected:
  assumes "ok s" "\<And>k. queue s k = []" "sorted (List.map time_of (pre @ es))" "0 < limit s"
    and "burst time_of (hit s k) (limit s) (width s) es"
  shows "\<exists>i. length pre \<le> i \<and> i < length (pre @ es) \<and> hit s k ((pre @ es) ! i)
    \<and> fires (fst (process (after process s (take i (pre @ es))) ((pre @ es) ! i)))"
proof -
  let ?s = "after process s pre"
  define T where "T = (if pre @ es = [] then 0 else time_of (hd (pre @ es)))"
  have q0: "queued_until (queue s) T" by (simp add: queued_until_def assms(2))
  have sT: "sorted (T # List.map time_of (pre @ es))"
    using assms(3) by (cases "pre @ es") (simp_all add: T_def)
  then have sp: "sorted (T # List.map time_of pre)" and se: "sorted (last (T # List.map time_of pre) # List.map time_of es)"
    by (auto simp: sorted_append last_map)
  have hit: "hit ?s = hit s" by (simp add: hit_def after_params fun_eq_iff)
  let ?C = "time_of (last es) - width s"
  have ne: "es \<noteq> []" and b: "limit s \<le> length (filter (hit s k) es)"
    and win: "\<forall>e \<in> set es. hit s k e \<longrightarrow> ?C \<le> time_of e"
    using assms(5) by (auto simp: burst_def)
  have hits: "filter (hit s k) es \<noteq> []" using b assms(4) by auto
  have "time_of e \<le> time_of (last es)" if "e \<in> set es" for e
  proof -
    have "es = butlast es @ [last es]" using ne by simp
    then have "sorted (List.map time_of (butlast es) @ [time_of (last es)])" using se
      by (metis list.map(1,2) map_append sorted_simps(2))
    moreover have "e = last es \<or> e \<in> set (butlast es)" using that ne by (metis in_set_butlast_appendI append_butlast_last_id rotate1.simps(2) set_ConsD set_rotate1)
    ultimately show ?thesis by (auto simp: sorted_append)
  qed
  then obtain i where i: "i < length es" "hit s k (es ! i)" "fires (signals process ?s es ! i)"
    using detects [of ?s _ es k ?C, OF _ queued_after [OF assms(1) q0 sp] se] win b hits assms(1)
    by (auto simp: after_params hit)
  then show ?thesis
    by (intro exI [of _ "length pre + i"]) (simp add: nth_append nth_signals after_append)
qed

theorem alarm_justified:
  assumes "ok s" "\<And>k. queue s k = []" "sorted (List.map time_of (es @ [e]))"
    and "relevant e" "fires (fst (process (after process s es) e))"
  shows "limit s \<le> length (filter (\<lambda>d. hit s (key_of s e) d \<and> time_of e - width s \<le> time_of d) (es @ [e]))"
proof -
  define T where "T = time_of (hd (es @ [e]))"
  have "sorted (T # List.map time_of (es @ [e]))"
    using assms(3) by (cases "es @ [e]") (simp_all add: T_def)
  then show ?thesis
    using no_false_alarm [of s T es e] assms by (simp add: queued_until_def)
qed

end

end
