(* ===== verification/Window_Detectors.thy ===== *)
theory Window_Detectors
  imports Detector_Base
begin

text \<open>
  The brute-force and flood detectors that count events per source in a sliding
  window: \<open>ssh_bruteforce.rs\<close>, \<open>smtp_bruteforce.rs\<close> and \<open>http_4xx_flood.rs\<close>. A \<open>DashMap\<close>
  of queues is a hash map of lists, the front of the queue first.
\<close>

section \<open>SSH brute force\<close>

record SshBruteforceDetector =
  ssh_threshold :: u32
  ssh_window :: duration
  ssh_ban_duration :: duration
  ssh_enum_threshold :: u32
  ssh_enum_window :: duration
  ssh_enum_ban_duration :: duration
  ssh_failures :: "(ip_addr, instant list) hmap"
  ssh_enum_failures :: "(ip_addr, instant list) hmap"
  ssh_ipv6_prefix :: u8

definition ssh_new :: SshBruteforceDetector where
  "ssh_new = \<lparr>ssh_threshold = 5, ssh_window = secs 300, ssh_ban_duration = secs 86400,
     ssh_enum_threshold = 3, ssh_enum_window = secs 120, ssh_enum_ban_duration = secs 172800,
     ssh_failures = hm_empty, ssh_enum_failures = hm_empty, ssh_ipv6_prefix = DEFAULT_IPV6_PREFIX\<rparr>"

definition ssh_with_config ::
    "u32 \<Rightarrow> duration \<Rightarrow> duration \<Rightarrow> u32 \<Rightarrow> duration \<Rightarrow> duration \<Rightarrow> SshBruteforceDetector" where
  "ssh_with_config threshold window ban_duration enum_threshold enum_window enum_ban_duration =
     \<lparr>ssh_threshold = threshold, ssh_window = window, ssh_ban_duration = ban_duration,
      ssh_enum_threshold = enum_threshold, ssh_enum_window = enum_window,
      ssh_enum_ban_duration = enum_ban_duration,
      ssh_failures = hm_empty, ssh_enum_failures = hm_empty, ssh_ipv6_prefix = DEFAULT_IPV6_PREFIX\<rparr>"

definition ssh_with_ipv6_prefix :: "u8 \<Rightarrow> SshBruteforceDetector \<Rightarrow> SshBruteforceDetector" where
  "ssh_with_ipv6_prefix prefix d = d\<lparr>ssh_ipv6_prefix := prefix\<rparr>"

definition ssh_process ::
    "det_env \<Rightarrow> SshBruteforceDetector \<Rightarrow> NormalizedEvent \<Rightarrow> DetectionSignal option \<times> SshBruteforceDetector" where
  "ssh_process E d event =
     (if ev_event_type event \<noteq> AuthFailure then (None, d)
      else
        let key = source_key (de_net E) (ev_source_ip event) (ssh_ipv6_prefix d);
            ip = net_addr key;
            now = ev_timestamp event;
            is_invalid_user = (case hm_get (ev_metadata event) ''invalid_user'' of
                Some v \<Rightarrow> v = ''true'' | None \<Rightarrow> False);
            deque = prune_window E (ssh_window d) now (hm_get_or [] (ssh_failures d) ip @ [now])
        in if length deque \<ge> unat (ssh_threshold d) then
             let reason = ''SSH brute-force: '' @ show_nat (length deque) @ '' failed logins from ''
                   @ de_show_net E key @ '' in window''
             in (Some \<lparr>sg_source_ip = key, sg_severity = 150, sg_confidence = f32_09, sg_reason = reason,
                   sg_evidence_hash = compute_evidence_hash E ip reason,
                   sg_suggested_action = Ban (ssh_ban_duration d),
                   sg_detector_name = ''ssh_bruteforce'', sg_timestamp = now\<rparr>,
                 d\<lparr>ssh_failures := hm_insert ip [] (ssh_failures d)\<rparr>)
           else
             let d = d\<lparr>ssh_failures := hm_insert ip deque (ssh_failures d)\<rparr>
             in if is_invalid_user then
                  let deque = prune_window E (ssh_enum_window d) now (hm_get_or [] (ssh_enum_failures d) ip @ [now])
                  in if length deque \<ge> unat (ssh_enum_threshold d) then
                       let reason = ''SSH user enumeration: '' @ show_nat (length deque)
                             @ '' invalid-user attempts from '' @ de_show_net E key @ '' in window''
                       in (Some \<lparr>sg_source_ip = key, sg_severity = 180, sg_confidence = f32_09,
                             sg_reason = reason, sg_evidence_hash = compute_evidence_hash E ip reason,
                             sg_suggested_action = Ban (ssh_enum_ban_duration d),
                             sg_detector_name = ''ssh_bruteforce'', sg_timestamp = now\<rparr>,
                           d\<lparr>ssh_enum_failures := hm_insert ip [] (ssh_enum_failures d)\<rparr>)
                     else (None, d\<lparr>ssh_enum_failures := hm_insert ip deque (ssh_enum_failures d)\<rparr>)
                else (None, d))"

section \<open>SMTP brute force\<close>

record SmtpBruteforceDetector =
  smtp_threshold :: u32
  smtp_window :: duration
  smtp_ban_duration :: duration
  smtp_failures :: "(ip_addr, instant list) hmap"

definition smtp_new :: SmtpBruteforceDetector where
  "smtp_new = \<lparr>smtp_threshold = 5, smtp_window = secs 300, smtp_ban_duration = secs 86400, smtp_failures = hm_empty\<rparr>"

definition smtp_with_config :: "u32 \<Rightarrow> duration \<Rightarrow> duration \<Rightarrow> SmtpBruteforceDetector" where
  "smtp_with_config threshold window ban_duration =
     \<lparr>smtp_threshold = threshold, smtp_window = window, smtp_ban_duration = ban_duration, smtp_failures = hm_empty\<rparr>"

definition smtp_process ::
    "det_env \<Rightarrow> SmtpBruteforceDetector \<Rightarrow> NormalizedEvent \<Rightarrow> DetectionSignal option \<times> SmtpBruteforceDetector" where
  "smtp_process E d event =
     (if ev_event_type event \<noteq> SmtpAuthFailure then (None, d)
      else
        let ip = ev_source_ip event;
            now = ev_timestamp event;
            deque = prune_window E (smtp_window d) now (hm_get_or [] (smtp_failures d) ip @ [now])
        in if length deque \<ge> unat (smtp_threshold d) then
             let reason = ''SMTP brute-force: '' @ show_nat (length deque)
                   @ '' failed SASL authentications from '' @ de_show_ip E ip @ '' in window''
             in (Some \<lparr>sg_source_ip = ip_to_net (de_net E) ip, sg_severity = 150, sg_confidence = f32_09,
                   sg_reason = reason, sg_evidence_hash = compute_evidence_hash E ip reason,
                   sg_suggested_action = Ban (smtp_ban_duration d),
                   sg_detector_name = ''smtp_bruteforce'', sg_timestamp = now\<rparr>,
                 d\<lparr>smtp_failures := hm_insert ip [] (smtp_failures d)\<rparr>)
           else (None, d\<lparr>smtp_failures := hm_insert ip deque (smtp_failures d)\<rparr>))"

section \<open>Floods of HTTP errors\<close>

record Http4xxFloodDetector =
  h4_threshold :: u32
  h4_window :: duration
  h4_ban_duration :: duration
  h4_hits :: "(ip_addr, instant list) hmap"

definition h4_new :: Http4xxFloodDetector where
  "h4_new = \<lparr>h4_threshold = 50, h4_window = secs 60, h4_ban_duration = secs 3600, h4_hits = hm_empty\<rparr>"

definition h4_with_config :: "u32 \<Rightarrow> duration \<Rightarrow> duration \<Rightarrow> Http4xxFloodDetector" where
  "h4_with_config threshold window ban_duration =
     \<lparr>h4_threshold = threshold, h4_window = window, h4_ban_duration = ban_duration, h4_hits = hm_empty\<rparr>"

definition h4_process ::
    "det_env \<Rightarrow> Http4xxFloodDetector \<Rightarrow> NormalizedEvent \<Rightarrow> DetectionSignal option \<times> Http4xxFloodDetector" where
  "h4_process E d event =
     (if ev_event_type event \<noteq> Http4xx then (None, d)
      else
        let ip = ev_source_ip event;
            now = ev_timestamp event;
            deque = prune_window E (h4_window d) now (hm_get_or [] (h4_hits d) ip @ [now])
        in if length deque \<ge> unat (h4_threshold d) then
             let reason = ''HTTP 4xx flood: '' @ show_nat (length deque) @ '' errors from ''
                   @ de_show_ip E ip @ '' in window''
             in (Some \<lparr>sg_source_ip = ip_to_net (de_net E) ip, sg_severity = 120, sg_confidence = f32_085,
                   sg_reason = reason, sg_evidence_hash = compute_evidence_hash E ip reason,
                   sg_suggested_action = Ban (h4_ban_duration d),
                   sg_detector_name = ''http_4xx_flood'', sg_timestamp = now\<rparr>,
                 d\<lparr>h4_hits := hm_insert ip [] (h4_hits d)\<rparr>)
           else (None, d\<lparr>h4_hits := hm_insert ip deque (h4_hits d)\<rparr>))"

section \<open>The contract of the sliding window\<close>

definition queues :: "('k, instant list) hmap \<Rightarrow> 'k \<Rightarrow> instant list" where
  "queues m k = hm_get_or [] m k"

lemma queues_insert [simp]: "queues (hm_insert k q m) = (queues m)(k := q)"
  by (rule ext) (simp add: queues_def)

definition is_some :: "'a option \<Rightarrow> bool" where
  "is_some r \<longleftrightarrow> r \<noteq> None"

lemma is_some_simps [simp]: "is_some (Some x)" "\<not> is_some None"
  by (simp_all add: is_some_def)

text \<open>The queue after one counted event, for a window that \<open>chrono\<close> can represent.\<close>

context det_env_spec
begin

lemma pruned:
  assumes "w \<le> CHRONO_MAX" "queued_until q T" "T \<le> now"
  shows "prune_window E w now (q k @ [now]) = since (now - int w) (q k) @ [now]"
proof -
  have "sorted (q k @ [now])" using assms(2,3) by (force simp: queued_until_def sorted_append)
  then show ?thesis by (simp add: prune_window_def cutoff [OF assms(1)] prune_front_sorted)
qed

lemma queued_pruned:
  assumes "queued_until q T" "T \<le> now"
  shows "queued_until (q(k := since c (q k) @ [now])) now" "queued_until (q(k := [])) now"
  using assms by (auto simp: queued_until_def sorted_append sorted_wrt_filter dest: order_trans)

end

definition ssh_brute :: "DetectionSignal option \<Rightarrow> bool" where
  "ssh_brute r \<longleftrightarrow> (case r of Some s \<Rightarrow> sg_severity s = 150 | None \<Rightarrow> False)"

text \<open>
  Each detector meets the contract. For SSH the counted events are the failed logins
  and a report is the signal of the first tier; the second tier has queues of its own.
\<close>

sublocale det_env_spec \<subseteq> ssh: window_detector "ssh_process E" "\<lambda>e. ev_event_type e = AuthFailure"
    "\<lambda>d e. net_addr (source_key (de_net E) (ev_source_ip e) (ssh_ipv6_prefix d))" ev_timestamp
    "\<lambda>d. queues (ssh_failures d)" ssh_brute
    "\<lambda>d. unat (ssh_threshold d)" "\<lambda>d. int (ssh_window d)" "\<lambda>d. ssh_window d \<le> CHRONO_MAX"
proof (unfold_locales, goal_cases)
  case (7 s e T)
  then show ?case
    using pruned [OF 7(1,3,4)] by (auto simp: ssh_process_def Let_def queues_def ssh_brute_def)
next
  case (8 s e T)
  then show ?case
    using pruned [OF 8(1,3,4)]
    by (auto simp: ssh_process_def Let_def queues_def [symmetric] ssh_brute_def)
next
  case (10 s e T)
  then show ?case
    using pruned [OF 10(1,3,4)] queued_pruned [OF 10(3,4)]
    by (auto simp: ssh_process_def Let_def queues_def [symmetric])
qed (auto simp: ssh_process_def Let_def ssh_brute_def fun_eq_iff)

sublocale det_env_spec \<subseteq> smtp: window_detector "smtp_process E" "\<lambda>e. ev_event_type e = SmtpAuthFailure"
    "\<lambda>d. ev_source_ip" ev_timestamp "\<lambda>d. queues (smtp_failures d)" is_some
    "\<lambda>d. unat (smtp_threshold d)" "\<lambda>d. int (smtp_window d)" "\<lambda>d. smtp_window d \<le> CHRONO_MAX"
proof (unfold_locales, goal_cases)
  case (7 s e T)
  then show ?case using pruned [OF 7(1,3,4)] by (auto simp: smtp_process_def Let_def queues_def)
next
  case (8 s e T)
  then show ?case
    using pruned [OF 8(1,3,4)] by (auto simp: smtp_process_def Let_def queues_def [symmetric])
next
  case (10 s e T)
  then show ?case
    using pruned [OF 10(1,3,4)] queued_pruned [OF 10(3,4)]
    by (auto simp: smtp_process_def Let_def queues_def [symmetric])
qed (auto simp: smtp_process_def Let_def fun_eq_iff)

sublocale det_env_spec \<subseteq> h4: window_detector "h4_process E" "\<lambda>e. ev_event_type e = Http4xx"
    "\<lambda>d. ev_source_ip" ev_timestamp "\<lambda>d. queues (h4_hits d)" is_some
    "\<lambda>d. unat (h4_threshold d)" "\<lambda>d. int (h4_window d)" "\<lambda>d. h4_window d \<le> CHRONO_MAX"
proof (unfold_locales, goal_cases)
  case (7 s e T)
  then show ?case using pruned [OF 7(1,3,4)] by (auto simp: h4_process_def Let_def queues_def)
next
  case (8 s e T)
  then show ?case
    using pruned [OF 8(1,3,4)] by (auto simp: h4_process_def Let_def queues_def [symmetric])
next
  case (10 s e T)
  then show ?case
    using pruned [OF 10(1,3,4)] queued_pruned [OF 10(3,4)]
    by (auto simp: h4_process_def Let_def queues_def [symmetric])
qed (auto simp: h4_process_def Let_def fun_eq_iff)

section \<open>What the detectors report\<close>

lemma ssh_signal:
  assumes "fst (ssh_process E d e) = Some s" "sg_severity s = 150"
  shows "sg_source_ip s = source_key (de_net E) (ev_source_ip e) (ssh_ipv6_prefix d)"
    "sg_suggested_action s = Ban (ssh_ban_duration d)"
  using assms by (auto simp: ssh_process_def Let_def split: if_splits)

lemma smtp_signal:
  assumes "fst (smtp_process E d e) = Some s"
  shows "sg_source_ip s = ip_to_net (de_net E) (ev_source_ip e)" "sg_suggested_action s = Ban (smtp_ban_duration d)"
  using assms by (auto simp: smtp_process_def Let_def split: if_splits)

lemma h4_signal:
  assumes "fst (h4_process E d e) = Some s"
  shows "sg_source_ip s = ip_to_net (de_net E) (ev_source_ip e)" "sg_suggested_action s = Ban (h4_ban_duration d)"
  using assms by (auto simp: h4_process_def Let_def split: if_splits)

lemma ssh_after: "ssh_ipv6_prefix (after (ssh_process E) d es) = ssh_ipv6_prefix d"
    "ssh_ban_duration (after (ssh_process E) d es) = ssh_ban_duration d"
  by (induction es arbitrary: d) (auto simp: ssh_process_def Let_def)

lemma smtp_after: "smtp_ban_duration (after (smtp_process E) d es) = smtp_ban_duration d"
  by (induction es arbitrary: d) (auto simp: smtp_process_def Let_def)

lemma h4_after: "h4_ban_duration (after (h4_process E) d es) = h4_ban_duration d"
  by (induction es arbitrary: d) (auto simp: h4_process_def Let_def)

definition reported :: "DetectionSignal option \<Rightarrow> ip_net \<Rightarrow> duration \<Rightarrow> bool" where
  "reported r n t \<longleftrightarrow> (case r of Some s \<Rightarrow> sg_source_ip s = n \<and> sg_suggested_action s = Ban t | None \<Rightarrow> False)"

abbreviation ssh_failed :: "det_env \<Rightarrow> SshBruteforceDetector \<Rightarrow> ip_net \<Rightarrow> NormalizedEvent \<Rightarrow> bool" where
  "ssh_failed E d key e \<equiv> ev_event_type e = AuthFailure
     \<and> source_key (de_net E) (ev_source_ip e) (ssh_ipv6_prefix d) = key"

abbreviation from_host :: "EventType \<Rightarrow> ip_addr \<Rightarrow> NormalizedEvent \<Rightarrow> bool" where
  "from_host ty ip e \<equiv> ev_event_type e = ty \<and> ev_source_ip e = ip"

context det_env_spec
begin

lemma ssh_hit:
  "ssh.hit d (net_addr (source_key (de_net E) a (ssh_ipv6_prefix d))) =
   ssh_failed E d (source_key (de_net E) a (ssh_ipv6_prefix d))"
  by (rule ext) (auto simp: ssh.hit_def source_key_addr [OF det_env_spec_axioms])

lemma host_hit: "smtp.hit d ip = from_host SmtpAuthFailure ip" "h4.hit d' ip = from_host Http4xx ip"
  by (auto simp: smtp.hit_def h4.hit_def fun_eq_iff)

lemma ssh_burst:
  assumes "ssh_failures d = []" "ssh_window d \<le> CHRONO_MAX" "0 < ssh_threshold d"
    and "sorted (List.map ev_timestamp (pre @ es))"
    and key: "key = source_key (de_net E) a (ssh_ipv6_prefix d)"
    and "burst ev_timestamp (ssh_failed E d key) (unat (ssh_threshold d)) (int (ssh_window d)) es"
  shows "\<exists>i. length pre \<le> i \<and> i < length (pre @ es) \<and>
    reported (signals (ssh_process E) d (pre @ es) ! i) key (ssh_ban_duration d)"
proof -
  obtain i where i: "length pre \<le> i" "i < length (pre @ es)" "ssh_failed E d key ((pre @ es) ! i)"
    "ssh_brute (fst (ssh_process E (after (ssh_process E) d (take i (pre @ es))) ((pre @ es) ! i)))"
    using ssh.burst_detected [of d pre es "net_addr key"] assms
    unfolding key ssh_hit by (auto simp: queues_def hm_get_or_def word_less_nat_alt)
  then have "reported (signals (ssh_process E) d (pre @ es) ! i) key (ssh_ban_duration d)"
    using ssh_signal [of E "after (ssh_process E) d (take i (pre @ es))" "(pre @ es) ! i"]
    by (auto simp: nth_signals reported_def ssh_brute_def ssh_after split: option.splits)
  with i show ?thesis by blast
qed

lemma smtp_burst:
  assumes "smtp_failures d = []" "smtp_window d \<le> CHRONO_MAX" "0 < smtp_threshold d"
    and "sorted (List.map ev_timestamp (pre @ es))"
    and "burst ev_timestamp (from_host SmtpAuthFailure ip) (unat (smtp_threshold d)) (int (smtp_window d)) es"
  shows "\<exists>i. length pre \<le> i \<and> i < length (pre @ es) \<and>
    reported (signals (smtp_process E) d (pre @ es) ! i) (ip_to_net (de_net E) ip) (smtp_ban_duration d)"
proof -
  obtain i where i: "length pre \<le> i" "i < length (pre @ es)" "from_host SmtpAuthFailure ip ((pre @ es) ! i)"
    "is_some (fst (smtp_process E (after (smtp_process E) d (take i (pre @ es))) ((pre @ es) ! i)))"
    using smtp.burst_detected [of d pre es ip] assms
    unfolding host_hit by (auto simp: queues_def hm_get_or_def word_less_nat_alt)
  then have "reported (signals (smtp_process E) d (pre @ es) ! i) (ip_to_net (de_net E) ip) (smtp_ban_duration d)"
    using smtp_signal [of E "after (smtp_process E) d (take i (pre @ es))" "(pre @ es) ! i"]
    by (auto simp: nth_signals reported_def is_some_def smtp_after split: option.splits)
  with i show ?thesis by blast
qed

lemma h4_burst:
  assumes "h4_hits d = []" "h4_window d \<le> CHRONO_MAX" "0 < h4_threshold d"
    and "sorted (List.map ev_timestamp (pre @ es))"
    and "burst ev_timestamp (from_host Http4xx ip) (unat (h4_threshold d)) (int (h4_window d)) es"
  shows "\<exists>i. length pre \<le> i \<and> i < length (pre @ es) \<and>
    reported (signals (h4_process E) d (pre @ es) ! i) (ip_to_net (de_net E) ip) (h4_ban_duration d)"
proof -
  obtain i where i: "length pre \<le> i" "i < length (pre @ es)" "from_host Http4xx ip ((pre @ es) ! i)"
    "is_some (fst (h4_process E (after (h4_process E) d (take i (pre @ es))) ((pre @ es) ! i)))"
    using h4.burst_detected [of d pre es ip] assms
    unfolding host_hit by (auto simp: queues_def hm_get_or_def word_less_nat_alt)
  then have "reported (signals (h4_process E) d (pre @ es) ! i) (ip_to_net (de_net E) ip) (h4_ban_duration d)"
    using h4_signal [of E "after (h4_process E) d (take i (pre @ es))" "(pre @ es) ! i"]
    by (auto simp: nth_signals reported_def is_some_def h4_after split: option.splits)
  with i show ?thesis by blast
qed

lemma ssh_justified:
  assumes "ssh_failures d = []" "ssh_window d \<le> CHRONO_MAX" "sorted (List.map ev_timestamp (es @ [e]))"
  shows "case fst (ssh_process E (after (ssh_process E) d es) e) of
      Some s \<Rightarrow> in_net (sg_source_ip s) (ev_source_ip e) \<and> (sg_severity s = 150 \<longrightarrow>
        unat (ssh_threshold d) \<le> length (filter (\<lambda>x. ssh_failed E d (sg_source_ip s) x
          \<and> ev_timestamp e - int (ssh_window d) \<le> ev_timestamp x) (es @ [e])))
    | None \<Rightarrow> True"
proof (cases "fst (ssh_process E (after (ssh_process E) d es) e)")
  case (Some s)
  then have e: "ev_event_type e = AuthFailure"
    and key: "sg_source_ip s = source_key (de_net E) (ev_source_ip e) (ssh_ipv6_prefix d)"
    by (auto simp: ssh_process_def Let_def ssh_after split: if_splits)
  have "unat (ssh_threshold d) \<le> length (filter (\<lambda>x. ssh_failed E d (sg_source_ip s) x
          \<and> ev_timestamp e - int (ssh_window d) \<le> ev_timestamp x) (es @ [e]))" if "sg_severity s = 150"
    using ssh.alarm_justified [of d es e] assms e Some that
    unfolding ssh_hit key by (simp add: queues_def hm_get_or_def ssh_brute_def)
  then show ?thesis using Some source_key_ok(3) key by simp
qed simp

lemma host_net: "in_net (ip_to_net (de_net E) ip) ip"
  by (cases ip) (simp_all add: host_key)

lemma smtp_justified:
  assumes "smtp_failures d = []" "smtp_window d \<le> CHRONO_MAX" "sorted (List.map ev_timestamp (es @ [e]))"
  shows "case fst (smtp_process E (after (smtp_process E) d es) e) of
      Some s \<Rightarrow> in_net (sg_source_ip s) (ev_source_ip e) \<and>
        unat (smtp_threshold d) \<le> length (filter (\<lambda>x. from_host SmtpAuthFailure (ev_source_ip e) x
          \<and> ev_timestamp e - int (smtp_window d) \<le> ev_timestamp x) (es @ [e]))
    | None \<Rightarrow> True"
proof (cases "fst (smtp_process E (after (smtp_process E) d es) e)")
  case (Some s)
  then have "ev_event_type e = SmtpAuthFailure" by (auto simp: smtp_process_def split: if_splits)
  then show ?thesis
    using smtp.alarm_justified [of d es e] assms Some smtp_signal [OF Some] host_net
    unfolding host_hit by (simp add: queues_def hm_get_or_def)
qed simp

lemma h4_justified:
  assumes "h4_hits d = []" "h4_window d \<le> CHRONO_MAX" "sorted (List.map ev_timestamp (es @ [e]))"
  shows "case fst (h4_process E (after (h4_process E) d es) e) of
      Some s \<Rightarrow> in_net (sg_source_ip s) (ev_source_ip e) \<and>
        unat (h4_threshold d) \<le> length (filter (\<lambda>x. from_host Http4xx (ev_source_ip e) x
          \<and> ev_timestamp e - int (h4_window d) \<le> ev_timestamp x) (es @ [e]))
    | None \<Rightarrow> True"
proof (cases "fst (h4_process E (after (h4_process E) d es) e)")
  case (Some s)
  then have "ev_event_type e = Http4xx" by (auto simp: h4_process_def split: if_splits)
  then show ?thesis
    using h4.alarm_justified [of d es e] assms Some h4_signal [OF Some] host_net
    unfolding host_hit by (simp add: queues_def hm_get_or_def)
qed simp

end

text \<open>
  C9: attacks are detected. Take the three detectors in their initial state and any
  stream of events in order of time that ends with a burst: as many failed logins
  of one source as the threshold, all inside one window. Whatever came before, one of
  these events makes the detector report exactly this source with the configured ban.
  For SSH a source is the whole IPv6 prefix, so the attempts may come from different
  addresses of it.
\<close>

theorem window_burst_detected:
  assumes env: "det_env_spec E" and ord: "sorted (List.map ev_timestamp (pre @ es))"
    and ssh: "ssh_failures ds = []" "ssh_window ds \<le> CHRONO_MAX" "0 < ssh_threshold ds"
    and smtp: "smtp_failures dm = []" "smtp_window dm \<le> CHRONO_MAX" "0 < smtp_threshold dm"
    and h4: "h4_hits dh = []" "h4_window dh \<le> CHRONO_MAX" "0 < h4_threshold dh"
  shows "(burst ev_timestamp (ssh_failed E ds (source_key (de_net E) ip (ssh_ipv6_prefix ds)))
        (unat (ssh_threshold ds)) (int (ssh_window ds)) es \<longrightarrow>
      (\<exists>i. length pre \<le> i \<and> i < length (pre @ es) \<and>
        reported (signals (ssh_process E) ds (pre @ es) ! i)
          (source_key (de_net E) ip (ssh_ipv6_prefix ds)) (ssh_ban_duration ds)))
    \<and> (burst ev_timestamp (from_host SmtpAuthFailure ip) (unat (smtp_threshold dm)) (int (smtp_window dm)) es \<longrightarrow>
      (\<exists>i. length pre \<le> i \<and> i < length (pre @ es) \<and>
        reported (signals (smtp_process E) dm (pre @ es) ! i) (ip_to_net (de_net E) ip) (smtp_ban_duration dm)))
    \<and> (burst ev_timestamp (from_host Http4xx ip) (unat (h4_threshold dh)) (int (h4_window dh)) es \<longrightarrow>
      (\<exists>i. length pre \<le> i \<and> i < length (pre @ es) \<and>
        reported (signals (h4_process E) dh (pre @ es) ! i) (ip_to_net (de_net E) ip) (h4_ban_duration dh)))"
  using det_env_spec.ssh_burst [OF env ssh ord refl] det_env_spec.smtp_burst [OF env smtp ord]
    det_env_spec.h4_burst [OF env h4 ord]
  by blast

definition ex_event :: "EventType \<Rightarrow> ip_addr \<Rightarrow> instant \<Rightarrow> NormalizedEvent" where
  "ex_event ty ip t = \<lparr>ev_timestamp = t, ev_source_ip = ip, ev_event_type = ty,
     ev_source_name = ''auth'', ev_raw_line = [], ev_metadata = []\<rparr>"

definition ex_rotating :: "NormalizedEvent list" where
  "ex_rotating = [ex_event AuthFailure (IpV6 0xFD000000000000000000000000000000) 0,
     ex_event AuthFailure (IpV6 0xFD000000000000000000000000000001) 1,
     ex_event AuthFailure (IpV6 0xFD000000000000000000000000000002) 2]"

definition ex_single :: "EventType \<Rightarrow> NormalizedEvent list" where
  "ex_single ty = [ex_event ty (IpV4 0xCB007105) 0, ex_event ty (IpV4 0xCB007105) 1, ex_event ty (IpV4 0xCB007105) 2]"

definition ex_ssh :: SshBruteforceDetector where
  "ex_ssh = ssh_with_config 3 300 86400 2 120 172800"

lemmas ex_event_simps = ex_event_def ex_rotating_def ex_single_def ex_ssh_def ssh_with_config_def
  smtp_with_config_def h4_with_config_def DEFAULT_IPV6_PREFIX_def CHRONO_MAX_def

lemma ex_rotating_key:
  "source_key (de_net ex_env) (IpV6 0xFD000000000000000000000000000000) 64 = NetV6 0xFD000000000000000000000000000000 64"
  "source_key (de_net ex_env) (IpV6 0xFD000000000000000000000000000001) 64 = NetV6 0xFD000000000000000000000000000000 64"
  "source_key (de_net ex_env) (IpV6 0xFD000000000000000000000000000002) 64 = NetV6 0xFD000000000000000000000000000000 64"
  unfolding exenv.source_key_eq by code_simp+

theorem window_burst_detected_witness:
  "(\<exists>i < 3. reported (signals (ssh_process ex_env) ex_ssh ex_rotating ! i)
      (NetV6 0xFD000000000000000000000000000000 64) 86400)
   \<and> (\<exists>i < 3. reported (signals (smtp_process ex_env) (smtp_with_config 3 300 86400) (ex_single SmtpAuthFailure) ! i)
      (NetV4 0xCB007105 32) 86400)
   \<and> (\<exists>i < 3. reported (signals (h4_process ex_env) (h4_with_config 3 60 3600) (ex_single Http4xx) ! i)
      (NetV4 0xCB007105 32) 3600)"
proof -
  note burst = window_burst_detected [OF exenv.det_env_spec_axioms, of "[]" _ ex_ssh
    "smtp_with_config 3 300 86400" "h4_with_config 3 60 3600"]
  have "\<exists>i < 3. reported (signals (ssh_process ex_env) ex_ssh ex_rotating ! i)
      (NetV6 0xFD000000000000000000000000000000 64) 86400"
    using burst [of ex_rotating "IpV6 0xFD000000000000000000000000000000"]
    by (simp add: ex_event_simps burst_def ex_rotating_key numeral_3_eq_3)
  moreover have "\<exists>i < 3. reported (signals (smtp_process ex_env) (smtp_with_config 3 300 86400)
      (ex_single SmtpAuthFailure) ! i) (NetV4 0xCB007105 32) 86400"
    using burst [of "ex_single SmtpAuthFailure" "IpV4 0xCB007105"]
    by (simp add: ex_event_simps burst_def exenv.host_key numeral_3_eq_3)
  moreover have "\<exists>i < 3. reported (signals (h4_process ex_env) (h4_with_config 3 60 3600)
      (ex_single Http4xx) ! i) (NetV4 0xCB007105 32) 3600"
    using burst [of "ex_single Http4xx" "IpV4 0xCB007105"]
    by (simp add: ex_event_simps burst_def exenv.host_key numeral_3_eq_3)
  ultimately show ?thesis by blast
qed



end
