(* ===== verification/Http_Detectors.thy ===== *)
theory Http_Detectors
  imports Detector_Base
begin

text \<open>
  The detectors on HTTP events: request floods (\<open>http_flood.rs\<close>), login brute force
  (\<open>http_login_bruteforce.rs\<close>), honeypot paths (\<open>honeypot.rs\<close>) and scanner user agents
  (\<open>scanner_fingerprint.rs\<close>). The atomic event counters are words; the sweep that they
  trigger is part of the model.
\<close>

section \<open>Request floods\<close>

definition HTTP_FLOOD_SWEEP_EVERY :: u64 where
  "HTTP_FLOOD_SWEEP_EVERY = 8192"

record WindowCounter =
  window_start :: instant
  wc_count :: u64

record HttpFloodDetector =
  hf_window :: duration
  hf_ip_threshold :: u64
  hf_subnet_threshold :: u64
  hf_ban_duration :: duration
  hf_ignore_extensions :: "string list"
  hf_ip_counters :: "(ip_addr, WindowCounter) hmap"
  hf_subnet_counters :: "(ip_net, WindowCounter) hmap"
  hf_events_since_sweep :: u64

definition default_ignore_extensions :: "string list" where
  "default_ignore_extensions =
     [''.css'', ''.js'', ''.mjs'', ''.map'', ''.png'', ''.jpg'', ''.jpeg'', ''.gif'', ''.webp'', ''.avif'',
      ''.svg'', ''.ico'', ''.woff'', ''.woff2'', ''.ttf'', ''.eot'', ''.mp4'', ''.webm'', ''.pdf'']"

definition hf_with_config :: "duration \<Rightarrow> u64 \<Rightarrow> u64 \<Rightarrow> duration \<Rightarrow> string list \<Rightarrow> HttpFloodDetector" where
  "hf_with_config window ip_threshold subnet_threshold ban_duration ignore_extensions =
     \<lparr>hf_window = window, hf_ip_threshold = ip_threshold, hf_subnet_threshold = subnet_threshold,
      hf_ban_duration = ban_duration,
      hf_ignore_extensions = List.map to_ascii_lowercase ignore_extensions,
      hf_ip_counters = hm_empty, hf_subnet_counters = hm_empty, hf_events_since_sweep = 0\<rparr>"

definition hf_new :: HttpFloodDetector where
  "hf_new = hf_with_config (secs 60) 600 2400 (secs (12 * 3600)) default_ignore_extensions"

text \<open>The last octet, or the last five 16-bit segments, set to zero.\<close>

definition ip_to_subnet :: "ipnet_ops \<Rightarrow> ip_addr \<Rightarrow> ip_net option" where
  "ip_to_subnet N ip =
     (case ip of
        IpV4 v4 \<Rightarrow> net_new N (IpV4 (push_bit 8 (drop_bit 8 v4))) 24
      | IpV6 v6 \<Rightarrow> net_new N (IpV6 (push_bit 80 (drop_bit 80 v6))) 48)"

definition is_ignored_path :: "HttpFloodDetector \<Rightarrow> string \<Rightarrow> bool" where
  "is_ignored_path d path =
     (let path = takeWhile (\<lambda>c. c \<noteq> CHR ''?'' \<and> c \<noteq> CHR ''#'') path;
          lower = to_ascii_lowercase path
      in list_ex (\<lambda>ext. ends_with lower ext) (hf_ignore_extensions d))"

definition bump :: "det_env \<Rightarrow> instant \<Rightarrow> duration \<Rightarrow> u64 \<Rightarrow> WindowCounter \<Rightarrow> bool \<times> WindowCounter" where
  "bump E ts window threshold counter =
     (let window_chrono = (case de_from_std E window of Some d \<Rightarrow> d | None \<Rightarrow> int (secs 60));
          counter = (if ts - window_start counter \<ge> window_chrono
                     then \<lparr>window_start = ts, wc_count = 0\<rparr> else counter);
          counter = counter\<lparr>wc_count := wc_count counter + 1\<rparr>
      in (wc_count counter = threshold, counter))"

definition hf_stale :: "det_env \<Rightarrow> HttpFloodDetector \<Rightarrow> int" where
  "hf_stale E d = (case de_from_std E (hf_window d * 4) of Some s \<Rightarrow> s | None \<Rightarrow> int (secs 240))"

definition hf_maybe_sweep :: "det_env \<Rightarrow> instant \<Rightarrow> HttpFloodDetector \<Rightarrow> HttpFloodDetector" where
  "hf_maybe_sweep E now d =
     (let events = hf_events_since_sweep d;
          d = d\<lparr>hf_events_since_sweep := events + 1\<rparr>
      in if events mod HTTP_FLOOD_SWEEP_EVERY \<noteq> HTTP_FLOOD_SWEEP_EVERY - 1 then d
         else
           let stale = hf_stale E d
           in d\<lparr>hf_ip_counters := hm_retain (\<lambda>_ c. now - window_start c < stale) (hf_ip_counters d),
                hf_subnet_counters := hm_retain (\<lambda>_ c. now - window_start c < stale) (hf_subnet_counters d)\<rparr>)"

definition hf_signal :: "det_env \<Rightarrow> HttpFloodDetector \<Rightarrow> ip_net \<Rightarrow> u64 \<Rightarrow> instant \<Rightarrow> string \<Rightarrow> DetectionSignal" where
  "hf_signal E d target count ts kind =
     (let evidence = de_show_net E target @ '':http_flood:'' @ kind @ '':'' @ show_nat (unat count) @ '':''
            @ show_int (minute_of ts)
      in \<lparr>sg_source_ip = target, sg_severity = 200, sg_confidence = f32_085,
          sg_reason = ''HTTP flood: '' @ show_nat (unat count) @ '' requests from '' @ de_show_net E target
            @ '' in '' @ show_nat (hf_window d div ns_per_sec) @ ''s'',
          sg_evidence_hash = de_blake3 E (str_bytes evidence),
          sg_suggested_action = Ban (hf_ban_duration d),
          sg_detector_name = ''http_flood'', sg_timestamp = ts\<rparr>)"

text \<open>One counter of a map: created on first use, bumped, written back.\<close>

definition count_request ::
    "det_env \<Rightarrow> instant \<Rightarrow> duration \<Rightarrow> u64 \<Rightarrow> 'k \<Rightarrow> ('k, WindowCounter) hmap \<Rightarrow> bool \<times> WindowCounter \<times> ('k, WindowCounter) hmap" where
  "count_request E ts window threshold k m =
     (case bump E ts window threshold (hm_get_or \<lparr>window_start = ts, wc_count = 0\<rparr> m k) of
        (fired, entry) \<Rightarrow> (fired, entry, hm_insert k entry m))"

text \<open>
  The part of \<open>process\<close> after the sweep: the subnet first, then the address.
  \<open>IpNet::from\<close> of an address is its host network.
\<close>

definition hf_count ::
    "det_env \<Rightarrow> HttpFloodDetector \<Rightarrow> ip_addr \<Rightarrow> instant \<Rightarrow> DetectionSignal option \<times> HttpFloodDetector" where
  "hf_count E d ip ts =
     (let by_subnet = (if hf_subnet_threshold d > 0 then
             case ip_to_subnet (de_net E) ip of
               Some subnet \<Rightarrow>
                 (case count_request E ts (hf_window d) (hf_subnet_threshold d) subnet (hf_subnet_counters d) of
                    (fired, entry, m) \<Rightarrow>
                      (if fired then Some (hf_signal E d subnet (wc_count entry) ts ''subnet'') else None,
                       d\<lparr>hf_subnet_counters := m\<rparr>))
             | None \<Rightarrow> (None, d)
           else (None, d))
      in case by_subnet of
           (Some s, d) \<Rightarrow> (Some s, d)
         | (None, d) \<Rightarrow>
             if hf_ip_threshold d > 0 then
               case count_request E ts (hf_window d) (hf_ip_threshold d) ip (hf_ip_counters d) of
                 (fired, entry, m) \<Rightarrow>
                   (if fired then Some (hf_signal E d (ip_to_net (de_net E) ip) (wc_count entry) ts ''ip'') else None,
                    d\<lparr>hf_ip_counters := m\<rparr>)
             else (None, d))"

definition http_event :: "EventType \<Rightarrow> bool" where
  "http_event ty \<longleftrightarrow> ty = HttpRequest \<or> ty = Http4xx \<or> ty = Http5xx"

definition hf_process ::
    "det_env \<Rightarrow> HttpFloodDetector \<Rightarrow> NormalizedEvent \<Rightarrow> DetectionSignal option \<times> HttpFloodDetector" where
  "hf_process E d event =
     (if \<not> http_event (ev_event_type event) then (None, d)
      else if (case hm_get (ev_metadata event) ''path'' of Some path \<Rightarrow> is_ignored_path d path | None \<Rightarrow> False)
      then (None, d)
      else
        let ts = ev_timestamp event
        in hf_count E (hf_maybe_sweep E ts d) (ev_source_ip event) ts)"

section \<open>Login brute force\<close>

definition HTTP_LOGIN_SWEEP_EVERY :: u64 where
  "HTTP_LOGIN_SWEEP_EVERY = 4096"

definition DEFAULT_SUBNET_THRESHOLD :: u32 where "DEFAULT_SUBNET_THRESHOLD = 20"
definition DEFAULT_SUBNET_MIN_DISTINCT_IPS :: nat where "DEFAULT_SUBNET_MIN_DISTINCT_IPS = 5"

record HttpLoginBruteforceDetector =
  hl_paths :: "string list"
  hl_threshold :: u32
  hl_window :: duration
  hl_ban_duration :: duration
  hl_hits :: "(ip_addr, instant list) hmap"
  hl_subnet_v4_prefix :: u8
  hl_subnet_v6_prefix :: u8
  hl_subnet_threshold :: u32
  hl_subnet_min_distinct_ips :: nat
  hl_subnet_hits :: "(ip_net, (instant \<times> ip_addr) list) hmap"
  hl_events :: u64

definition default_login_paths :: "string list" where
  "default_login_paths = [''/wp-login.php'', ''/xmlrpc.php'']"

definition hl_with_config :: "string list \<Rightarrow> u32 \<Rightarrow> duration \<Rightarrow> duration \<Rightarrow> HttpLoginBruteforceDetector" where
  "hl_with_config paths threshold window ban_duration =
     \<lparr>hl_paths = paths, hl_threshold = threshold, hl_window = window, hl_ban_duration = ban_duration,
      hl_hits = hm_empty, hl_subnet_v4_prefix = 0, hl_subnet_v6_prefix = 0,
      hl_subnet_threshold = DEFAULT_SUBNET_THRESHOLD,
      hl_subnet_min_distinct_ips = DEFAULT_SUBNET_MIN_DISTINCT_IPS,
      hl_subnet_hits = hm_empty, hl_events = 0\<rparr>"

definition hl_new :: HttpLoginBruteforceDetector where
  "hl_new =
     \<lparr>hl_paths = default_login_paths, hl_threshold = 5, hl_window = secs 600, hl_ban_duration = secs 86400,
      hl_hits = hm_empty, hl_subnet_v4_prefix = 0, hl_subnet_v6_prefix = 0,
      hl_subnet_threshold = DEFAULT_SUBNET_THRESHOLD,
      hl_subnet_min_distinct_ips = DEFAULT_SUBNET_MIN_DISTINCT_IPS,
      hl_subnet_hits = hm_empty, hl_events = 0\<rparr>"

definition hl_with_subnet_aggregation ::
    "u8 \<Rightarrow> u8 \<Rightarrow> u32 \<Rightarrow> nat \<Rightarrow> HttpLoginBruteforceDetector \<Rightarrow> HttpLoginBruteforceDetector" where
  "hl_with_subnet_aggregation v4_prefix v6_prefix threshold min_distinct_ips d =
     d\<lparr>hl_subnet_v4_prefix := min v4_prefix 32, hl_subnet_v6_prefix := min v6_prefix 128,
       hl_subnet_threshold := threshold, hl_subnet_min_distinct_ips := max min_distinct_ips 1\<rparr>"

definition hl_maybe_sweep :: "det_env \<Rightarrow> instant \<Rightarrow> HttpLoginBruteforceDetector \<Rightarrow> HttpLoginBruteforceDetector" where
  "hl_maybe_sweep E now d =
     (let events = hl_events d;
          d = d\<lparr>hl_events := events + 1\<rparr>
      in if events mod HTTP_LOGIN_SWEEP_EVERY \<noteq> HTTP_LOGIN_SWEEP_EVERY - 1 then d
         else
           let cutoff = window_cutoff E (hl_window d) now
           in d\<lparr>hl_hits := hm_retain (\<lambda>_ q. q \<noteq> [] \<and> last q \<ge> cutoff) (hl_hits d),
                hl_subnet_hits := hm_retain (\<lambda>_ q. q \<noteq> [] \<and> fst (last q) \<ge> cutoff) (hl_subnet_hits d)\<rparr>)"

fun hl_prune :: "instant \<Rightarrow> nat \<Rightarrow> (instant \<times> ip_addr) list \<Rightarrow> (instant \<times> ip_addr) list" where
  "hl_prune cutoff cap [] = []"
| "hl_prune cutoff cap ((t, a) # deque) =
     (if t < cutoff \<or> length ((t, a) # deque) > cap then hl_prune cutoff cap deque else (t, a) # deque)"

definition hl_subnet_check ::
    "det_env \<Rightarrow> HttpLoginBruteforceDetector \<Rightarrow> ip_addr \<Rightarrow> instant \<Rightarrow> string
     \<Rightarrow> DetectionSignal option \<times> HttpLoginBruteforceDetector" where
  "hl_subnet_check E d ip now path =
     (if hl_subnet_threshold d = 0 then (None, d)
      else case subnet_of (de_net E) ip (hl_subnet_v4_prefix d) (hl_subnet_v6_prefix d) of
        None \<Rightarrow> (None, d)
      | Some subnet \<Rightarrow>
          (let cutoff = window_cutoff E (hl_window d) now;
               cap = unat (hl_subnet_threshold d) * 4 + 64;
               deque = hl_prune cutoff cap (hm_get_or [] (hl_subnet_hits d) subnet @ [(now, ip)]);
               count = length deque;
               kept = d\<lparr>hl_subnet_hits := hm_insert subnet deque (hl_subnet_hits d)\<rparr>
           in if count < unat (hl_subnet_threshold d) then (None, kept)
              else
                let distinct_ips = length (remdups (List.map snd deque))
                in if distinct_ips < hl_subnet_min_distinct_ips d then (None, kept)
                   else
                     let reason = ''HTTP login brute-force (subnet): '' @ show_nat count
                           @ '' POST requests to '' @ squote @ path @ squote @ '' from '' @ show_nat distinct_ips
                           @ '' addresses in '' @ de_show_net E subnet @ '' in '' @ de_show_duration E (hl_window d);
                         evidence = de_show_net E subnet @ '':http_login_bruteforce:subnet:'' @ show_nat count
                           @ '':'' @ show_int (minute_of now)
                     in (Some \<lparr>sg_source_ip = subnet, sg_severity = 180, sg_confidence = f32_09,
                           sg_reason = reason, sg_evidence_hash = de_blake3 E (str_bytes evidence),
                           sg_suggested_action = Ban (hl_ban_duration d),
                           sg_detector_name = ''http_login_bruteforce'', sg_timestamp = now\<rparr>,
                         d\<lparr>hl_subnet_hits := hm_insert subnet [] (hl_subnet_hits d)\<rparr>)))"

definition matches_login_path :: "HttpLoginBruteforceDetector \<Rightarrow> string \<Rightarrow> bool" where
  "matches_login_path d request_path = list_ex (\<lambda>login_path. starts_with request_path login_path) (hl_paths d)"

definition hl_evidence_hash :: "det_env \<Rightarrow> ip_addr \<Rightarrow> u32 \<Rightarrow> byte list" where
  "hl_evidence_hash E ip count =
     de_blake3 E (str_bytes (de_show_ip E ip @ '':http_login_bruteforce:'' @ show_nat (unat count)))"

text \<open>The part of \<open>process\<close> after the sweep: the subnet first, then the address.\<close>

definition hl_count ::
    "det_env \<Rightarrow> HttpLoginBruteforceDetector \<Rightarrow> ip_addr \<Rightarrow> instant \<Rightarrow> string
     \<Rightarrow> DetectionSignal option \<times> HttpLoginBruteforceDetector" where
  "hl_count E d ip now request_path =
     (case hl_subnet_check E d ip now request_path of
        (Some signal, d) \<Rightarrow> (Some signal, d)
      | (None, d) \<Rightarrow>
          (let deque = prune_window E (hl_window d) now (hm_get_or [] (hl_hits d) ip @ [now]);
               count = of_nat (length deque) :: u32;
               d = d\<lparr>hl_hits := hm_insert ip deque (hl_hits d)\<rparr>
           in if count < hl_threshold d then (None, d)
              else
                let reason = ''HTTP login brute-force: '' @ show_nat (unat count) @ '' POST requests to '' @ squote
                      @ request_path @ squote @ '' from '' @ de_show_ip E ip @ '' in '' @ de_show_duration E (hl_window d)
                in (Some \<lparr>sg_source_ip = ip_to_net (de_net E) ip, sg_severity = 180, sg_confidence = f32_09,
                      sg_reason = reason, sg_evidence_hash = hl_evidence_hash E ip count,
                      sg_suggested_action = Ban (hl_ban_duration d),
                      sg_detector_name = ''http_login_bruteforce'', sg_timestamp = now\<rparr>, d)))"

definition hl_process ::
    "det_env \<Rightarrow> HttpLoginBruteforceDetector \<Rightarrow> NormalizedEvent
     \<Rightarrow> DetectionSignal option \<times> HttpLoginBruteforceDetector" where
  "hl_process E d event =
     (if \<not> http_event (ev_event_type event) then (None, d)
      else case hm_get (ev_metadata event) ''method'' of
        None \<Rightarrow> (None, d)
      | Some meth \<Rightarrow>
          if \<not> eq_ignore_ascii_case meth ''POST'' then (None, d)
          else case hm_get (ev_metadata event) ''path'' of
            None \<Rightarrow> (None, d)
          | Some request_path \<Rightarrow>
              if \<not> matches_login_path d request_path then (None, d)
              else
                let ip = ev_source_ip event; now = ev_timestamp event
                in hl_count E (hl_maybe_sweep E now d) ip now request_path)"

section \<open>Honeypot paths\<close>

record HoneypotDetector =
  hp_paths :: "string list"
  hp_ban_duration :: "duration option"
  hp_severity :: u8

definition hp_new :: HoneypotDetector where
  "hp_new = \<lparr>hp_paths = [''/.git/config'', ''/.aws/credentials'', ''/backup.sql'', ''/debug/vars'',
       ''/server-status'', ''/actuator/env''],
     hp_ban_duration = None, hp_severity = 250\<rparr>"

definition hp_with_paths :: "string list \<Rightarrow> HoneypotDetector" where
  "hp_with_paths paths = \<lparr>hp_paths = paths, hp_ban_duration = None, hp_severity = 250\<rparr>"

definition hp_with_config :: "string list \<Rightarrow> duration option \<Rightarrow> u8 \<Rightarrow> HoneypotDetector" where
  "hp_with_config paths ban_duration severity =
     \<lparr>hp_paths = paths, hp_ban_duration = ban_duration, hp_severity = max severity 250\<rparr>"

fun hp_scan :: "det_env \<Rightarrow> HoneypotDetector \<Rightarrow> NormalizedEvent \<Rightarrow> string \<Rightarrow> string list \<Rightarrow> DetectionSignal option" where
  "hp_scan E d event path [] = None"
| "hp_scan E d event path (honeypot # ps) =
     (if starts_with path honeypot then
        let evidence = de_show_ip E (ev_source_ip event) @ '':honeypot:'' @ path
        in Some \<lparr>sg_source_ip = ip_to_net (de_net E) (ev_source_ip event), sg_severity = hp_severity d,
             sg_confidence = 1, sg_reason = ''Honeypot path accessed: '' @ honeypot,
             sg_evidence_hash = de_blake3 E (str_bytes evidence), sg_suggested_action = Escalate,
             sg_detector_name = ''honeypot'', sg_timestamp = ev_timestamp event\<rparr>
      else hp_scan E d event path ps)"

definition hp_process :: "det_env \<Rightarrow> HoneypotDetector \<Rightarrow> NormalizedEvent \<Rightarrow> DetectionSignal option" where
  "hp_process E d event =
     (if ev_event_type event = HttpRequest \<or> ev_event_type event = Http4xx then
        case hm_get (ev_metadata event) ''path'' of
          None \<Rightarrow> None
        | Some path \<Rightarrow> hp_scan E d event path (hp_paths d)
      else None)"

section \<open>Scanner user agents\<close>

definition default_scanner_signatures :: "string list" where
  "default_scanner_signatures =
     [''nikto'', ''sqlmap'', ''nuclei'', ''nessus'', ''openvas'', ''w3af'', ''skipfish'', ''wpscan'',
      ''dirbuster'', ''gobuster'', ''masscan'', ''zgrab'', ''wp2shell'', ''cve-20'', ''l9scan'', ''l9explore'',
      ''infrawatch'', ''pbx-scanner'', ''censysinspect'', ''odin-scanner'', ''modatscanner'', ''jndi:'',
      ''/etc/passwd'', ''win.ini'', ''boot.ini'', ''() {'', ''sleep('', ''<script'']"

record ScannerFingerprintDetector =
  sf_scanners :: "string list"
  sf_scanners_lc :: "string list"
  sf_ban_duration :: duration
  sf_ipv6_prefix :: u8

definition sf_with_config :: "det_env \<Rightarrow> string list \<Rightarrow> duration \<Rightarrow> ScannerFingerprintDetector" where
  "sf_with_config E scanners ban_duration =
     (let scanners = filter (\<lambda>s. de_trim E s \<noteq> []) scanners
      in \<lparr>sf_scanners = scanners, sf_scanners_lc = List.map (de_to_lowercase E) scanners,
          sf_ban_duration = ban_duration, sf_ipv6_prefix = DEFAULT_IPV6_PREFIX\<rparr>)"

definition sf_new :: "det_env \<Rightarrow> ScannerFingerprintDetector" where
  "sf_new E = sf_with_config E default_scanner_signatures (secs 259200)"

definition sf_with_ipv6_prefix :: "u8 \<Rightarrow> ScannerFingerprintDetector \<Rightarrow> ScannerFingerprintDetector" where
  "sf_with_ipv6_prefix prefix d = d\<lparr>sf_ipv6_prefix := prefix\<rparr>"

definition sf_evidence_hash :: "det_env \<Rightarrow> ip_addr \<Rightarrow> string \<Rightarrow> byte list" where
  "sf_evidence_hash E ip ua = de_blake3 E (str_bytes (de_show_ip E ip @ '':scanner_fingerprint:'' @ ua))"

definition matches_scanner :: "det_env \<Rightarrow> ScannerFingerprintDetector \<Rightarrow> string \<Rightarrow> string option" where
  "matches_scanner E d user_agent =
     (let ua_lower = de_to_lowercase E user_agent
      in map_option (\<lambda>i. sf_scanners d ! i) (position (\<lambda>sig. str_contains ua_lower sig) (sf_scanners_lc d)))"

definition sf_process :: "det_env \<Rightarrow> ScannerFingerprintDetector \<Rightarrow> NormalizedEvent \<Rightarrow> DetectionSignal option" where
  "sf_process E d event =
     (if \<not> http_event (ev_event_type event) then None
      else case hm_get (ev_metadata event) ''user_agent'' of
        None \<Rightarrow> None
      | Some user_agent \<Rightarrow>
          (case matches_scanner E d user_agent of
             None \<Rightarrow> None
           | Some matched \<Rightarrow>
               let ip = ev_source_ip event;
                   reason = ''Scanner fingerprint: user-agent matches '' @ squote @ matched @ squote
                     @ '' from '' @ de_show_ip E ip
               in Some \<lparr>sg_source_ip = source_key (de_net E) ip (sf_ipv6_prefix d), sg_severity = 200,
                    sg_confidence = f32_085, sg_reason = reason,
                    sg_evidence_hash = sf_evidence_hash E ip user_agent,
                    sg_suggested_action = Ban (sf_ban_duration d),
                    sg_detector_name = ''scanner_fingerprint'', sg_timestamp = ev_timestamp event\<rparr>))"

section \<open>Sweeping is invisible\<close>

text \<open>The detectors without their sweeps, as reference.\<close>

definition hf_process_unswept ::
    "det_env \<Rightarrow> HttpFloodDetector \<Rightarrow> NormalizedEvent \<Rightarrow> DetectionSignal option \<times> HttpFloodDetector" where
  "hf_process_unswept E d event =
     (if \<not> http_event (ev_event_type event)
        \<or> (case hm_get (ev_metadata event) ''path'' of Some path \<Rightarrow> is_ignored_path d path | None \<Rightarrow> False)
      then (None, d) else hf_count E d (ev_source_ip event) (ev_timestamp event))"

definition hl_process_unswept ::
    "det_env \<Rightarrow> HttpLoginBruteforceDetector \<Rightarrow> NormalizedEvent
     \<Rightarrow> DetectionSignal option \<times> HttpLoginBruteforceDetector" where
  "hl_process_unswept E d event =
     (case (hm_get (ev_metadata event) ''method'', hm_get (ev_metadata event) ''path'') of
        (Some meth, Some path) \<Rightarrow>
          if http_event (ev_event_type event) \<and> eq_ignore_ascii_case meth ''POST'' \<and> matches_login_path d path
          then hl_count E d (ev_source_ip event) (ev_timestamp event) path else (None, d)
      | _ \<Rightarrow> (None, d))"

definition hf_rel :: "instant \<Rightarrow> HttpFloodDetector \<Rightarrow> HttpFloodDetector \<Rightarrow> bool" where
  "hf_rel T d d' \<longleftrightarrow>
     hf_window d' = hf_window d \<and> hf_ip_threshold d' = hf_ip_threshold d
     \<and> hf_subnet_threshold d' = hf_subnet_threshold d \<and> hf_ban_duration d' = hf_ban_duration d
     \<and> hf_ignore_extensions d' = hf_ignore_extensions d
     \<and> hm_wf (hf_ip_counters d) \<and> hm_wf (hf_subnet_counters d)
     \<and> lost (\<lambda>c. int (hf_window d) \<le> T - window_start c) (hf_ip_counters d) (hf_ip_counters d')
     \<and> lost (\<lambda>c. int (hf_window d) \<le> T - window_start c) (hf_subnet_counters d) (hf_subnet_counters d')"

lemma hf_rel_later: "hf_rel T d d' \<Longrightarrow> T \<le> ts \<Longrightarrow> hf_rel ts d d'"
  by (auto simp: hf_rel_def elim!: lost_mono)

context det_env_spec
begin

lemma count_request_lost:
  assumes "w \<le> CHRONO_MAX" "lost (\<lambda>c. int w \<le> ts - window_start c) m m'"
  shows "case count_request E ts w n k m of (f, c, m1) \<Rightarrow>
    case count_request E ts w n k m' of (f', c', m1') \<Rightarrow> f' = f \<and> c' = c
      \<and> lost (\<lambda>c. int w \<le> ts - window_start c) m1 m1' \<and> (hm_wf m \<longrightarrow> hm_wf m1)"
proof -
  let ?z = "\<lparr>window_start = ts, wc_count = 0\<rparr>"
  have "bump E ts w n (hm_get_or ?z m k) = bump E ts w n (hm_get_or ?z m' k)"
    using assms(2)
  proof (rule lostD [where k = k])
    fix c assume "hm_get m k = None" "hm_get m' k = Some c" "int w \<le> ts - window_start c"
    then show ?thesis using assms(1) by (simp add: bump_def hm_get_or_def from_std Let_def)
  qed (simp add: hm_get_or_def)
  then show ?thesis using assms(2) by (auto simp: count_request_def lost_insert split: prod.splits)
qed

lemma hf_sweep_rel:
  assumes "hf_rel T d d'" "T \<le> ts" "hf_window d * 4 \<le> CHRONO_MAX"
  shows "hf_rel ts (hf_maybe_sweep E ts d) d'"
proof -
  have st: "hf_stale E (d\<lparr>hf_events_since_sweep := n\<rparr>) = int (hf_window d * 4)" for n
    using assms(3) by (simp add: hf_stale_def from_std)
  have old: "int (hf_window d) \<le> ts - window_start c" if "\<not> ts - window_start c < int (hf_window d * 4)" for c
    using that by simp
  show ?thesis
    using hf_rel_later [OF assms(1,2)] old
    by (auto simp: hf_rel_def hf_maybe_sweep_def Let_def st intro!: lost_retain)
qed

lemma hf_count_rel:
  assumes "hf_rel ts d d'" "hf_window d \<le> CHRONO_MAX"
  shows "fst (hf_count E d ip ts) = fst (hf_count E d' ip ts) \<and> hf_rel ts (snd (hf_count E d ip ts)) (snd (hf_count E d' ip ts))"
proof -
  have ps: "hf_window d' = hf_window d" "hf_ip_threshold d' = hf_ip_threshold d"
     "hf_subnet_threshold d' = hf_subnet_threshold d" "hf_ban_duration d' = hf_ban_duration d"
     and l: "lost (\<lambda>c. int (hf_window d) \<le> ts - window_start c) (hf_ip_counters d) (hf_ip_counters d')"
     "lost (\<lambda>c. int (hf_window d) \<le> ts - window_start c) (hf_subnet_counters d) (hf_subnet_counters d')"
    using assms(1) by (simp_all add: hf_rel_def)
  have sig: "hf_signal E (e\<lparr>hf_subnet_counters := m\<rparr>) = hf_signal E e" "hf_signal E d' = hf_signal E d" for e m
    by (simp_all add: hf_signal_def fun_eq_iff ps Let_def)
  obtain f1 e1 m1 m1' where c1: "count_request E ts (hf_window d) (hf_ip_threshold d) ip (hf_ip_counters d) = (f1, e1, m1)"
      "count_request E ts (hf_window d) (hf_ip_threshold d) ip (hf_ip_counters d') = (f1, e1, m1')"
      "lost (\<lambda>c. int (hf_window d) \<le> ts - window_start c) m1 m1'" "hm_wf (hf_ip_counters d) \<longrightarrow> hm_wf m1"
    using count_request_lost [OF assms(2) l(1), of "hf_ip_threshold d" ip] by (auto split: prod.splits)
  have c2: "\<exists>f e m m'. count_request E ts (hf_window d) (hf_subnet_threshold d) k (hf_subnet_counters d) = (f, e, m)
      \<and> count_request E ts (hf_window d) (hf_subnet_threshold d) k (hf_subnet_counters d') = (f, e, m')
      \<and> lost (\<lambda>c. int (hf_window d) \<le> ts - window_start c) m m' \<and> (hm_wf (hf_subnet_counters d) \<longrightarrow> hm_wf m)" for k
    using count_request_lost [OF assms(2) l(2), of "hf_subnet_threshold d" k] by (auto split: prod.splits)
  show ?thesis
  proof (cases "ip_to_subnet (de_net E) ip")
    case None
    then show ?thesis using assms(1) c1 by (simp add: hf_count_def Let_def ps sig hf_rel_def)
  next
    case (Some subnet)
    with c2 [of subnet] obtain f e m m' where
      "count_request E ts (hf_window d) (hf_subnet_threshold d) subnet (hf_subnet_counters d) = (f, e, m)"
      "count_request E ts (hf_window d) (hf_subnet_threshold d) subnet (hf_subnet_counters d') = (f, e, m')"
      "lost (\<lambda>c. int (hf_window d) \<le> ts - window_start c) m m'" "hm_wf (hf_subnet_counters d) \<longrightarrow> hm_wf m"
      by blast
    then show ?thesis using assms(1) c1 Some by (simp add: hf_count_def Let_def ps sig hf_rel_def)
  qed
qed

end

lemma prune_front_suffix: "\<exists>l. q = l @ prune_front c q"
  by (induction q) (auto intro: exI [of _ "[]"], metis append_Cons)

lemma hl_prune_suffix: "\<exists>l. q = l @ hl_prune c cap q"
proof (induction q)
  case (Cons p q)
  then obtain l where "q = l @ hl_prune c cap q" by blast
  then have "p # q = (p # l) @ hl_prune c cap q" by simp
  then show ?case by (cases p) (metis append_Nil hl_prune.simps(2))
qed simp

lemma prune_front_old: "\<forall>t \<in> set q. t < c \<Longrightarrow> prune_front c (q @ r) = prune_front c r"
  by (induction q) auto

lemma hl_prune_old: "\<forall>p \<in> set q. fst p < c \<Longrightarrow> hl_prune c cap (q @ r) = hl_prune c cap r"
  by (induction q) auto

definition in_order :: "instant \<Rightarrow> instant list \<Rightarrow> bool" where
  "in_order T q \<longleftrightarrow> sorted q \<and> (\<forall>t \<in> set q. t \<le> T)"

lemma in_order_later: "in_order T q \<Longrightarrow> T \<le> now \<Longrightarrow> in_order now q"
  by (force simp: in_order_def)

lemma in_order_snoc: "in_order now q \<Longrightarrow> in_order now (q @ [now])"
  by (force simp: in_order_def sorted_append)

lemma in_order_suffix: "in_order T q \<Longrightarrow> \<exists>l. q = l @ r \<Longrightarrow> in_order T r"
  by (auto simp: in_order_def sorted_append)

lemma in_order_last: "in_order T q \<Longrightarrow> \<not> (q \<noteq> [] \<and> c \<le> last q) \<Longrightarrow> \<forall>t \<in> set q. t < c"
proof (cases q rule: rev_cases)
  case (snoc l x)
  moreover assume "in_order T q" "\<not> (q \<noteq> [] \<and> c \<le> last q)"
  ultimately show ?thesis by (force simp: in_order_def sorted_append)
qed simp

definition hl_rel :: "instant \<Rightarrow> HttpLoginBruteforceDetector \<Rightarrow> HttpLoginBruteforceDetector \<Rightarrow> bool" where
  "hl_rel T d d' \<longleftrightarrow>
     hl_paths d' = hl_paths d \<and> hl_threshold d' = hl_threshold d \<and> hl_window d' = hl_window d
     \<and> hl_ban_duration d' = hl_ban_duration d \<and> hl_subnet_v4_prefix d' = hl_subnet_v4_prefix d
     \<and> hl_subnet_v6_prefix d' = hl_subnet_v6_prefix d \<and> hl_subnet_threshold d' = hl_subnet_threshold d
     \<and> hl_subnet_min_distinct_ips d' = hl_subnet_min_distinct_ips d
     \<and> hm_wf (hl_hits d) \<and> hm_wf (hl_subnet_hits d)
     \<and> lost (\<lambda>q. \<forall>t \<in> set q. t < T - int (hl_window d)) (hl_hits d) (hl_hits d')
     \<and> lost (\<lambda>q. \<forall>p \<in> set q. fst p < T - int (hl_window d)) (hl_subnet_hits d) (hl_subnet_hits d')
     \<and> (\<forall>k. in_order T (hm_get_or [] (hl_hits d') k))
     \<and> (\<forall>k. in_order T (List.map fst (hm_get_or [] (hl_subnet_hits d') k)))"

lemma hl_rel_later: "hl_rel T d d' \<Longrightarrow> T \<le> ts \<Longrightarrow> hl_rel ts d d'"
  unfolding hl_rel_def by (auto elim!: lost_mono in_order_later)

lemma lost_Some: "lost P m m' \<Longrightarrow> hm_get m k = Some v \<Longrightarrow> hm_get_or d m' k = v"
  by (erule lostD [where k = k]) (auto simp: hm_get_or_def)

context det_env_spec
begin

lemma hl_sweep_rel:
  assumes rel: "hl_rel T d d'" "T \<le> ts" and w: "hl_window d \<le> CHRONO_MAX"
  shows "hl_rel ts (hl_maybe_sweep E ts d) d'"
proof -
  let ?c = "ts - int (hl_window d)"
  have r: "hl_rel ts d d'" by (rule hl_rel_later [OF rel])
  have l: "lost (\<lambda>q. \<forall>t \<in> set q. t < ?c) (hl_hits d) (hl_hits d')"
    "lost (\<lambda>q. \<forall>p \<in> set q. fst p < ?c) (hl_subnet_hits d) (hl_subnet_hits d')"
    and o: "in_order ts (hm_get_or [] (hl_hits d') k)" "in_order ts (List.map fst (hm_get_or [] (hl_subnet_hits d') n))" for k n
    using r by (simp_all add: hl_rel_def)
  have old: "\<forall>t \<in> set q. t < ?c" if "hm_get (hl_hits d) k = Some q" "\<not> (q \<noteq> [] \<and> ?c \<le> last q)" for k q
    using in_order_last [OF o(1) [of k], of ?c] that lost_Some [OF l(1) that(1)] by simp
  have old_subnet: "\<forall>p \<in> set q. fst p < ?c"
    if "hm_get (hl_subnet_hits d) n = Some q" "\<not> (q \<noteq> [] \<and> ?c \<le> fst (last q))" for n q
    using in_order_last [OF o(2) [of n], of ?c] that lost_Some [OF l(2) that(1)] by (cases "q = []") (simp_all add: last_map)
  have "lost (\<lambda>q. \<forall>t \<in> set q. t < ?c) (hm_retain (\<lambda>_ q. q \<noteq> [] \<and> ?c \<le> last q) (hl_hits d)) (hl_hits d')"
    using r old by (intro lost_retain l) (simp_all add: hl_rel_def)
  moreover have "lost (\<lambda>q. \<forall>p \<in> set q. fst p < ?c)
      (hm_retain (\<lambda>_ q. q \<noteq> [] \<and> ?c \<le> fst (last q)) (hl_subnet_hits d)) (hl_subnet_hits d')"
    using r old_subnet by (intro lost_retain l) (simp_all add: hl_rel_def)
  ultimately show ?thesis
    using r by (simp add: hl_rel_def hl_maybe_sweep_def Let_def cutoff [OF w])
qed

lemma hl_subnet_check_rel:
  assumes r: "hl_rel ts d d'" and w: "hl_window d \<le> CHRONO_MAX"
  shows "fst (hl_subnet_check E d ip ts path) = fst (hl_subnet_check E d' ip ts path)
    \<and> hl_rel ts (snd (hl_subnet_check E d ip ts path)) (snd (hl_subnet_check E d' ip ts path))
    \<and> hl_window (snd (hl_subnet_check E d ip ts path)) = hl_window d"
proof (cases "subnet_of (de_net E) ip (hl_subnet_v4_prefix d) (hl_subnet_v6_prefix d)")
  case None
  then show ?thesis using r by (simp add: hl_subnet_check_def hl_rel_def)
next
  case (Some subnet)
  let ?c = "ts - int (hl_window d)" and ?q = "hm_get_or [] (hl_subnet_hits d) subnet"
    and ?q' = "hm_get_or [] (hl_subnet_hits d') subnet" and ?cap = "unat (hl_subnet_threshold d) * 4 + 64"
  have l: "lost (\<lambda>q. \<forall>p \<in> set q. fst p < ?c) (hl_subnet_hits d) (hl_subnet_hits d')"
    using r by (simp add: hl_rel_def)
  then have eq: "hl_prune ?c ?cap (?q @ [(ts, ip)]) = hl_prune ?c ?cap (?q' @ [(ts, ip)])"
    by (rule lostD [where k = subnet]) (auto simp: hm_get_or_def hl_prune_old)
  have "in_order ts (List.map fst (?q' @ [(ts, ip)]))"
    using r in_order_snoc by (simp add: hl_rel_def)
  then have "in_order ts (List.map fst (hl_prune ?c ?cap (?q' @ [(ts, ip)])))"
    by (rule in_order_suffix) (metis hl_prune_suffix map_append)
  moreover have "in_order ts []" by (simp add: in_order_def)
  ultimately show ?thesis
    using r Some eq lost_insert [OF l]
    by (simp add: hl_subnet_check_def hl_rel_def Let_def cutoff [OF w])
qed

lemma hl_count_rel:
  assumes r: "hl_rel ts d d'" and w: "hl_window d \<le> CHRONO_MAX"
  shows "fst (hl_count E d ip ts path) = fst (hl_count E d' ip ts path)
    \<and> hl_rel ts (snd (hl_count E d ip ts path)) (snd (hl_count E d' ip ts path))"
proof -
  obtain s e e' where sub: "hl_subnet_check E d ip ts path = (s, e)" "hl_subnet_check E d' ip ts path = (s, e')"
      "hl_rel ts e e'" "hl_window e = hl_window d"
    using hl_subnet_check_rel [OF assms, of ip path] by (metis prod.collapse)
  let ?c = "ts - int (hl_window e)" and ?q = "hm_get_or [] (hl_hits e) ip" and ?q' = "hm_get_or [] (hl_hits e') ip"
  have l: "lost (\<lambda>q. \<forall>t \<in> set q. t < ?c) (hl_hits e) (hl_hits e')" using sub(3) by (simp add: hl_rel_def)
  then have eq: "prune_front ?c (?q @ [ts]) = prune_front ?c (?q' @ [ts])"
    by (rule lostD [where k = ip]) (auto simp: hm_get_or_def prune_front_old)
  have "in_order ts (?q' @ [ts])" using sub(3) in_order_snoc by (simp add: hl_rel_def)
  then have "in_order ts (prune_front ?c (?q' @ [ts]))" by (rule in_order_suffix) (rule prune_front_suffix)
  then show ?thesis
    using sub eq lost_insert [OF l]
    by (cases s) (simp_all add: hl_count_def hl_rel_def Let_def prune_window_def cutoff [OF w])
qed

end

lemma hf_process_window: "hf_window (snd (hf_process E d e)) = hf_window d"
  by (auto simp: hf_process_def hf_count_def hf_maybe_sweep_def Let_def count_request_def
      split: option.splits prod.splits)

lemma hl_process_window: "hl_window (snd (hl_process E d e)) = hl_window d"
  by (auto simp: hl_process_def hl_count_def hl_subnet_check_def hl_maybe_sweep_def Let_def
      split: option.splits prod.splits if_splits)

context det_env_spec
begin

lemma hf_step_rel:
  assumes "hf_rel T d d'" "T \<le> ev_timestamp e" "hf_window d * 4 \<le> CHRONO_MAX"
  shows "fst (hf_process E d e) = fst (hf_process_unswept E d' e)
    \<and> hf_rel (ev_timestamp e) (snd (hf_process E d e)) (snd (hf_process_unswept E d' e))"
proof -
  let ?ts = "ev_timestamp e"
  have "hf_rel ?ts (hf_maybe_sweep E ?ts d) d'" by (rule hf_sweep_rel [OF assms])
  moreover have "hf_window (hf_maybe_sweep E ?ts d) \<le> CHRONO_MAX"
    using assms(3) by (simp add: hf_maybe_sweep_def Let_def)
  moreover have ign: "is_ignored_path d' p = is_ignored_path d p" for p
    using assms(1) by (simp add: is_ignored_path_def hf_rel_def)
  ultimately show ?thesis
    using hf_rel_later [OF assms(1,2)] hf_count_rel [of ?ts "hf_maybe_sweep E ?ts d" d' "ev_source_ip e"]
    by (simp add: hf_process_def hf_process_unswept_def Let_def ign split: option.splits)
qed

lemma hl_step_rel:
  assumes "hl_rel T d d'" "T \<le> ev_timestamp e" "hl_window d \<le> CHRONO_MAX"
  shows "fst (hl_process E d e) = fst (hl_process_unswept E d' e)
    \<and> hl_rel (ev_timestamp e) (snd (hl_process E d e)) (snd (hl_process_unswept E d' e))"
proof -
  let ?ts = "ev_timestamp e"
  have "hl_rel ?ts (hl_maybe_sweep E ?ts d) d'" by (rule hl_sweep_rel [OF assms])
  moreover have "hl_window (hl_maybe_sweep E ?ts d) \<le> CHRONO_MAX"
    using assms(3) by (simp add: hl_maybe_sweep_def Let_def)
  moreover have path: "matches_login_path d' p = matches_login_path d p" for p
    using assms(1) by (simp add: matches_login_path_def hl_rel_def)
  ultimately show ?thesis
    using hl_rel_later [OF assms(1,2)] hl_count_rel [of ?ts "hl_maybe_sweep E ?ts d" d' "ev_source_ip e"]
    by (simp add: hl_process_def hl_process_unswept_def Let_def path split: option.splits)
qed

lemma hf_signals_unswept:
  assumes "hf_window d * 4 \<le> CHRONO_MAX" "hf_ip_counters d = []" "hf_subnet_counters d = []"
    and "sorted (List.map ev_timestamp es)"
  shows "signals (hf_process E) d es = signals (hf_process_unswept E) d es"
proof (cases es)
  case (Cons e es')
  show ?thesis
  proof (rule signals_simulation [where R = "\<lambda>T d d'. hf_rel T d d' \<and> hf_window d * 4 \<le> CHRONO_MAX"
        and T = "ev_timestamp e" and time_of = ev_timestamp])
    fix T s s' and e :: NormalizedEvent
    assume "hf_rel T s s' \<and> hf_window s * 4 \<le> CHRONO_MAX" "T \<le> ev_timestamp e"
    then show "fst (hf_process E s e) = fst (hf_process_unswept E s' e)
      \<and> hf_rel (ev_timestamp e) (snd (hf_process E s e)) (snd (hf_process_unswept E s' e))
      \<and> hf_window (snd (hf_process E s e)) * 4 \<le> CHRONO_MAX"
      using hf_step_rel [of T s s' e] hf_process_window [of E s e] by simp
  next
    show "hf_rel (ev_timestamp e) d d \<and> hf_window d * 4 \<le> CHRONO_MAX"
      using assms by (simp_all add: hf_rel_def)
  qed (use assms(4) Cons in simp)
qed simp

lemma hl_signals_unswept:
  assumes "hl_window d \<le> CHRONO_MAX" "hl_hits d = []" "hl_subnet_hits d = []"
    and "sorted (List.map ev_timestamp es)"
  shows "signals (hl_process E) d es = signals (hl_process_unswept E) d es"
proof (cases es)
  case (Cons e es')
  show ?thesis
  proof (rule signals_simulation [where R = "\<lambda>T d d'. hl_rel T d d' \<and> hl_window d \<le> CHRONO_MAX"
        and T = "ev_timestamp e" and time_of = ev_timestamp])
    fix T s s' and e :: NormalizedEvent
    assume "hl_rel T s s' \<and> hl_window s \<le> CHRONO_MAX" "T \<le> ev_timestamp e"
    then show "fst (hl_process E s e) = fst (hl_process_unswept E s' e)
      \<and> hl_rel (ev_timestamp e) (snd (hl_process E s e)) (snd (hl_process_unswept E s' e))
      \<and> hl_window (snd (hl_process E s e)) \<le> CHRONO_MAX"
      using hl_step_rel [of T s s' e] hl_process_window [of E s e] by simp
  next
    show "hl_rel (ev_timestamp e) d d \<and> hl_window d \<le> CHRONO_MAX"
      using assms by (simp_all add: hl_rel_def hm_get_or_def in_order_def)
  qed (use assms(4) Cons in simp)
qed simp

end

text \<open>
  C15: sweeping is invisible. The flood and login detectors drop old entries of their
  maps every few thousand events to bound their memory. On every stream of events in
  order of time they report exactly what they would report without these sweeps.
\<close>

theorem sweeps_invisible:
  assumes env: "det_env_spec E" and ord: "sorted (List.map ev_timestamp es)"
    and hf: "hf_window df * 4 \<le> CHRONO_MAX" "hf_ip_counters df = []" "hf_subnet_counters df = []"
    and hl: "hl_window dl \<le> CHRONO_MAX" "hl_hits dl = []" "hl_subnet_hits dl = []"
  shows "signals (hf_process E) df es = signals (hf_process_unswept E) df es
    \<and> signals (hl_process E) dl es = signals (hl_process_unswept E) dl es"
  using det_env_spec.hf_signals_unswept [OF env hf ord] det_env_spec.hl_signals_unswept [OF env hl ord]
  by blast

definition ex_post :: "instant \<Rightarrow> NormalizedEvent" where
  "ex_post t = \<lparr>ev_timestamp = t, ev_source_ip = IpV4 0xCB007105, ev_event_type = HttpRequest,
     ev_source_name = ''nginx'', ev_raw_line = [],
     ev_metadata = [(''method'', ''post''), (''path'', ''/wp-login.php'')]\<rparr>"

text \<open>At the event count of the last event before a sweep, the next event sweeps.\<close>

theorem sweeps_invisible_witness:
  "let df = (hf_with_config 60 2 0 100 [''.css''])\<lparr>hf_events_since_sweep := 8190\<rparr>;
       dl = (hl_with_config [''/wp-login.php''] 2 60 100)\<lparr>hl_events := 4094\<rparr>;
       es = [ex_post 0, ex_post 30, ex_post 100]
   in signals (hf_process ex_env) df es = signals (hf_process_unswept ex_env) df es
     \<and> signals (hl_process ex_env) dl es = signals (hl_process_unswept ex_env) dl es"
  unfolding Let_def
  by (rule sweeps_invisible [OF exenv.det_env_spec_axioms])
    (simp_all add: ex_post_def hf_with_config_def hl_with_config_def CHRONO_MAX_def)

section \<open>Signatures\<close>

lemma position_None: "position P xs = None \<longleftrightarrow> (\<forall>x \<in> set xs. \<not> P x)"
  by (induction xs) auto

lemma hp_scan_Some: "(\<exists>s. hp_scan E d e path ps = Some s) \<longleftrightarrow> (\<exists>h. h \<in> set ps \<and> (\<exists>rest. path = h @ rest))"
  by (induction ps) (auto simp: Let_def starts_with_iff)

lemma hp_scan_severity: "hp_scan E d e path ps = Some s \<Longrightarrow> sg_severity s = hp_severity d \<and> sg_suggested_action s = Escalate"
  by (induction ps) (auto simp: Let_def split: if_splits)

lemma matches_scanner_iff:
  "matches_scanner E (sf_with_config E scanners t) ua \<noteq> None \<longleftrightarrow>
   (\<exists>sig \<in> set scanners. de_trim E sig \<noteq> [] \<and> str_contains (de_to_lowercase E ua) (de_to_lowercase E sig))"
  by (auto simp: matches_scanner_def sf_with_config_def Let_def position_None)

text \<open>
  C29: signature detectors are exact. The honeypot detector reports an HTTP request
  exactly when its path starts with a configured one, always with a severity of at
  least 250 and the action to escalate. The scanner detector reports an HTTP event
  exactly when the lower-cased user agent contains a configured signature that is not
  blank: a blank entry, which is part of every user agent, never matches.
\<close>

theorem signature_detectors_exact:
  "(hp_process E (hp_with_config paths t sev) e \<noteq> None \<longleftrightarrow>
     ev_event_type e \<in> {HttpRequest, Http4xx} \<and>
     (\<exists>path h. hm_get (ev_metadata e) ''path'' = Some path \<and> h \<in> set paths \<and> (\<exists>rest. path = h @ rest)))
   \<and> (case hp_process E (hp_with_config paths t sev) e of
        Some s \<Rightarrow> 250 \<le> sg_severity s \<and> sg_suggested_action s = Escalate | None \<Rightarrow> True)
   \<and> (sf_process E (sf_with_config E scanners ban) e \<noteq> None \<longleftrightarrow>
       ev_event_type e \<in> {HttpRequest, Http4xx, Http5xx} \<and>
       (\<exists>ua sig l r. hm_get (ev_metadata e) ''user_agent'' = Some ua \<and> sig \<in> set scanners
         \<and> de_trim E sig \<noteq> [] \<and> de_to_lowercase E ua = l @ de_to_lowercase E sig @ r))"
proof (intro conjI)
  show "hp_process E (hp_with_config paths t sev) e \<noteq> None \<longleftrightarrow>
     ev_event_type e \<in> {HttpRequest, Http4xx} \<and>
     (\<exists>path h. hm_get (ev_metadata e) ''path'' = Some path \<and> h \<in> set paths \<and> (\<exists>rest. path = h @ rest))"
    by (auto simp: hp_process_def hp_with_config_def hp_scan_Some split: option.splits)
  show "case hp_process E (hp_with_config paths t sev) e of
        Some s \<Rightarrow> 250 \<le> sg_severity s \<and> sg_suggested_action s = Escalate | None \<Rightarrow> True"
    by (auto simp: hp_process_def hp_with_config_def dest!: hp_scan_severity split: option.splits if_splits)
  show "sf_process E (sf_with_config E scanners ban) e \<noteq> None \<longleftrightarrow>
       ev_event_type e \<in> {HttpRequest, Http4xx, Http5xx} \<and>
       (\<exists>ua sig l r. hm_get (ev_metadata e) ''user_agent'' = Some ua \<and> sig \<in> set scanners
         \<and> de_trim E sig \<noteq> [] \<and> de_to_lowercase E ua = l @ de_to_lowercase E sig @ r)"
  proof (cases "hm_get (ev_metadata e) ''user_agent''")
    case (Some ua)
    have "sf_process E (sf_with_config E scanners ban) e \<noteq> None \<longleftrightarrow>
        http_event (ev_event_type e) \<and> matches_scanner E (sf_with_config E scanners ban) ua \<noteq> None"
      using Some by (simp add: sf_process_def Let_def split: option.split)
    then show ?thesis using Some unfolding matches_scanner_iff str_contains_iff
      by (simp add: http_event_def) blast
  qed (simp add: sf_process_def)
qed

end
