(* ===== verification/Port_Scan.thy ===== *)
theory Port_Scan
  imports Detector_Base
begin

text \<open>
  The port-scan detector \<open>hiveguard-core/src/detectors/port_scan.rs\<close>: a short tier and a
  slow tier per source, an optional slow tier per IPv4 subnet, and the sweeps and
  caps that bound its memory.
\<close>

definition PORT_SCAN_SWEEP_EVERY :: u64 where "PORT_SCAN_SWEEP_EVERY = 4096"
definition DEFAULT_LONG_WINDOW_SECS :: nat where "DEFAULT_LONG_WINDOW_SECS = 6 * 3600"
definition DEFAULT_LONG_THRESHOLD :: nat where "DEFAULT_LONG_THRESHOLD = 25"
definition DEFAULT_LONG_BAN_SECS :: nat where "DEFAULT_LONG_BAN_SECS = 7 * 24 * 3600"
definition DEFAULT_MAX_TRACKED_IPS :: nat where "DEFAULT_MAX_TRACKED_IPS = 50000"
definition DEFAULT_LONG_SUBNET_THRESHOLD :: nat where "DEFAULT_LONG_SUBNET_THRESHOLD = 40"
definition DEFAULT_LONG_SUBNET_MIN_IPS :: nat where "DEFAULT_LONG_SUBNET_MIN_IPS = 3"

type_synonym port_list = "(u16 \<times> instant) list"

record PortScanDetector =
  ps_window :: duration
  ps_threshold :: nat
  ps_ban_duration :: duration
  ps_port_access :: "(ip_addr, port_list) hmap"
  ps_long_window :: duration
  ps_long_threshold :: nat
  ps_long_ban_duration :: duration
  ps_long_access :: "(ip_addr, port_list) hmap"
  ps_max_tracked_ips :: nat
  ps_ipv6_prefix :: u8
  ps_long_subnet_v4_prefix :: u8
  ps_long_subnet_threshold :: nat
  ps_long_subnet_min_ips :: nat
  ps_long_subnet_access :: "(ip_net, (u16 \<times> ip_addr \<times> instant) list) hmap"
  ps_events :: u64

definition ps_with_config :: "duration \<Rightarrow> nat \<Rightarrow> duration \<Rightarrow> PortScanDetector" where
  "ps_with_config window threshold ban_duration =
     \<lparr>ps_window = window, ps_threshold = threshold, ps_ban_duration = ban_duration,
      ps_port_access = hm_empty,
      ps_long_window = secs DEFAULT_LONG_WINDOW_SECS, ps_long_threshold = DEFAULT_LONG_THRESHOLD,
      ps_long_ban_duration = secs DEFAULT_LONG_BAN_SECS, ps_long_access = hm_empty,
      ps_max_tracked_ips = DEFAULT_MAX_TRACKED_IPS, ps_ipv6_prefix = DEFAULT_IPV6_PREFIX,
      ps_long_subnet_v4_prefix = 0, ps_long_subnet_threshold = DEFAULT_LONG_SUBNET_THRESHOLD,
      ps_long_subnet_min_ips = DEFAULT_LONG_SUBNET_MIN_IPS, ps_long_subnet_access = hm_empty,
      ps_events = 0\<rparr>"

definition ps_new :: PortScanDetector where
  "ps_new = ps_with_config (secs 600) 6 (secs (48 * 3600))"

definition ps_with_ipv6_prefix :: "u8 \<Rightarrow> PortScanDetector \<Rightarrow> PortScanDetector" where
  "ps_with_ipv6_prefix prefix d = d\<lparr>ps_ipv6_prefix := prefix\<rparr>"

definition ps_with_long_subnet_tier :: "u8 \<Rightarrow> nat \<Rightarrow> nat \<Rightarrow> PortScanDetector \<Rightarrow> PortScanDetector" where
  "ps_with_long_subnet_tier v4_prefix threshold min_ips d =
     d\<lparr>ps_long_subnet_v4_prefix := min v4_prefix 32, ps_long_subnet_threshold := threshold,
       ps_long_subnet_min_ips := max min_ips 1\<rparr>"

definition ps_with_long_tier :: "duration \<Rightarrow> nat \<Rightarrow> duration \<Rightarrow> PortScanDetector \<Rightarrow> PortScanDetector" where
  "ps_with_long_tier window threshold ban_duration d =
     d\<lparr>ps_long_window := window, ps_long_threshold := threshold, ps_long_ban_duration := ban_duration\<rparr>"

definition ps_with_max_tracked_ips :: "nat \<Rightarrow> PortScanDetector \<Rightarrow> PortScanDetector" where
  "ps_with_max_tracked_ips m d = d\<lparr>ps_max_tracked_ips := max m 1\<rparr>"

definition ps_key :: "det_env \<Rightarrow> PortScanDetector \<Rightarrow> ip_addr \<Rightarrow> ip_net" where
  "ps_key E d ip = source_key (de_net E) ip (ps_ipv6_prefix d)"

definition ps_cutoff :: "det_env \<Rightarrow> instant \<Rightarrow> duration \<Rightarrow> instant" where
  "ps_cutoff E now window = now - (case de_from_std E window of Some d \<Rightarrow> d | None \<Rightarrow> int (secs 30))"

definition cleanup_old_entries :: "det_env \<Rightarrow> ip_addr \<Rightarrow> instant \<Rightarrow> PortScanDetector \<Rightarrow> PortScanDetector" where
  "cleanup_old_entries E ip now d =
     (case hm_get (ps_port_access d) ip of
        None \<Rightarrow> d
      | Some entries \<Rightarrow>
          let cutoff = ps_cutoff E now (ps_window d);
              entries = filter (\<lambda>(_, t). t > cutoff) entries
          in if entries = [] then d\<lparr>ps_port_access := hm_remove ip (ps_port_access d)\<rparr>
             else d\<lparr>ps_port_access := hm_insert ip entries (ps_port_access d)\<rparr>)"

definition sweep :: "det_env \<Rightarrow> instant \<Rightarrow> PortScanDetector \<Rightarrow> PortScanDetector" where
  "sweep E now d =
     (let short = ps_cutoff E now (ps_window d);
          long = ps_cutoff E now (ps_long_window d)
      in d\<lparr>ps_port_access := hm_retain (\<lambda>_ v. list_ex (\<lambda>(_, t). t > short) v) (ps_port_access d),
           ps_long_access := hm_retain (\<lambda>_ v. list_ex (\<lambda>(_, t). t > long) v) (ps_long_access d),
           ps_long_subnet_access := hm_retain (\<lambda>_ v. list_ex (\<lambda>(_, _, t). t > long) v) (ps_long_subnet_access d)\<rparr>)"

definition ps_maybe_sweep :: "det_env \<Rightarrow> instant \<Rightarrow> PortScanDetector \<Rightarrow> PortScanDetector" where
  "ps_maybe_sweep E now d =
     (let events = ps_events d;
          d = d\<lparr>ps_events := events + 1\<rparr>
      in if events mod PORT_SCAN_SWEEP_EVERY \<noteq> PORT_SCAN_SWEEP_EVERY - 1 then d else sweep E now d)"

definition is_ipv4 :: "ip_addr \<Rightarrow> bool" where
  "is_ipv4 ip = (case ip of IpV4 _ \<Rightarrow> True | IpV6 _ \<Rightarrow> False)"

text \<open>The signal once the subnet has reached both minima, and the entry it removes.\<close>

definition subnet_scan_signal ::
    "det_env \<Rightarrow> PortScanDetector \<Rightarrow> ip_net \<Rightarrow> nat \<Rightarrow> nat \<Rightarrow> instant \<Rightarrow> DetectionSignal" where
  "subnet_scan_signal E d subnet n_ports n_ips now =
     (let evidence = de_show_net E subnet @ '':port_scan_slow:subnet:'' @ show_nat n_ports @ ''_ports:''
            @ show_int (minute_of now)
      in \<lparr>sg_source_ip = subnet, sg_severity = 200, sg_confidence = f32_09,
          sg_reason = ''Distributed slow port scan: '' @ show_nat n_ports @ '' unique ports from ''
            @ show_nat n_ips @ '' addresses in '' @ de_show_net E subnet @ '' in ''
            @ show_nat (ps_long_window d div ns_per_sec) @ ''s'',
          sg_evidence_hash = de_blake3 E (str_bytes evidence),
          sg_suggested_action = Ban (ps_long_ban_duration d),
          sg_detector_name = ''port_scan_slow'', sg_timestamp = now\<rparr>)"

text \<open>The part of \<open>long_subnet_tier\<close> after its admission check.\<close>

definition record_probe ::
    "det_env \<Rightarrow> ip_net \<Rightarrow> ip_addr \<Rightarrow> u16 \<Rightarrow> instant \<Rightarrow> PortScanDetector \<Rightarrow> DetectionSignal option \<times> PortScanDetector" where
  "record_probe E subnet ip port now d =
     (let cutoff = ps_cutoff E now (ps_long_window d);
          cap = ps_long_subnet_threshold d * 4 + 64;
          entries = filter (\<lambda>(p, a, t). t > cutoff \<and> \<not> (p = port \<and> a = ip))
            (hm_get_or [] (ps_long_subnet_access d) subnet) @ [(port, ip, now)];
          entries = (if length entries > cap then drop (length entries - cap) entries else entries);
          n_ports = length (remdups (List.map fst entries));
          n_ips = length (remdups (List.map (\<lambda>(_, a, _). a) entries));
          kept = d\<lparr>ps_long_subnet_access := hm_insert subnet entries (ps_long_subnet_access d)\<rparr>
      in if n_ports < ps_long_subnet_threshold d then (None, kept)
         else if n_ips < ps_long_subnet_min_ips d then (None, kept)
         else (Some (subnet_scan_signal E d subnet n_ports n_ips now),
               d\<lparr>ps_long_subnet_access := hm_remove subnet (ps_long_subnet_access d)\<rparr>))"

definition long_subnet_tier ::
    "det_env \<Rightarrow> ip_addr \<Rightarrow> u16 \<Rightarrow> instant \<Rightarrow> PortScanDetector \<Rightarrow> DetectionSignal option \<times> PortScanDetector" where
  "long_subnet_tier E ip port now d =
     (if ps_long_subnet_threshold d = 0 \<or> \<not> is_ipv4 ip then (None, d)
      else case subnet_of (de_net E) ip (ps_long_subnet_v4_prefix d) 0 of
        None \<Rightarrow> (None, d)
      | Some subnet \<Rightarrow>
          if length (ps_long_subnet_access d) \<ge> ps_max_tracked_ips d
             \<and> \<not> hm_contains (ps_long_subnet_access d) subnet
          then
            let d = sweep E now d
            in if length (ps_long_subnet_access d) \<ge> ps_max_tracked_ips d then (None, d)
               else record_probe E subnet ip port now d
          else record_probe E subnet ip port now d)"

definition ps_admit ::
    "det_env \<Rightarrow> (PortScanDetector \<Rightarrow> (ip_addr, port_list) hmap) \<Rightarrow> ip_addr \<Rightarrow> instant \<Rightarrow> PortScanDetector
     \<Rightarrow> bool \<times> PortScanDetector" where
  "ps_admit E map_of_tier ip now d =
     (if length (map_of_tier d) < ps_max_tracked_ips d \<or> hm_contains (map_of_tier d) ip then (True, d)
      else let d = sweep E now d in (length (map_of_tier d) < ps_max_tracked_ips d, d))"

definition long_tier ::
    "det_env \<Rightarrow> ip_net \<Rightarrow> u16 \<Rightarrow> instant \<Rightarrow> PortScanDetector \<Rightarrow> DetectionSignal option \<times> PortScanDetector" where
  "long_tier E key port now d =
     (let ip = net_addr key
      in if ps_long_threshold d = 0 then (None, d)
         else case ps_admit E ps_long_access ip now d of
           (False, d) \<Rightarrow> (None, d)
         | (True, d) \<Rightarrow>
             (let cutoff = ps_cutoff E now (ps_long_window d);
                  entries = filter (\<lambda>(p, t). t > cutoff \<and> p \<noteq> port) (hm_get_or [] (ps_long_access d) ip)
                    @ [(port, now)];
                  unique = length entries
              in if unique < ps_long_threshold d
                 then (None, d\<lparr>ps_long_access := hm_insert ip entries (ps_long_access d)\<rparr>)
                 else
                   let evidence = de_show_net E key @ '':port_scan_slow:'' @ show_nat unique @ ''_ports:''
                         @ show_int (minute_of now)
                   in (Some \<lparr>sg_source_ip = key, sg_severity = 200, sg_confidence = f32_09,
                         sg_reason = ''Slow port scan detected: '' @ show_nat unique @ '' unique ports in ''
                           @ show_nat (ps_long_window d div ns_per_sec) @ ''s'',
                         sg_evidence_hash = de_blake3 E (str_bytes evidence),
                         sg_suggested_action = Ban (ps_long_ban_duration d),
                         sg_detector_name = ''port_scan_slow'', sg_timestamp = now\<rparr>,
                       d\<lparr>ps_long_access := hm_remove ip (ps_long_access d)\<rparr>)))"

definition short_signal :: "det_env \<Rightarrow> PortScanDetector \<Rightarrow> ip_net \<Rightarrow> nat \<Rightarrow> instant \<Rightarrow> DetectionSignal" where
  "short_signal E d key unique_ports now =
     \<lparr>sg_source_ip = key, sg_severity = 200, sg_confidence = f32_09,
      sg_reason = ''Port scan detected: '' @ show_nat unique_ports @ '' unique ports in ''
        @ show_nat (ps_window d div ns_per_sec) @ ''s'',
      sg_evidence_hash = de_blake3 E (str_bytes (de_show_net E key @ '':port_scan:'' @ show_nat unique_ports @ ''_ports'')),
      sg_suggested_action = Ban (ps_ban_duration d),
      sg_detector_name = ''port_scan'', sg_timestamp = now\<rparr>"

text \<open>\<open>subnet_signal.or_else(|| self.long_tier(...))\<close>: the slow tier runs only without a subnet signal.\<close>

definition or_long_tier ::
    "det_env \<Rightarrow> DetectionSignal option \<Rightarrow> ip_net \<Rightarrow> u16 \<Rightarrow> instant \<Rightarrow> PortScanDetector
     \<Rightarrow> DetectionSignal option \<times> PortScanDetector" where
  "or_long_tier E subnet_signal key port now d =
     (case subnet_signal of Some s \<Rightarrow> (Some s, d) | None \<Rightarrow> long_tier E key port now d)"

definition ps_process ::
    "det_env \<Rightarrow> PortScanDetector \<Rightarrow> NormalizedEvent \<Rightarrow> DetectionSignal option \<times> PortScanDetector" where
  "ps_process E d event =
     (if ev_event_type event \<noteq> PortAccess then (None, d)
      else case hm_get (ev_metadata event) ''port'' of
        None \<Rightarrow> (None, d)
      | Some text \<Rightarrow>
          (case parse_unsigned 65535 text of
             None \<Rightarrow> (None, d)
           | Some n \<Rightarrow>
               (let port = of_nat n; now = ev_timestamp event;
                    key = ps_key E d (ev_source_ip event); ip = net_addr key;
                    d = cleanup_old_entries E ip now (ps_maybe_sweep E now d)
                in case long_subnet_tier E (ev_source_ip event) port now d of
                  (subnet_signal, d) \<Rightarrow>
                    (case ps_admit E ps_port_access ip now d of
                       (False, d) \<Rightarrow> or_long_tier E subnet_signal key port now d
                     | (True, d) \<Rightarrow>
                         (let entries = filter (\<lambda>(p, _). p \<noteq> port) (hm_get_or [] (ps_port_access d) ip)
                                @ [(port, now)];
                              unique_ports = length entries
                          in if unique_ports \<ge> ps_threshold d then
                               (case subnet_signal of
                                  Some s \<Rightarrow> Some s
                                | None \<Rightarrow> Some (short_signal E d key unique_ports now),
                                d\<lparr>ps_port_access := hm_insert ip [] (ps_port_access d),
                                  ps_long_access := hm_remove ip (ps_long_access d)\<rparr>)
                             else or_long_tier E subnet_signal key port now
                                    (d\<lparr>ps_port_access := hm_insert ip entries (ps_port_access d)\<rparr>))))))"

section \<open>Bounded memory\<close>

definition ps_cfg :: "PortScanDetector \<Rightarrow> (duration \<times> nat \<times> duration \<times> nat \<times> nat) \<times> u8 \<times> u8 \<times> nat \<times> nat" where
  "ps_cfg d = ((ps_window d, ps_threshold d, ps_long_window d, ps_long_threshold d, ps_max_tracked_ips d),
     ps_ipv6_prefix d, ps_long_subnet_v4_prefix d, ps_long_subnet_threshold d, ps_long_subnet_min_ips d)"

text \<open>A map with at most \<open>m\<close> keys, all of whose values satisfy \<open>P\<close>.\<close>

definition bounded_map :: "nat \<Rightarrow> ('v \<Rightarrow> bool) \<Rightarrow> ('k, 'v) hmap \<Rightarrow> bool" where
  "bounded_map m P h \<longleftrightarrow> hm_wf h \<and> length h \<le> m \<and> (\<forall>k v. hm_get h k = Some v \<longrightarrow> P v)"

lemma bounded_insert:
  "bounded_map m P h \<Longrightarrow> P v \<Longrightarrow> length h < m \<or> hm_contains h k \<Longrightarrow> bounded_map m P (hm_insert k v h)"
  by (auto simp: bounded_map_def hm_length_insert)

lemma bounded_remove: "bounded_map m P h \<Longrightarrow> bounded_map m P (hm_remove k h)"
  using hm_length_remove_le [of k h] by (auto simp: bounded_map_def split: if_splits)

lemma hm_retain_length: "length (hm_retain Q h) \<le> length h"
  by (simp add: hm_retain_def)

lemma bounded_retain: "bounded_map m P h \<Longrightarrow> bounded_map m P (hm_retain Q h)"
  using hm_retain_length [of Q h]
  by (auto simp: bounded_map_def hm_get_retain split: option.splits if_splits)

lemma bounded_get_or: "bounded_map m P h \<Longrightarrow> P d \<Longrightarrow> P (hm_get_or d h k)"
  by (auto simp: bounded_map_def hm_get_or_def split: option.splits)

definition ports_ok :: "nat \<Rightarrow> port_list \<Rightarrow> bool" where
  "ports_ok n v \<longleftrightarrow> distinct (List.map fst v) \<and> length v \<le> n"

definition probes_ok :: "nat \<Rightarrow> (u16 \<times> ip_addr \<times> instant) list \<Rightarrow> bool" where
  "probes_ok n v \<longleftrightarrow> distinct (List.map (\<lambda>(p, a, _). (p, a)) v) \<and> length v \<le> n"

definition ps_inv :: "PortScanDetector \<Rightarrow> bool" where
  "ps_inv d \<longleftrightarrow> bounded_map (ps_max_tracked_ips d) (ports_ok (ps_threshold d)) (ps_port_access d)
     \<and> bounded_map (ps_max_tracked_ips d) (ports_ok (ps_long_threshold d)) (ps_long_access d)
     \<and> bounded_map (ps_max_tracked_ips d) (probes_ok (ps_long_subnet_threshold d * 4 + 64)) (ps_long_subnet_access d)"

lemma lists_ok_Nil [simp]: "ports_ok n []" "probes_ok n []"
  by (simp_all add: ports_ok_def probes_ok_def)

lemma ps_inv_lists:
  assumes "ps_inv d"
  shows "ports_ok (ps_threshold d) (hm_get_or [] (ps_port_access d) ip)"
    "ports_ok (ps_long_threshold d) (hm_get_or [] (ps_long_access d) ip)"
    "probes_ok (ps_long_subnet_threshold d * 4 + 64) (hm_get_or [] (ps_long_subnet_access d) n)"
  using assms unfolding ps_inv_def by (auto intro: bounded_get_or)

lemma ps_cfg_simps [simp]:
  "ps_cfg (d\<lparr>ps_port_access := a\<rparr>) = ps_cfg d" "ps_cfg (d\<lparr>ps_long_access := b\<rparr>) = ps_cfg d"
  "ps_cfg (d\<lparr>ps_long_subnet_access := c\<rparr>) = ps_cfg d" "ps_cfg (d\<lparr>ps_events := n\<rparr>) = ps_cfg d"
  by (simp_all add: ps_cfg_def)

lemma ps_inv_events [simp]: "ps_inv (d\<lparr>ps_events := n\<rparr>) = ps_inv d"
  by (simp add: ps_inv_def)

lemma sweep_keeps: "ps_cfg (sweep E now d) = ps_cfg d" "ps_inv d \<Longrightarrow> ps_inv (sweep E now d)"
  by (simp_all add: sweep_def Let_def ps_inv_def bounded_retain)

lemma maybe_sweep_keeps: "ps_cfg (ps_maybe_sweep E now d) = ps_cfg d" "ps_inv d \<Longrightarrow> ps_inv (ps_maybe_sweep E now d)"
  by (simp_all add: ps_maybe_sweep_def Let_def sweep_keeps)

lemma ports_ok_filter: "ports_ok n v \<Longrightarrow> ports_ok n (filter P v)"
  by (auto simp: ports_ok_def distinct_map_filter intro: order_trans [OF length_filter_le])

lemma cleanup_keeps: "ps_cfg (cleanup_old_entries E ip now d) = ps_cfg d"
    "ps_inv d \<Longrightarrow> ps_inv (cleanup_old_entries E ip now d)"
  by (auto simp: cleanup_old_entries_def ps_inv_def Let_def bounded_remove ports_ok_filter
      intro!: bounded_insert split: option.splits) (auto simp: bounded_map_def ports_ok_filter)

lemma probes_ok_record:
  assumes "probes_ok n v"
  shows "distinct (List.map (\<lambda>(p, a, _). (p, a))
    (filter (\<lambda>(p, a, t). c < t \<and> \<not> (p = port \<and> a = ip)) v @ [(port, ip, now)]))"
  using assms by (auto simp: probes_ok_def distinct_map_filter)

lemma probes_ok_drop: "distinct (List.map f v) \<Longrightarrow> distinct (List.map f (drop k v))"
  by (simp add: drop_map [symmetric])

lemma record_probe_keeps:
  "ps_cfg (snd (record_probe E subnet ip port now d)) = ps_cfg d"
  "ps_inv d \<Longrightarrow> length (ps_long_subnet_access d) < ps_max_tracked_ips d \<or> hm_contains (ps_long_subnet_access d) subnet
   \<Longrightarrow> ps_inv (snd (record_probe E subnet ip port now d))"
proof -
  show "ps_cfg (snd (record_probe E subnet ip port now d)) = ps_cfg d"
    by (simp add: record_probe_def Let_def)
  assume inv: "ps_inv d"
    and room: "length (ps_long_subnet_access d) < ps_max_tracked_ips d \<or> hm_contains (ps_long_subnet_access d) subnet"
  define cap where "cap = ps_long_subnet_threshold d * 4 + 64"
  define es where "es = filter (\<lambda>(p, a, t). t > ps_cutoff E now (ps_long_window d) \<and> \<not> (p = port \<and> a = ip))
    (hm_get_or [] (ps_long_subnet_access d) subnet) @ [(port, ip, now)]"
  define es' where "es' = (if length es > cap then drop (length es - cap) es else es)"
  have "probes_ok cap (hm_get_or [] (ps_long_subnet_access d) subnet)"
    using ps_inv_lists(3) [OF inv] by (simp add: cap_def)
  then have "distinct (List.map (\<lambda>(p, a, _). (p, a)) es)" unfolding es_def by (rule probes_ok_record)
  then have "probes_ok cap es'" by (auto simp: es'_def probes_ok_def probes_ok_drop)
  then have "ps_inv (d\<lparr>ps_long_subnet_access := hm_insert subnet es' (ps_long_subnet_access d)\<rparr>)"
    using inv room by (auto simp: ps_inv_def cap_def intro!: bounded_insert)
  moreover have "ps_inv (d\<lparr>ps_long_subnet_access := hm_remove subnet (ps_long_subnet_access d)\<rparr>)"
    using inv by (simp add: ps_inv_def bounded_remove)
  moreover have "snd (record_probe E subnet ip port now d) \<in>
      {d\<lparr>ps_long_subnet_access := hm_insert subnet es' (ps_long_subnet_access d)\<rparr>,
       d\<lparr>ps_long_subnet_access := hm_remove subnet (ps_long_subnet_access d)\<rparr>}"
    unfolding record_probe_def es'_def es_def cap_def Let_def by simp
  ultimately show "ps_inv (snd (record_probe E subnet ip port now d))" by auto
qed

lemma subnet_tier_keeps:
  "ps_cfg (snd (long_subnet_tier E ip port now d)) = ps_cfg d"
  "ps_inv d \<Longrightarrow> ps_inv (snd (long_subnet_tier E ip port now d))"
  by (auto simp: long_subnet_tier_def Let_def record_probe_keeps sweep_keeps not_le split: option.splits)

lemma admit_keeps:
  assumes "ps_admit E tier ip now d = (ok, d')"
  shows "ps_cfg d' = ps_cfg d" "ps_inv d \<Longrightarrow> ps_inv d'"
    "ok \<Longrightarrow> length (tier d') < ps_max_tracked_ips d' \<or> hm_contains (tier d') ip"
  using assms by (auto simp: ps_admit_def Let_def sweep_keeps split: if_splits)

lemma ports_ok_record:
  "ports_ok n v \<Longrightarrow> length (filter P v @ [(port, now)]) < m \<Longrightarrow> (\<And>t. \<not> P (port, t)) \<Longrightarrow>
   ports_ok m (filter P v @ [(port, now)])"
  by (force simp: ports_ok_def distinct_map_filter)

lemma long_tier_keeps:
  "ps_cfg (snd (long_tier E key port now d)) = ps_cfg d"
  "ps_inv d \<Longrightarrow> ps_inv (snd (long_tier E key port now d))"
proof -
  obtain ok e where ad: "ps_admit E ps_long_access (net_addr key) now d = (ok, e)" by fastforce
  note k = admit_keeps [OF ad]
  show "ps_cfg (snd (long_tier E key port now d)) = ps_cfg d"
    using k(1) by (cases ok) (simp_all add: long_tier_def Let_def ad)
  assume "ps_inv d"
  then have e: "ps_inv e" by (rule k(2))
  then have q: "ports_ok (ps_long_threshold e) (hm_get_or [] (ps_long_access e) (net_addr key))"
    by (rule ps_inv_lists)
  have "ps_inv (e\<lparr>ps_long_access := hm_insert (net_addr key) v (ps_long_access e)\<rparr>)"
    if "ok" "ports_ok (ps_long_threshold e) v" for v
    using e k(3) that by (auto simp: ps_inv_def intro!: bounded_insert)
  moreover have "ps_inv (e\<lparr>ps_long_access := hm_remove (net_addr key) (ps_long_access e)\<rparr>)"
    using e by (simp add: ps_inv_def bounded_remove)
  ultimately show "ps_inv (snd (long_tier E key port now d))"
    using e \<open>ps_inv d\<close> ports_ok_record [OF q]
    by (cases ok) (auto simp: long_tier_def Let_def ad)
qed

lemma or_long_tier_keeps:
  "ps_cfg (snd (or_long_tier E s key port now d)) = ps_cfg d"
  "ps_inv d \<Longrightarrow> ps_inv (snd (or_long_tier E s key port now d))"
  by (simp_all add: or_long_tier_def long_tier_keeps split: option.split)

text \<open>
  The ports of a source that the short tier remembers since a moment \<open>C\<close>. Sweeping and
  cleaning up at a time whose window starts no later than \<open>C\<close> does not change them.
\<close>

definition live :: "instant \<Rightarrow> PortScanDetector \<Rightarrow> ip_addr \<Rightarrow> u16 set" where
  "live C d ip = {p. \<exists>t. (p, t) \<in> set (hm_get_or [] (ps_port_access d) ip) \<and> C < t}"

definition quiet :: "det_env \<Rightarrow> instant \<Rightarrow> PortScanDetector \<Rightarrow> PortScanDetector \<Rightarrow> bool" where
  "quiet E now d d' \<longleftrightarrow> ps_cfg d' = ps_cfg d \<and> (ps_inv d \<longrightarrow> ps_inv d' \<and>
     length (ps_port_access d') \<le> length (ps_port_access d)
     \<and> (\<forall>C ip. ps_cutoff E now (ps_window d) \<le> C \<longrightarrow> live C d' ip = live C d ip))"

lemma quiet_refl [simp]: "quiet E now d d"
  by (simp add: quiet_def)

lemma ps_cfg_eqD:
  assumes "ps_cfg d' = ps_cfg d"
  shows "ps_window d' = ps_window d" "ps_threshold d' = ps_threshold d" "ps_max_tracked_ips d' = ps_max_tracked_ips d"
    "ps_ipv6_prefix d' = ps_ipv6_prefix d"
  using assms by (simp_all add: ps_cfg_def)

lemma quiet_trans: "quiet E now d d' \<Longrightarrow> quiet E now d' d'' \<Longrightarrow> quiet E now d d''"
  using ps_cfg_eqD(1) [of d' d] by (auto simp: quiet_def)

lemma live_cong: "ps_port_access d' = ps_port_access e \<Longrightarrow> live C d' ip = live C e ip"
  by (simp add: live_def)

lemma quiet_ports:
  assumes "quiet E now d e" "ps_cfg d' = ps_cfg d" "ps_inv d \<Longrightarrow> ps_inv d'" "ps_port_access d' = ps_port_access e"
  shows "quiet E now d d'"
  using assms live_cong [OF assms(4)] by (simp add: quiet_def)

lemmas quiet_same = quiet_ports [OF quiet_refl]

lemma quiet_sweep: "quiet E now d (sweep E now d)"
proof -
  have "live C (sweep E now d) ip = live C d ip"
    if inv: "ps_inv d" and C: "ps_cutoff E now (ps_window d) \<le> C" for C ip
  proof (cases "hm_get (ps_port_access d) ip")
    case None
    then show ?thesis
      using inv by (simp add: live_def sweep_def Let_def hm_get_or_def hm_get_retain ps_inv_def bounded_map_def)
  next
    case (Some v)
    then have "hm_get (ps_port_access (sweep E now d)) ip =
        (if list_ex (\<lambda>(_, t). t > ps_cutoff E now (ps_window d)) v then Some v else None)"
      using inv by (simp add: sweep_def Let_def hm_get_retain ps_inv_def bounded_map_def)
    then show ?thesis using Some C by (force simp: live_def hm_get_or_def list_ex_iff)
  qed
  then show ?thesis
    using hm_retain_length by (auto simp: quiet_def sweep_keeps) (simp add: sweep_def Let_def hm_retain_length)
qed

lemma quiet_maybe_sweep: "quiet E now d (ps_maybe_sweep E now d)"
proof -
  have "quiet E now d (d\<lparr>ps_events := n\<rparr>)" for n by (rule quiet_same) simp_all
  then show ?thesis
    using quiet_trans [OF _ quiet_sweep] by (simp add: ps_maybe_sweep_def Let_def)
qed

lemma quiet_cleanup: "quiet E now d (cleanup_old_entries E ip now d)"
proof (cases "hm_get (ps_port_access d) ip")
  case None
  then show ?thesis by (simp add: cleanup_old_entries_def)
next
  case (Some v)
  have "live C (cleanup_old_entries E ip now d) k = live C d k"
    if "ps_cutoff E now (ps_window d) \<le> C" for C k
    using Some that by (force simp: live_def cleanup_old_entries_def Let_def hm_get_or_def filter_empty_conv)
  moreover have "length (ps_port_access (cleanup_old_entries E ip now d)) \<le> length (ps_port_access d)" if "ps_inv d"
    using Some that hm_length_remove_le [of ip "ps_port_access d"]
    by (auto simp: cleanup_old_entries_def Let_def hm_length_insert ps_inv_def bounded_map_def)
  ultimately show ?thesis by (simp add: quiet_def cleanup_keeps)
qed

lemma record_probe_ports: "ps_port_access (snd (record_probe E subnet ip port now d)) = ps_port_access d"
  by (simp add: record_probe_def Let_def)

lemma quiet_subnet_tier: "quiet E now d (snd (long_subnet_tier E ip port now d))"
proof -
  have "ps_port_access (snd (long_subnet_tier E ip port now d)) = ps_port_access d
      \<or> ps_port_access (snd (long_subnet_tier E ip port now d)) = ps_port_access (sweep E now d)"
    by (simp add: long_subnet_tier_def Let_def record_probe_ports split: option.split)
  then show ?thesis
    using quiet_ports [OF quiet_refl subnet_tier_keeps] quiet_ports [OF quiet_sweep subnet_tier_keeps] by metis
qed

lemma quiet_admit: "ps_admit E tier ip now d = (ok, d') \<Longrightarrow> quiet E now d d'"
  using quiet_sweep [of E now d] by (auto simp: ps_admit_def Let_def split: if_splits)

lemma quiet_or_long_tier: "quiet E now d (snd (or_long_tier E s key port now d))"
proof (cases s)
  case None
  obtain ok e where ad: "ps_admit E ps_long_access (net_addr key) now d = (ok, e)" by fastforce
  have "ps_port_access (snd (long_tier E key port now d)) = ps_port_access d
      \<or> ps_port_access (snd (long_tier E key port now d)) = ps_port_access e"
    by (cases ok) (simp_all add: long_tier_def Let_def ad)
  then have "quiet E now d (snd (long_tier E key port now d))"
    using quiet_ports [OF quiet_refl long_tier_keeps] quiet_ports [OF quiet_admit [OF ad] long_tier_keeps] by metis
  then show ?thesis by (simp add: None or_long_tier_def)
qed (simp add: or_long_tier_def)

text \<open>
  One event: it is not a probe and changes nothing, or it passes through the sweep, the
  subnet tier and the admission check into a state \<open>e\<close>, and the port is recorded there.
\<close>

definition ps_probe :: "det_env \<Rightarrow> PortScanDetector \<Rightarrow> NormalizedEvent \<Rightarrow> (ip_net \<times> u16) option" where
  "ps_probe E d event =
     (if ev_event_type event = PortAccess then
        case hm_get (ev_metadata event) ''port'' of
          Some str \<Rightarrow> map_option (\<lambda>n. (ps_key E d (ev_source_ip event), of_nat n)) (parse_unsigned 65535 str)
        | None \<Rightarrow> None
      else None)"

lemma ps_process_cases:
  obtains (ignored) "ps_probe E d event = None" "ps_process E d event = (None, d)"
  | (refused) s e key port where "ps_probe E d event = Some (key, port)"
      "ps_process E d event = or_long_tier E s key port (ev_timestamp event) e"
      "quiet E (ev_timestamp event) d e"
      "ps_inv d \<Longrightarrow> \<not> length (ps_port_access e) < ps_max_tracked_ips e"
      "\<exists>d0. s = fst (long_subnet_tier E (ev_source_ip event) port (ev_timestamp event) d0)"
  | (recorded) s e key port v where "ps_probe E d event = Some (key, port)" "quiet E (ev_timestamp event) d e"
      "length (ps_port_access e) < ps_max_tracked_ips e \<or> hm_contains (ps_port_access e) (net_addr key)"
      "v = filter (\<lambda>(p, _). p \<noteq> port) (hm_get_or [] (ps_port_access e) (net_addr key)) @ [(port, ev_timestamp event)]"
      "ps_process E d event = (if length v \<ge> ps_threshold e then
         (Some (case s of Some x \<Rightarrow> x | None \<Rightarrow> short_signal E e key (length v) (ev_timestamp event)),
          e\<lparr>ps_port_access := hm_insert (net_addr key) [] (ps_port_access e),
            ps_long_access := hm_remove (net_addr key) (ps_long_access e)\<rparr>)
        else or_long_tier E s key port (ev_timestamp event)
          (e\<lparr>ps_port_access := hm_insert (net_addr key) v (ps_port_access e)\<rparr>))"
      "\<exists>d0. s = fst (long_subnet_tier E (ev_source_ip event) port (ev_timestamp event) d0)"
proof (cases "ps_probe E d event")
  case None
  then show ?thesis
    by (intro ignored) (auto simp: ps_probe_def ps_process_def split: if_splits option.splits)
next
  case (Some kp)
  then obtain str n where ev: "ev_event_type event = PortAccess" "hm_get (ev_metadata event) ''port'' = Some str"
      "parse_unsigned 65535 str = Some n" and kp: "kp = (ps_key E d (ev_source_ip event), of_nat n)"
    by (auto simp: ps_probe_def split: if_splits option.splits)
  let ?now = "ev_timestamp event" and ?key = "ps_key E d (ev_source_ip event)"
  let ?d = "cleanup_old_entries E (net_addr ?key) ?now (ps_maybe_sweep E ?now d)"
  obtain s d1 where sub: "long_subnet_tier E (ev_source_ip event) (of_nat n) ?now ?d = (s, d1)" by fastforce
  obtain ok e where ad: "ps_admit E ps_port_access (net_addr ?key) ?now d1 = (ok, e)" by fastforce
  have "quiet E ?now ?d d1"
    using quiet_subnet_tier [of E ?now ?d "ev_source_ip event" "of_nat n"] by (simp add: sub)
  then have q: "quiet E ?now d e"
    using quiet_trans [OF quiet_trans [OF quiet_maybe_sweep quiet_cleanup] quiet_trans [OF _ quiet_admit [OF ad]]] by simp
  note probe = Some [unfolded kp]
  have s: "\<exists>d0. s = fst (long_subnet_tier E (ev_source_ip event) (of_nat n) ?now d0)" by (metis sub fst_conv)
  show ?thesis
  proof (cases ok)
    case True
    show ?thesis
      using ev sub ad True admit_keeps(3) [OF ad]
      by (intro recorded [OF probe q _ refl _ s]) (simp_all add: ps_process_def Let_def split: option.splits)
  next
    case False
    then show ?thesis
      using ev sub ad
      by (intro refused [OF probe _ q _ s]) (auto simp: ps_process_def ps_admit_def Let_def split: if_splits)
  qed
qed

lemma ps_process_keeps:
  "ps_cfg (snd (ps_process E d event)) = ps_cfg d \<and> (ps_inv d \<longrightarrow> ps_inv (snd (ps_process E d event)))"
proof (cases rule: ps_process_cases [of E d event])
  case ignored
  then show ?thesis by simp
next
  case (refused s e key port)
  then show ?thesis by (simp add: or_long_tier_keeps quiet_def)
next
  case (recorded s e key port v)
  have e: "ps_cfg e = ps_cfg d" "ps_inv d \<Longrightarrow> ps_inv e" using recorded(2) by (simp_all add: quiet_def)
  have ins: "ps_inv (e\<lparr>ps_port_access := hm_insert (net_addr key) v' (ps_port_access e)\<rparr>)"
    if "ps_inv d" "ports_ok (ps_threshold e) v'" for v'
    using e(2) [OF that(1)] recorded(3) that(2) by (auto simp: ps_inv_def intro!: bounded_insert)
  have "ports_ok (ps_threshold e) v" if "ps_inv d" "\<not> ps_threshold e \<le> length v"
    using ports_ok_record [OF ps_inv_lists(1) [OF e(2) [OF that(1)]]] that(2)
    by (simp add: recorded(4))
  moreover have "ps_inv (e\<lparr>ps_port_access := hm_insert (net_addr key) [] (ps_port_access e),
      ps_long_access := hm_remove (net_addr key) (ps_long_access e)\<rparr>)" if "ps_inv d"
    using ins [OF that, of "[]"] by (simp add: ps_inv_def bounded_remove)
  ultimately show ?thesis
    using e(1) recorded(5) ins by (simp add: or_long_tier_keeps)
qed

lemma ps_after_keeps:
  "ps_cfg (after (ps_process E) d es) = ps_cfg d \<and> (ps_inv d \<longrightarrow> ps_inv (after (ps_process E) d es))"
  by (induction es arbitrary: d) (simp_all add: ps_process_keeps)

text \<open>
  C26: bounded memory. After any sequence of events each of the three maps of the
  detector has at most \<open>max_tracked_ips\<close> keys, the lists of the short and the slow tier
  hold every port at most once and are no longer than the tier's threshold, and the list
  of a subnet stays within its cap.
\<close>

theorem port_scan_bounded:
  assumes "ps_port_access d = []" "ps_long_access d = []" "ps_long_subnet_access d = []"
  shows "let e = after (ps_process E) d es in
    length (ps_port_access e) \<le> ps_max_tracked_ips d
    \<and> length (ps_long_access e) \<le> ps_max_tracked_ips d
    \<and> length (ps_long_subnet_access e) \<le> ps_max_tracked_ips d
    \<and> ports_ok (ps_threshold d) (hm_get_or [] (ps_port_access e) ip)
    \<and> ports_ok (ps_long_threshold d) (hm_get_or [] (ps_long_access e) ip)
    \<and> probes_ok (ps_long_subnet_threshold d * 4 + 64) (hm_get_or [] (ps_long_subnet_access e) net)"
proof -
  have "ps_inv d" using assms by (simp add: ps_inv_def bounded_map_def)
  then have cfg: "ps_cfg (after (ps_process E) d es) = ps_cfg d" and inv: "ps_inv (after (ps_process E) d es)"
    using ps_after_keeps by blast+
  then show ?thesis
    using ps_inv_lists [OF inv] by (simp add: Let_def ps_cfg_def ps_inv_def bounded_map_def)
qed

definition ex_probe :: "ip_addr \<Rightarrow> string \<Rightarrow> instant \<Rightarrow> NormalizedEvent" where
  "ex_probe ip port t = \<lparr>ev_timestamp = t, ev_source_ip = ip, ev_event_type = PortAccess,
     ev_source_name = ''ufw'', ev_raw_line = [], ev_metadata = [(''port'', port)]\<rparr>"

definition ex_scanner :: PortScanDetector where
  "ex_scanner = ps_with_max_tracked_ips 5 (ps_with_long_tier 600 9 900 (ps_with_config 60 3 300))"

definition ex_scan :: "NormalizedEvent list" where
  "ex_scan = [ex_probe (IpV4 0xCB007105) ''22'' 0, ex_probe (IpV4 0xCB007106) ''80'' 5,
     ex_probe (IpV4 0xCB007105) ''23'' 10, ex_probe (IpV4 0xCB007105) ''3389'' 20]"

lemmas ex_scanner_simps = ex_scanner_def ps_with_max_tracked_ips_def ps_with_long_tier_def ps_with_config_def

theorem port_scan_bounded_witness:
  "length (ps_port_access (after (ps_process ex_env) ex_scanner ex_scan)) \<le> 5
   \<and> ports_ok 3 (hm_get_or [] (ps_port_access (after (ps_process ex_env) ex_scanner ex_scan)) (IpV4 0xCB007105))"
  using port_scan_bounded [of ex_scanner ex_env ex_scan "IpV4 0xCB007105" "NetV4 0 0"]
  by (simp add: ex_scanner_simps Let_def)

section \<open>Scans are detected\<close>

lemma ps_probe_cfg: "ps_cfg d' = ps_cfg d \<Longrightarrow> ps_probe E d' = ps_probe E d"
  by (rule ext) (simp add: ps_probe_def ps_key_def ps_cfg_def cong: option.case_cong)

lemma live_insert:
  "live C (e\<lparr>ps_port_access := hm_insert ip v (ps_port_access e)\<rparr>) k =
     (if k = ip then {p. \<exists>t. (p, t) \<in> set v \<and> C < t} else live C e k)"
  by (simp add: live_def)

lemma live_long_access [simp]: "live C (e\<lparr>ps_long_access := x\<rparr>) k = live C e k"
  by (simp add: live_def)

lemma recorded_live:
  assumes "v = filter (\<lambda>(p, _). p \<noteq> port) (hm_get_or [] (ps_port_access e) a) @ [(port, now)]" "C < now"
  shows "{p. \<exists>t. (p, t) \<in> set v \<and> C < t} = insert port (live C e a)"
    "card (insert port (live C e a)) \<le> length v"
proof -
  show eq: "{p. \<exists>t. (p, t) \<in> set v \<and> C < t} = insert port (live C e a)"
    using assms by (auto simp: live_def)
  have "insert port (live C e a) \<subseteq> set (List.map fst v)" unfolding eq [symmetric] by force
  then have "card (insert port (live C e a)) \<le> card (set (List.map fst v))" by (intro card_mono) simp_all
  also have "\<dots> \<le> length v" using card_length [of "List.map fst v"] by simp
  finally show "card (insert port (live C e a)) \<le> length v" .
qed

text \<open>
  One event when the map has room. It is no probe from \<open>key\<close> and changes nothing for
  \<open>key\<close>; or it is reported; or the port is remembered besides the earlier ones, and they
  are too few.
\<close>

lemma ps_process_live:
  assumes env: "det_env_spec E" and inv: "ps_inv d" and room: "length (ps_port_access d) < ps_max_tracked_ips d"
    and C: "ps_cutoff E (ev_timestamp event) (ps_window d) \<le> C"
    and late: "\<forall>port. ps_probe E d event = Some (key, port) \<longrightarrow> C < ev_timestamp event"
    and key: "key = ps_key E d ip"
    and r_def: "r = ps_process E d event"
  obtains (other) "\<forall>port. ps_probe E d event \<noteq> Some (key, port)"
      "live C (snd r) (net_addr key) = live C d (net_addr key)"
      "length (ps_port_access (snd r)) \<le> Suc (length (ps_port_access d))"
  | (reported) port where "ps_probe E d event = Some (key, port)" "fst r \<noteq> None"
  | (remembered) port where "ps_probe E d event = Some (key, port)"
      "live C (snd r) (net_addr key) = insert port (live C d (net_addr key))"
      "card (insert port (live C d (net_addr key))) < ps_threshold d"
      "length (ps_port_access (snd r)) \<le> Suc (length (ps_port_access d))"
proof (cases rule: ps_process_cases [of E d event])
  case ignored
  then show ?thesis by (intro other) (simp_all add: r_def)
next
  case (refused s e k port)
  then show ?thesis using room inv by (auto simp: quiet_def dest: ps_cfg_eqD)
next
  case (recorded s e k port v)
  let ?now = "ev_timestamp event"
  have cfg: "ps_cfg e = ps_cfg d" and e: "ps_inv e" "length (ps_port_access e) \<le> length (ps_port_access d)"
    and le: "\<And>i. live C e i = live C d i"
    using recorded(2) inv C by (auto simp: quiet_def)
  have wf: "hm_wf (ps_port_access e)" using e(1) by (simp add: ps_inv_def bounded_map_def)
  have th: "ps_threshold e = ps_threshold d" and win: "ps_window e = ps_window d" using cfg by (auto dest: ps_cfg_eqD)
  define e1 where "e1 = e\<lparr>ps_port_access := hm_insert (net_addr k) v (ps_port_access e)\<rparr>"
  define e2 where "e2 = e\<lparr>ps_port_access := hm_insert (net_addr k) [] (ps_port_access e),
      ps_long_access := hm_remove (net_addr k) (ps_long_access e)\<rparr>"
  have len: "length (ps_port_access e1) \<le> Suc (length (ps_port_access d))"
    "length (ps_port_access e2) \<le> Suc (length (ps_port_access d))"
    using e(2) hm_length_insert_le [of "net_addr k" v "ps_port_access e"]
      hm_length_insert_le [of "net_addr k" "[]" "ps_port_access e"] by (simp_all add: e1_def e2_def)
  obtain ip' where k: "k = ps_key E d ip'"
    using recorded(1) by (auto simp: ps_probe_def split: if_splits option.splits)
  have diff: "net_addr k \<noteq> net_addr key" if "k \<noteq> key"
    using that source_key_addr [OF env, of ip' "ps_ipv6_prefix d" ip] by (simp add: k key ps_key_def)
  show ?thesis
  proof (cases "ps_threshold e \<le> length v")
    case fired: True
    then have r: "fst r \<noteq> None" "snd r = e2" using recorded(5) by (simp_all add: r_def e2_def)
    show ?thesis
    proof (cases "k = key")
      case True
      then show ?thesis using reported recorded(1) r by blast
    next
      case False
      then have "live C e2 (net_addr key) = live C d (net_addr key)" using diff by (simp add: e2_def live_insert le)
      then show ?thesis using False recorded(1) len(2) r(2) by (intro other) simp_all
    qed
  next
    case no: False
    then have r: "snd r = snd (or_long_tier E s k port ?now e1)" using recorded(5) by (simp add: r_def e1_def)
    have "ports_ok (ps_threshold e) v"
      using ports_ok_record [OF ps_inv_lists(1) [OF e(1)]] no by (simp add: recorded(4))
    then have "ps_inv e1"
      using e(1) recorded(3) by (auto simp: e1_def ps_inv_def intro!: bounded_insert)
    then have q: "live C (snd r) i = live C e1 i" "length (ps_port_access (snd r)) \<le> Suc (length (ps_port_access d))" for i
      using quiet_or_long_tier [of E ?now e1 s k port] C win len(1) by (auto simp: quiet_def r e1_def)
    show ?thesis
    proof (cases "k = key")
      case True
      then have "C < ?now" using late recorded(1) by blast
      note rl = recorded_live [OF recorded(4) this]
      have "live C e1 (net_addr key) = insert port (live C d (net_addr key))"
        using rl(1) True by (simp add: e1_def live_insert le)
      moreover have "card (insert port (live C d (net_addr key))) < ps_threshold d"
        using rl(2) True no th by (simp add: le)
      ultimately show ?thesis using True recorded(1) q by (intro remembered) simp_all
    next
      case False
      then have "live C e1 (net_addr key) = live C d (net_addr key)" using diff by (simp add: e1_def live_insert le)
      then show ?thesis using False recorded(1) q by (intro other) simp_all
    qed
  qed
qed

lemma scan_detects:
  assumes env: "det_env_spec E"
    and "ps_inv d" "length (ps_port_access d) + length es \<le> ps_max_tracked_ips d"
    and "\<forall>e \<in> set es. ps_cutoff E (ev_timestamp e) (ps_window d) \<le> C"
    and "\<forall>e \<in> set es. \<forall>port. ps_probe E d e = Some (key, port) \<longrightarrow> C < ev_timestamp e"
    and "key = ps_key E d ip"
    and "ps_threshold d \<le> card (live C d (net_addr key) \<union> {port. \<exists>e \<in> set es. ps_probe E d e = Some (key, port)})"
    and "\<exists>e \<in> set es. \<exists>port. ps_probe E d e = Some (key, port)"
  shows "\<exists>i < length es. (\<exists>port. ps_probe E d (es ! i) = Some (key, port)) \<and> signals (ps_process E) d es ! i \<noteq> None"
  using assms(2-)
proof (induction es arbitrary: d)
  case (Cons e es)
  let ?r = "ps_process E d e" and ?a = "net_addr key"
  have cfg: "ps_cfg (snd ?r) = ps_cfg d" and inv: "ps_inv (snd ?r)"
    using ps_process_keeps [of E d e] Cons.prems(1) by blast+
  have room: "length (ps_port_access d) < ps_max_tracked_ips d" using Cons.prems(2) by simp
  have cut: "ps_cutoff E (ev_timestamp e) (ps_window d) \<le> C" using Cons.prems(3) by simp
  have late: "\<forall>port. ps_probe E d e = Some (key, port) \<longrightarrow> C < ev_timestamp e" using Cons.prems(4) by simp
  note same = ps_probe_cfg [OF cfg] ps_cfg_eqD [OF cfg]
  have later: ?case if "\<exists>i < length es. (\<exists>port. ps_probe E d (es ! i) = Some (key, port))
      \<and> signals (ps_process E) (snd ?r) es ! i \<noteq> None"
    using that by (metis length_Cons not_less_eq nth_Cons_Suc signals_Cons)
  have IH: ?case
    if "length (ps_port_access (snd ?r)) \<le> Suc (length (ps_port_access d))"
      and "ps_threshold d \<le> card (live C (snd ?r) ?a \<union> {port. \<exists>e \<in> set es. ps_probe E d e = Some (key, port)})"
      and "\<exists>e \<in> set es. \<exists>port. ps_probe E d e = Some (key, port)"
    using Cons.IH [of "snd ?r"] inv that Cons.prems(2-5)
    by (intro later) (simp add: same ps_key_def)
  show ?case
  proof (cases rule: ps_process_live [OF env Cons.prems(1) room cut late Cons.prems(5) refl, consumes 0, case_names other reported remembered])
    case other
    then show ?thesis using Cons.prems(6,7) by (intro IH) auto
  next
    case (reported port)
    then show ?thesis by (intro exI [of _ 0]) simp
  next
    case (remembered port)
    have un: "{p. \<exists>x \<in> set (e # es). ps_probe E d x = Some (key, p)}
        = insert port {p. \<exists>x \<in> set es. ps_probe E d x = Some (key, p)}"
      using remembered(1) by auto
    show ?thesis
    proof (cases "\<exists>x \<in> set es. \<exists>p. ps_probe E d x = Some (key, p)")
      case True
      then show ?thesis using Cons.prems(6) remembered un by (intro IH) simp_all
    next
      case False
      then have "{p. \<exists>x \<in> set es. ps_probe E d x = Some (key, p)} = {}" by blast
      then show ?thesis using Cons.prems(6) remembered(3) un by simp
    qed
  qed
qed simp

lemma subnet_tier_net:
  assumes "det_env_spec E" "fst (long_subnet_tier E ip port now d) = Some s"
  shows "in_net (sg_source_ip s) ip"
proof -
  have "subnet_of (de_net E) ip (ps_long_subnet_v4_prefix d) 0 = Some (sg_source_ip s)"
    using assms(2)
    by (auto simp: long_subnet_tier_def record_probe_def subnet_scan_signal_def Let_def split: if_splits option.splits)
  then show ?thesis by (rule det_env_spec.subnet_of_in_net [OF assms(1)])
qed

lemma or_long_tier_net:
  assumes "fst (or_long_tier E s key port now d) = Some x"
  shows "s = Some x \<or> sg_source_ip x = key"
  using assms by (auto simp: or_long_tier_def long_tier_def Let_def split: option.splits prod.splits if_splits bool.splits)

lemma ps_probe_key: "ps_probe E d event = Some (key, port) \<Longrightarrow> key = ps_key E d (ev_source_ip event)"
  by (auto simp: ps_probe_def split: if_splits option.splits)

lemma ps_signal_net:
  assumes env: "det_env_spec E" and some: "fst (ps_process E d event) = Some x"
  shows "in_net (sg_source_ip x) (ev_source_ip event)"
proof -
  have key: "in_net (ps_key E d (ev_source_ip event)) (ev_source_ip event)"
    unfolding ps_key_def by (rule det_env_spec.source_key_ok(3) [OF env])
  show ?thesis
  proof (cases rule: ps_process_cases [of E d event])
    case ignored
    then show ?thesis using some by simp
  next
    case (refused s e k port)
    then show ?thesis
      using some key ps_probe_key [OF refused(1)] or_long_tier_net [of E s k port "ev_timestamp event" e x]
        subnet_tier_net [OF env] by auto
  next
    case (recorded s e k port v)
    have "s = Some x \<or> sg_source_ip x = k"
      using some recorded(5) or_long_tier_net [of E s k port "ev_timestamp event"]
      by (auto simp: short_signal_def split: if_splits option.splits)
    then show ?thesis
      using key ps_probe_key [OF recorded(1)] recorded(6) subnet_tier_net [OF env] by auto
  qed
qed

lemma or_long_tier_length: "length (ps_port_access (snd (or_long_tier E s key port now d))) \<le> length (ps_port_access d)"
proof -
  obtain ok e where ad: "ps_admit E ps_long_access (net_addr key) now d = (ok, e)" by fastforce
  then have "length (ps_port_access e) \<le> length (ps_port_access d)"
    by (auto simp: ps_admit_def sweep_def Let_def hm_retain_length split: if_splits)
  then show ?thesis by (cases ok) (simp_all add: or_long_tier_def long_tier_def ad Let_def split: option.split)
qed

lemma ps_process_length:
  assumes "ps_inv d"
  shows "length (ps_port_access (snd (ps_process E d event))) \<le> Suc (length (ps_port_access d))"
proof (cases rule: ps_process_cases [of E d event])
  case ignored
  then show ?thesis by simp
next
  case (refused s e k port)
  then show ?thesis
    using assms or_long_tier_length [of E s k port "ev_timestamp event" e] by (simp add: quiet_def)
next
  case (recorded s e k port v)
  have "length (ps_port_access e) \<le> length (ps_port_access d)" using recorded(2) assms by (simp add: quiet_def)
  then have ins: "length (hm_insert (net_addr k) v' (ps_port_access e)) \<le> Suc (length (ps_port_access d))" for v'
    using hm_length_insert_le [of "net_addr k" v' "ps_port_access e"] by simp
  then show ?thesis
    using order_trans [OF or_long_tier_length [of E s k port "ev_timestamp event"
        "e\<lparr>ps_port_access := hm_insert (net_addr k) v (ps_port_access e)\<rparr>"]]
    by (simp add: recorded(5))
qed

lemma ps_after_length:
  "ps_inv d \<Longrightarrow> length (ps_port_access (after (ps_process E) d es)) \<le> length (ps_port_access d) + length es"
proof (induction es arbitrary: d)
  case (Cons e es)
  then have "ps_inv (snd (ps_process E d e))" using ps_process_keeps [of E d e] by blast
  from Cons.IH [OF this] show ?case using ps_process_length [OF Cons.prems, of E e] by simp
qed simp



end
