(* ===== verification/Sigma_Condition.thy ===== *)
theory Sigma_Condition
  imports Strings
begin

text \<open>
  The condition language of the rule engine, \<open>hiveguard-sigma/src/condition.rs\<close>: the
  tokenizer, the recursive-descent parser and the evaluator. The tokenizer
  walks over the characters of the condition, each the string of its bytes; how Unicode
  classifies and lower-cases them is an argument of type \<open>unicode\<close>.

  The parser recurses on its nesting depth and loops over operators. Its functions take
  fuel and return \<open>None\<close> when it runs out; \<open>parse_fuel\<close> gives an amount that always
  suffices. Error messages are kept as the data that the code formats.
\<close>

record unicode =
  uc_alphabetic :: "string \<Rightarrow> bool"
  uc_numeric :: "string \<Rightarrow> bool"
  uc_to_lowercase :: "string \<Rightarrow> string"

definition uc_alphanumeric :: "unicode \<Rightarrow> string \<Rightarrow> bool" where
  "uc_alphanumeric U c \<longleftrightarrow> uc_alphabetic U c \<or> uc_numeric U c"

section \<open>Tokens\<close>

datatype Token =
    TIdent string | TAnd | TOr | TNot | TLParen | TRParen | TOf | TThem | TAll | TCount | TBy
  | TInteger u64 | TPipe | TGt | TGte | TLt | TLte | TEq

definition is_space :: "string \<Rightarrow> bool" where
  "is_space c \<longleftrightarrow> c \<in> {'' '', [char_of (9 :: nat)], [char_of (10 :: nat)], [char_of (13 :: nat)]}"

fun is_digit_char :: "string \<Rightarrow> bool" where
  "is_digit_char [b] = is_ascii_digit b"
| "is_digit_char _ = False"

definition ident_char :: "unicode \<Rightarrow> string \<Rightarrow> bool" where
  "ident_char U c \<longleftrightarrow> uc_alphanumeric U c \<or> c = ''_'' \<or> c = ''*'' \<or> c = ''.''"

definition keyword_token :: "unicode \<Rightarrow> string \<Rightarrow> Token" where
  "keyword_token U ident =
     (let l = uc_to_lowercase U ident
      in if l = ''and'' then TAnd else if l = ''or'' then TOr else if l = ''not'' then TNot
         else if l = ''of'' then TOf else if l = ''them'' then TThem else if l = ''all'' then TAll
         else if l = ''count'' then TCount else if l = ''by'' then TBy else TIdent ident)"

function tokenize_chars :: "unicode \<Rightarrow> string list \<Rightarrow> Token list" where
  "tokenize_chars U [] = []"
| "tokenize_chars U (c # cs) =
     (if is_space c then tokenize_chars U cs
      else if c = ''('' then TLParen # tokenize_chars U cs
      else if c = '')'' then TRParen # tokenize_chars U cs
      else if c = ''|'' then TPipe # tokenize_chars U cs
      else if c = ''>'' then
        (case cs of d # ds \<Rightarrow> if d = ''='' then TGte # tokenize_chars U ds else TGt # tokenize_chars U cs
         | [] \<Rightarrow> TGt # tokenize_chars U cs)
      else if c = ''<'' then
        (case cs of d # ds \<Rightarrow> if d = ''='' then TLte # tokenize_chars U ds else TLt # tokenize_chars U cs
         | [] \<Rightarrow> TLt # tokenize_chars U cs)
      else if c = ''='' then TEq # tokenize_chars U cs
      else if is_digit_char c then
        (let num = c # takeWhile is_digit_char cs; rest = dropWhile is_digit_char cs
         in case parse_unsigned (2 ^ 64 - 1) (concat num) of
              Some n \<Rightarrow> TInteger (of_nat n) # tokenize_chars U rest
            | None \<Rightarrow> tokenize_chars U rest)
      else if uc_alphabetic U c \<or> c = ''_'' then
        (let ident = c # takeWhile (ident_char U) cs
         in keyword_token U (concat ident) # tokenize_chars U (dropWhile (ident_char U) cs))
      else tokenize_chars U cs)"
  by pat_completeness auto
termination
  by (relation "measure (\<lambda>(_, s). length s)") (auto simp: le_imp_less_Suc length_dropWhile_le)

declare tokenize_chars.simps(2) [simp del]

definition tokenize :: "unicode \<Rightarrow> string \<Rightarrow> Token list" where
  "tokenize U input = tokenize_chars U (chars input)"

section \<open>Abstract syntax\<close>

datatype CompareOp = Gt | Gte | Lt | Lte | Eq

datatype NOfQuantifier = QN u64 | QAll

datatype SelectionPattern = Named string | Wildcard string | Them

datatype ConditionExpr =
    Selection string
  | Not ConditionExpr
  | And ConditionExpr ConditionExpr
  | Or ConditionExpr ConditionExpr
  | NOf NOfQuantifier SelectionPattern
  | CountAgg "string option" "string option" CompareOp u64

datatype cond_error =
    Expected Token "Token option"
  | UnexpectedToken Token nat
  | UnexpectedEnd
  | ExpectedPattern "Token option"
  | ExpectedComparison "Token option"
  | ExpectedInteger "Token option"

datatype SigmaError =
    YamlError | ParseError string | InvalidCondition cond_error | UnknownSelection string | RegexError
  | ConditionParse SigmaError

section \<open>The parser\<close>

record Parser =
  tokens :: "Token list"
  pos :: nat

type_synonym 'a parse_result = "(SigmaError + 'a \<times> Parser) option"
type_synonym 'a parser = "Parser \<Rightarrow> 'a parse_result"

definition parser_new :: "Token list \<Rightarrow> Parser" where
  "parser_new ts = \<lparr>tokens = ts, pos = 0\<rparr>"

definition peek :: "Parser \<Rightarrow> Token option" where
  "peek p = (if pos p < length (tokens p) then Some (tokens p ! pos p) else None)"

definition advance :: "Parser \<Rightarrow> Parser" where
  "advance p = (if peek p \<noteq> None then p\<lparr>pos := pos p + 1\<rparr> else p)"

text \<open>\<open>Parser::next\<close>: the token and the parser after it.\<close>

definition next_token :: "Parser \<Rightarrow> Token option \<times> Parser" where
  "next_token p = (peek p, advance p)"

definition preturn :: "'a \<Rightarrow> 'a parser" where
  "preturn x = (\<lambda>p. Some (Inr (x, p)))"

definition pfail :: "cond_error \<Rightarrow> 'a parser" where
  "pfail e = (\<lambda>p. Some (Inl (InvalidCondition e)))"

text \<open>The operator \<open>?\<close>: go on with the value, or return the error.\<close>

definition pbind :: "'a parser \<Rightarrow> ('a \<Rightarrow> 'b parser) \<Rightarrow> 'b parser" where
  "pbind m f = (\<lambda>p. case m p of
      Some (Inr (x, p')) \<Rightarrow> f x p'
    | Some (Inl e) \<Rightarrow> Some (Inl e)
    | None \<Rightarrow> None)"

definition expect :: "Token \<Rightarrow> unit parser" where
  "expect expected = (\<lambda>p. case next_token p of
      (Some t, p') \<Rightarrow> if t = expected then preturn () p' else pfail (Expected expected (Some t)) p'
    | (None, p') \<Rightarrow> pfail (Expected expected None) p')"

fun trim_end_stars :: "string \<Rightarrow> string" where
  "trim_end_stars s = rev (dropWhile (\<lambda>c. c = CHR ''*'') (rev s))"

definition parse_selection_pattern :: "SelectionPattern parser" where
  "parse_selection_pattern = (\<lambda>p. case peek p of
      Some TThem \<Rightarrow> preturn Them (advance p)
    | Some (TIdent name) \<Rightarrow>
        (if ends_with name ''*'' then preturn (Wildcard (trim_end_stars name)) (advance p)
         else preturn (Named name) (advance p))
    | Some t \<Rightarrow> pfail (ExpectedPattern (Some t)) p
    | None \<Rightarrow> pfail (ExpectedPattern None) p)"

text \<open>An optional identifier: consumed when it is there.\<close>

definition parse_ident_opt :: "string option parser" where
  "parse_ident_opt = (\<lambda>p. case peek p of
      Some (TIdent f) \<Rightarrow> preturn (Some f) (advance p)
    | _ \<Rightarrow> preturn None p)"

definition parse_group_by :: "string option parser" where
  "parse_group_by = (\<lambda>p. if peek p = Some TBy then parse_ident_opt (advance p) else preturn None p)"

definition parse_compare_op :: "CompareOp parser" where
  "parse_compare_op = (\<lambda>p. case next_token p of
      (Some TGt, p') \<Rightarrow> preturn Gt p'
    | (Some TGte, p') \<Rightarrow> preturn Gte p'
    | (Some TLt, p') \<Rightarrow> preturn Lt p'
    | (Some TLte, p') \<Rightarrow> preturn Lte p'
    | (Some TEq, p') \<Rightarrow> preturn Eq p'
    | (t, p') \<Rightarrow> pfail (ExpectedComparison t) p')"

definition parse_integer :: "u64 parser" where
  "parse_integer = (\<lambda>p. case next_token p of
      (Some (TInteger n), p') \<Rightarrow> preturn n p'
    | (t, p') \<Rightarrow> pfail (ExpectedInteger t) p')"

definition parse_count_agg :: "ConditionExpr parser" where
  "parse_count_agg = (\<lambda>p. pbind (expect TLParen) (\<lambda>_.
      pbind parse_ident_opt (\<lambda>field.
      pbind (expect TRParen) (\<lambda>_.
      pbind parse_group_by (\<lambda>group_by.
      pbind parse_compare_op (\<lambda>op.
      pbind parse_integer (\<lambda>value.
      preturn (CountAgg field group_by op value))))))) (advance p))"

definition parse_n_of :: "NOfQuantifier \<Rightarrow> ConditionExpr parser" where
  "parse_n_of n = pbind (expect TOf) (\<lambda>_. pbind parse_selection_pattern (\<lambda>pattern. preturn (NOf n pattern)))"

fun parse_or :: "nat \<Rightarrow> ConditionExpr parser"
  and or_loop :: "nat \<Rightarrow> ConditionExpr \<Rightarrow> ConditionExpr parser"
  and parse_and :: "nat \<Rightarrow> ConditionExpr parser"
  and and_loop :: "nat \<Rightarrow> ConditionExpr \<Rightarrow> ConditionExpr parser"
  and parse_not :: "nat \<Rightarrow> ConditionExpr parser"
  and parse_primary :: "nat \<Rightarrow> ConditionExpr parser" where
  "parse_or 0 = (\<lambda>p. None)"
| "parse_or (Suc n) = pbind (parse_and n) (\<lambda>left. or_loop n left)"
| "or_loop 0 left = (\<lambda>p. None)"
| "or_loop (Suc n) left = (\<lambda>p.
     if peek p = Some TOr
     then pbind (parse_and n) (\<lambda>right. or_loop n (Or left right)) (advance p)
     else preturn left p)"
| "parse_and 0 = (\<lambda>p. None)"
| "parse_and (Suc n) = pbind (parse_not n) (\<lambda>left. and_loop n left)"
| "and_loop 0 left = (\<lambda>p. None)"
| "and_loop (Suc n) left = (\<lambda>p.
     if peek p = Some TAnd \<or> peek p = Some TPipe
     then pbind (parse_not n) (\<lambda>right. and_loop n (And left right)) (advance p)
     else preturn left p)"
| "parse_not 0 = (\<lambda>p. None)"
| "parse_not (Suc n) = (\<lambda>p.
     if peek p = Some TNot
     then pbind (parse_not n) (\<lambda>inner. preturn (Not inner)) (advance p)
     else parse_primary n p)"
| "parse_primary 0 = (\<lambda>p. None)"
| "parse_primary (Suc n) = (\<lambda>p. case peek p of
       Some TLParen \<Rightarrow> pbind (parse_or n) (\<lambda>expr. pbind (expect TRParen) (\<lambda>_. preturn expr)) (advance p)
     | Some TCount \<Rightarrow> parse_count_agg p
     | Some TAll \<Rightarrow> parse_n_of QAll (advance p)
     | Some (TInteger k) \<Rightarrow> parse_n_of (QN k) (advance p)
     | Some (TIdent name) \<Rightarrow> preturn (Selection name) (advance p)
     | Some t \<Rightarrow> pfail (UnexpectedToken t (pos p)) p
     | None \<Rightarrow> pfail UnexpectedEnd p)"

definition parse_fuel :: "Token list \<Rightarrow> nat" where
  "parse_fuel ts = 4 * length ts + 4"

definition parse_condition :: "unicode \<Rightarrow> string \<Rightarrow> (SigmaError + ConditionExpr) option" where
  "parse_condition U input =
     (let ts = tokenize U input
      in case parse_or (parse_fuel ts) (parser_new ts) of
           Some (Inr (expr, _)) \<Rightarrow> Some (Inr expr)
         | Some (Inl e) \<Rightarrow> Some (Inl e)
         | None \<Rightarrow> None)"

section \<open>Evaluation\<close>

fun selection_pattern_matches :: "SelectionPattern \<Rightarrow> string \<Rightarrow> bool" where
  "selection_pattern_matches (Named n) name = (n = name)"
| "selection_pattern_matches (Wildcard prefix) name = starts_with name prefix"
| "selection_pattern_matches Them name = True"

text \<open>The name sets are lists without duplicates; \<open>required as usize\<close> is exact on 64-bit targets.\<close>

fun evaluate_condition :: "ConditionExpr \<Rightarrow> string list \<Rightarrow> string list \<Rightarrow> bool" where
  "evaluate_condition (Selection name) matched all_names = (name \<in> set matched)"
| "evaluate_condition (Not inner) matched all_names = (\<not> evaluate_condition inner matched all_names)"
| "evaluate_condition (And l r) matched all_names =
     (evaluate_condition l matched all_names \<and> evaluate_condition r matched all_names)"
| "evaluate_condition (Or l r) matched all_names =
     (evaluate_condition l matched all_names \<or> evaluate_condition r matched all_names)"
| "evaluate_condition (NOf n pattern) matched all_names =
     (let candidate_count = length (filter (selection_pattern_matches pattern) all_names);
          matching_count = length (filter (\<lambda>name. selection_pattern_matches pattern name \<and> name \<in> set matched) all_names)
      in case n of
           QAll \<Rightarrow> matching_count = candidate_count \<and> candidate_count > 0
         | QN required \<Rightarrow> matching_count \<ge> unat required)"
| "evaluate_condition (CountAgg _ _ _ _) matched all_names = True"

section \<open>The documented grammar\<close>

text \<open>
  The grammar of the module's documentation as a relation between token sequences and
  syntax trees: operators of the same level associate to the left, \<open>|\<close> is another \<open>and\<close>.
  A \<open>by\<close> without a field is accepted too, as the code does.
\<close>

fun pattern_token :: "Token \<Rightarrow> SelectionPattern option" where
  "pattern_token TThem = Some Them"
| "pattern_token (TIdent name) =
     Some (if ends_with name ''*'' then Wildcard (trim_end_stars name) else Named name)"
| "pattern_token _ = None"

fun op_token :: "Token \<Rightarrow> CompareOp option" where
  "op_token TGt = Some Gt"
| "op_token TGte = Some Gte"
| "op_token TLt = Some Lt"
| "op_token TLte = Some Lte"
| "op_token TEq = Some Eq"
| "op_token _ = None"

definition field_tokens :: "string option \<Rightarrow> Token list" where
  "field_tokens f = (case f of None \<Rightarrow> [] | Some s \<Rightarrow> [TIdent s])"

inductive by_tokens :: "Token list \<Rightarrow> string option \<Rightarrow> bool" where
  no_by: "by_tokens [] None"
| by_nothing: "by_tokens [TBy] None"
| by_field: "by_tokens [TBy, TIdent s] (Some s)"

inductive G_or :: "Token list \<Rightarrow> ConditionExpr \<Rightarrow> bool"
  and G_and :: "Token list \<Rightarrow> ConditionExpr \<Rightarrow> bool"
  and G_not :: "Token list \<Rightarrow> ConditionExpr \<Rightarrow> bool"
  and G_prim :: "Token list \<Rightarrow> ConditionExpr \<Rightarrow> bool" where
  or_one: "G_and ts e \<Longrightarrow> G_or ts e"
| or_more: "G_or ts l \<Longrightarrow> G_and us r \<Longrightarrow> G_or (ts @ TOr # us) (Or l r)"
| and_one: "G_not ts e \<Longrightarrow> G_and ts e"
| and_more: "G_and ts l \<Longrightarrow> G_not us r \<Longrightarrow> t \<in> {TAnd, TPipe} \<Longrightarrow> G_and (ts @ t # us) (And l r)"
| not_prim: "G_prim ts e \<Longrightarrow> G_not ts e"
| not_not: "G_not ts e \<Longrightarrow> G_not (TNot # ts) (Not e)"
| prim_paren: "G_or ts e \<Longrightarrow> G_prim (TLParen # ts @ [TRParen]) e"
| prim_all: "pattern_token t = Some pat \<Longrightarrow> G_prim [TAll, TOf, t] (NOf QAll pat)"
| prim_n: "pattern_token t = Some pat \<Longrightarrow> G_prim [TInteger n, TOf, t] (NOf (QN n) pat)"
| prim_name: "G_prim [TIdent s] (Selection s)"
| prim_count: "by_tokens bs g \<Longrightarrow> op_token t = Some op \<Longrightarrow>
    G_prim (TCount # TLParen # field_tokens f @ TRParen # bs @ [t, TInteger v]) (CountAgg f g op v)"

lemma grammar_nonempty: "(G_or ts e \<longrightarrow> ts \<noteq> []) \<and> (G_and us f \<longrightarrow> us \<noteq> []) \<and> (G_not vs g \<longrightarrow> vs \<noteq> []) \<and> (G_prim ws h \<longrightarrow> ws \<noteq> [])"
  by (induction rule: G_or_G_and_G_not_G_prim.induct) auto

section \<open>Reading tokens\<close>

abbreviation rest :: "Parser \<Rightarrow> Token list" where
  "rest p \<equiv> drop (pos p) (tokens p)"

text \<open>\<open>reads p ts q\<close>: the parser moves from \<open>p\<close> to \<open>q\<close> over exactly the tokens \<open>ts\<close>.\<close>

definition reads :: "Parser \<Rightarrow> Token list \<Rightarrow> Parser \<Rightarrow> bool" where
  "reads p ts q \<longleftrightarrow> q = p\<lparr>pos := pos p + length ts\<rparr> \<and> (\<exists>us. rest p = ts @ us)"

lemma reads_Nil [simp]: "reads p [] q \<longleftrightarrow> q = p"
  by (simp add: reads_def)

lemma reads_append: "reads p (ts @ us) q \<longleftrightarrow> (\<exists>m. reads p ts m \<and> reads m us q)"
proof
  assume "reads p (ts @ us) q"
  then obtain vs where q: "q = p\<lparr>pos := pos p + length (ts @ us)\<rparr>" and r: "rest p = ts @ us @ vs"
    by (auto simp: reads_def)
  have "drop (pos p + length ts) (tokens p) = us @ vs"
    using r by (metis add.commute append_eq_conv_conj drop_drop)
  then show "\<exists>m. reads p ts m \<and> reads m us q"
    using q r by (intro exI [of _ "p\<lparr>pos := pos p + length ts\<rparr>"]) (auto simp: reads_def)
next
  assume "\<exists>m. reads p ts m \<and> reads m us q"
  then obtain vs ws where r: "rest p = ts @ vs" "drop (pos p + length ts) (tokens p) = us @ ws"
      and q: "q = p\<lparr>pos := pos p + length ts + length us\<rparr>"
    by (auto simp: reads_def)
  then have "vs = us @ ws" by (metis add.commute append_eq_conv_conj drop_drop)
  then show "reads p (ts @ us) q" using r q by (auto simp: reads_def add.assoc)
qed

lemma peek_rest: "peek p = (case rest p of [] \<Rightarrow> None | t # _ \<Rightarrow> Some t)"
proof (cases "pos p < length (tokens p)")
  case True
  then have "rest p = tokens p ! pos p # drop (Suc (pos p)) (tokens p)" by (rule Cons_nth_drop_Suc [symmetric])
  then show ?thesis using True by (simp add: peek_def)
qed (simp add: peek_def)

lemma reads_one: "reads p [t] q \<longleftrightarrow> peek p = Some t \<and> q = advance p"
  by (auto simp: reads_def peek_rest advance_def split: list.splits)

lemma reads_Cons: "reads p (t # ts) q \<longleftrightarrow> peek p = Some t \<and> reads (advance p) ts q"
  using reads_append [of p "[t]" ts q] by (auto simp: reads_one)

lemma reads_length: "reads p ts q \<Longrightarrow> length (rest p) = length ts + length (rest q)"
  by (auto simp: reads_def) (metis diff_diff_left length_append length_drop add_diff_cancel_left')

lemma reads_tokens: "reads p ts q \<Longrightarrow> tokens q = tokens p"
  by (auto simp: reads_def)

lemma bind_Inr: "pbind m f p = Some (Inr (y, q)) \<longleftrightarrow> (\<exists>x r. m p = Some (Inr (x, r)) \<and> f x r = Some (Inr (y, q)))"
  by (auto simp: pbind_def split: option.splits sum.splits prod.splits)

lemma bind_None: "pbind m f p = None \<longleftrightarrow> m p = None \<or> (\<exists>x r. m p = Some (Inr (x, r)) \<and> f x r = None)"
  by (auto simp: pbind_def split: option.splits sum.splits prod.splits)

lemma bind_total:
  "m p \<noteq> None \<Longrightarrow> (\<And>x q. m p = Some (Inr (x, q)) \<Longrightarrow> f x q \<noteq> None) \<Longrightarrow> pbind m f p \<noteq> None"
  by (auto simp: bind_None)

lemma return_Inr: "preturn x p = Some (Inr (y, q)) \<longleftrightarrow> y = x \<and> q = p"
  by (auto simp: preturn_def)

lemma fail_Inr [simp]: "pfail e p \<noteq> Some (Inr r)" "pfail e p \<noteq> None" "preturn x p \<noteq> None"
  by (simp_all add: pfail_def preturn_def)

lemma expect_Inr: "expect t p = Some (Inr (u, q)) \<longleftrightarrow> reads p [t] q"
  by (auto simp: expect_def next_token_def reads_one return_Inr split: option.splits)

lemma pattern_Inr:
  "parse_selection_pattern p = Some (Inr (pat, q)) \<longleftrightarrow> (\<exists>t. reads p [t] q \<and> pattern_token t = Some pat)"
  by (auto simp: parse_selection_pattern_def reads_one return_Inr split: option.splits Token.splits)

lemma ident_opt_Inr:
  "parse_ident_opt p = Some (Inr (f, q)) \<longleftrightarrow> reads p (field_tokens f) q \<and> (f = None \<longrightarrow> (\<forall>s. peek p \<noteq> Some (TIdent s)))"
  by (auto simp: parse_ident_opt_def field_tokens_def reads_one return_Inr split: option.splits Token.splits)

lemma group_by_Inr:
  "parse_group_by p = Some (Inr (g, q)) \<longleftrightarrow>
   (if peek p = Some TBy then reads p (TBy # field_tokens g) q \<and> (g = None \<longrightarrow> (\<forall>s. peek (advance p) \<noteq> Some (TIdent s)))
    else g = None \<and> q = p)"
  by (auto simp: parse_group_by_def ident_opt_Inr reads_Cons return_Inr)

lemma compare_op_Inr: "parse_compare_op p = Some (Inr (op, q)) \<longleftrightarrow> (\<exists>t. reads p [t] q \<and> op_token t = Some op)"
  by (auto simp: parse_compare_op_def next_token_def reads_one return_Inr split: option.splits Token.splits)

lemma integer_Inr: "parse_integer p = Some (Inr (v, q)) \<longleftrightarrow> reads p [TInteger v] q"
  by (auto simp: parse_integer_def next_token_def reads_one return_Inr split: option.splits Token.splits)

lemmas small_Inr = expect_Inr pattern_Inr ident_opt_Inr group_by_Inr compare_op_Inr integer_Inr bind_Inr return_Inr

lemma n_of_Inr: "parse_n_of n p = Some (Inr (e, q)) \<longleftrightarrow> (\<exists>t pat. reads p [TOf, t] q \<and> pattern_token t = Some pat \<and> e = NOf n pat)"
  by (auto simp: parse_n_of_def small_Inr reads_Cons)

lemma small_total [simp]:
  "expect t p \<noteq> None" "parse_selection_pattern p \<noteq> None" "parse_ident_opt p \<noteq> None" "parse_group_by p \<noteq> None"
  "parse_compare_op p \<noteq> None" "parse_integer p \<noteq> None"
  by (auto simp: expect_def parse_selection_pattern_def parse_ident_opt_def parse_group_by_def parse_compare_op_def
      parse_integer_def next_token_def preturn_def pfail_def split: option.splits Token.splits)

lemma by_tokens_iff: "by_tokens bs g \<longleftrightarrow> bs = [] \<and> g = None \<or> bs = TBy # field_tokens g"
  by (auto simp: by_tokens.simps field_tokens_def split: option.splits)

lemma op_token_not: "op_token t = Some op \<Longrightarrow> t \<noteq> TBy \<and> t \<noteq> TIdent s"
  by auto

lemma count_sound:
  assumes "peek p = Some TCount" "parse_count_agg p = Some (Inr (e, q))"
  shows "\<exists>ts. reads p ts q \<and> G_prim ts e"
proof -
  obtain f g op v p2 p3 p4 p5 p6 t bs where e: "e = CountAgg f g op v"
    and r: "reads (advance p) [TLParen] p2" "reads p2 (field_tokens f) p3" "reads p3 [TRParen] p4"
      "reads p4 bs p5" "by_tokens bs g" "reads p5 [t] p6" "op_token t = Some op" "reads p6 [TInteger v] q"
  proof -
    obtain f g op v p2 p3 p4 p5 p6 t where *: "e = CountAgg f g op v" "reads (advance p) [TLParen] p2"
      "reads p2 (field_tokens f) p3" "reads p3 [TRParen] p4" "parse_group_by p4 = Some (Inr (g, p5))"
      "reads p5 [t] p6" "op_token t = Some op" "reads p6 [TInteger v] q"
      using assms(2) by (auto simp: parse_count_agg_def expect_Inr ident_opt_Inr compare_op_Inr integer_Inr bind_Inr return_Inr)
    from *(5) have "\<exists>bs. reads p4 bs p5 \<and> by_tokens bs g"
      by (auto simp: group_by_Inr by_tokens_iff intro: exI [of _ "[]"] split: if_splits)
    then show ?thesis using * that by blast
  qed
  have "reads p ([TCount] @ [TLParen] @ field_tokens f @ [TRParen] @ bs @ [t] @ [TInteger v]) q"
    unfolding reads_append using r assms(1) by (auto simp: reads_one)
  then show ?thesis using prim_count [OF r(5,7), of f v] e by auto
qed

lemma count_complete:
  assumes "reads p (TCount # TLParen # field_tokens f @ TRParen # bs @ [t, TInteger v]) q"
    and "by_tokens bs g" "op_token t = Some op"
  shows "parse_count_agg p = Some (Inr (CountAgg f g op v, q))"
proof -
  obtain p2 p3 p4 p5 p6 where r: "reads (advance p) [TLParen] p2" "reads p2 (field_tokens f) p3" "reads p3 [TRParen] p4"
      "reads p4 bs p5" "reads p5 [t] p6" "reads p6 [TInteger v] q"
    using assms(1) reads_append [of _ "field_tokens f" "TRParen # bs @ [t, TInteger v]"]
      reads_append [of _ bs "[t, TInteger v]"]
    by (auto simp: reads_Cons)
  have "f = None \<longrightarrow> (\<forall>s. peek p2 \<noteq> Some (TIdent s))"
    using r(2,3) by (auto simp: field_tokens_def reads_one)
  moreover have "parse_group_by p4 = Some (Inr (g, p5))"
    using assms(2,3) r(4,5) op_token_not
    by (cases g) (auto simp: group_by_Inr by_tokens_iff field_tokens_def reads_Cons)
  ultimately have "expect TLParen (advance p) = Some (Inr ((), p2))" "parse_ident_opt p2 = Some (Inr (f, p3))"
      "expect TRParen p3 = Some (Inr ((), p4))" "parse_group_by p4 = Some (Inr (g, p5))"
      "parse_compare_op p5 = Some (Inr (op, p6))" "parse_integer p6 = Some (Inr (v, q))"
    using r assms(3) by (auto simp: expect_Inr ident_opt_Inr compare_op_Inr integer_Inr)
  then show ?thesis by (simp add: parse_count_agg_def pbind_def preturn_def)
qed

section \<open>The parser implements the grammar\<close>

abbreviation stops :: "Token set \<Rightarrow> Parser \<Rightarrow> bool" where
  "stops S p \<equiv> (\<forall>t \<in> S. peek p \<noteq> Some t)"

lemma prim_sound_step:
  assumes "\<And>p e q. parse_or n p = Some (Inr (e, q)) \<Longrightarrow> \<exists>ts. reads p ts q \<and> G_or ts e"
    and "parse_primary (Suc n) p = Some (Inr (e, q))"
  shows "\<exists>ts. reads p ts q \<and> G_prim ts e"
proof -
  obtain t where t: "peek p = Some t" using assms(2) by (cases "peek p") auto
  show ?thesis
  proof (cases t)
    case TLParen
    then obtain m where "parse_or n (advance p) = Some (Inr (e, m))" "reads m [TRParen] q"
      using assms(2) t by (auto simp: small_Inr)
    then obtain ts where "reads (advance p) ts m" "G_or ts e" using assms(1) by blast
    then show ?thesis
      using t TLParen \<open>reads m [TRParen] q\<close> prim_paren
      by (intro exI [of _ "TLParen # ts @ [TRParen]"]) (auto simp: reads_Cons reads_append)
  next
    case TCount
    then show ?thesis using assms(2) t count_sound [of p e q] by simp
  next
    case TAll
    then obtain u pat where "reads (advance p) [TOf, u] q" "pattern_token u = Some pat" "e = NOf QAll pat"
      using assms(2) t by (auto simp: n_of_Inr)
    then show ?thesis using t TAll prim_all by (intro exI [of _ "[TAll, TOf, u]"]) (auto simp: reads_Cons)
  next
    case (TInteger k)
    then obtain u pat where "reads (advance p) [TOf, u] q" "pattern_token u = Some pat" "e = NOf (QN k) pat"
      using assms(2) t by (auto simp: n_of_Inr)
    then show ?thesis using t TInteger prim_n by (intro exI [of _ "[TInteger k, TOf, u]"]) (auto simp: reads_Cons)
  next
    case (TIdent s)
    then show ?thesis
      using assms(2) t prim_name by (intro exI [of _ "[TIdent s]"]) (auto simp: reads_one return_Inr)
  qed (use assms(2) t in simp_all)
qed

lemma parser_sound:
  "(\<forall>p e q. parse_or n p = Some (Inr (e, q)) \<longrightarrow> (\<exists>ts. reads p ts q \<and> G_or ts e) \<and> stops {TOr, TAnd, TPipe} q)
   \<and> (\<forall>l p e q ts. or_loop n l p = Some (Inr (e, q)) \<longrightarrow> G_or ts l \<longrightarrow> stops {TAnd, TPipe} p \<longrightarrow>
        (\<exists>us. reads p us q \<and> G_or (ts @ us) e) \<and> stops {TOr, TAnd, TPipe} q)
   \<and> (\<forall>p e q. parse_and n p = Some (Inr (e, q)) \<longrightarrow> (\<exists>ts. reads p ts q \<and> G_and ts e) \<and> stops {TAnd, TPipe} q)
   \<and> (\<forall>l p e q ts. and_loop n l p = Some (Inr (e, q)) \<longrightarrow> G_and ts l \<longrightarrow>
        (\<exists>us. reads p us q \<and> G_and (ts @ us) e) \<and> stops {TAnd, TPipe} q)
   \<and> (\<forall>p e q. parse_not n p = Some (Inr (e, q)) \<longrightarrow> (\<exists>ts. reads p ts q \<and> G_not ts e))
   \<and> (\<forall>p e q. parse_primary n p = Some (Inr (e, q)) \<longrightarrow> (\<exists>ts. reads p ts q \<and> G_prim ts e))"
proof (induction n)
  case (Suc n)
  note or = Suc.IH [THEN conjunct1] and orl = Suc.IH [THEN conjunct2, THEN conjunct1]
    and an = Suc.IH [THEN conjunct2, THEN conjunct2, THEN conjunct1]
    and anl = Suc.IH [THEN conjunct2, THEN conjunct2, THEN conjunct2, THEN conjunct1]
    and no = Suc.IH [THEN conjunct2, THEN conjunct2, THEN conjunct2, THEN conjunct2, THEN conjunct1]
    and pr = Suc.IH [THEN conjunct2, THEN conjunct2, THEN conjunct2, THEN conjunct2, THEN conjunct2]
  show ?case
  proof (intro conjI allI impI)
    fix p e q assume "parse_primary (Suc n) p = Some (Inr (e, q))"
    then show "\<exists>ts. reads p ts q \<and> G_prim ts e" using or by (intro prim_sound_step) blast+
  next
    fix p e q assume *: "parse_not (Suc n) p = Some (Inr (e, q))"
    show "\<exists>ts. reads p ts q \<and> G_not ts e"
    proof (cases "peek p = Some TNot")
      case True
      then obtain i ts where "reads (advance p) ts q" "G_not ts i" "e = Not i"
        using * no by (auto simp: small_Inr) blast
      then show ?thesis using True not_not by (intro exI [of _ "TNot # ts"]) (auto simp: reads_Cons)
    next
      case False
      then show ?thesis using * pr not_prim by fastforce
    qed
  next
    fix l p e q ts assume *: "and_loop (Suc n) l p = Some (Inr (e, q))" and l: "G_and ts l"
    have "(\<exists>us. reads p us q \<and> G_and (ts @ us) e) \<and> stops {TAnd, TPipe} q"
    proof (cases "peek p = Some TAnd \<or> peek p = Some TPipe")
      case True
      then obtain t where t: "peek p = Some t" "t \<in> {TAnd, TPipe}" by auto
      obtain r m us where r: "reads (advance p) us m" "G_not us r" "and_loop n (And l r) m = Some (Inr (e, q))"
        using * True no by (auto simp: small_Inr) blast+
      then obtain vs where "reads m vs q" "G_and ((ts @ t # us) @ vs) e" "stops {TAnd, TPipe} q"
        using anl and_more [OF l r(2) t(2)] by blast
      then show ?thesis using r(1) t(1) by (intro conjI exI [of _ "t # us @ vs"]) (auto simp: reads_Cons reads_append)
    next
      case False
      then show ?thesis using * l by (auto simp: return_Inr intro: exI [of _ "[]"])
    qed
    then show "\<exists>us. reads p us q \<and> G_and (ts @ us) e" "stops {TAnd, TPipe} q" by blast+
  next
    fix p e q assume "parse_and (Suc n) p = Some (Inr (e, q))"
    then obtain l m ts where "reads p ts m" "G_not ts l" "and_loop n l m = Some (Inr (e, q))"
      using no by (auto simp: small_Inr) blast
    then have "\<exists>us. reads m us q \<and> G_and (ts @ us) e" "stops {TAnd, TPipe} q" using anl and_one by blast+
    then show "\<exists>ts. reads p ts q \<and> G_and ts e" "stops {TAnd, TPipe} q"
      using \<open>reads p ts m\<close> reads_append by blast+
  next
    fix l p e q ts assume *: "or_loop (Suc n) l p = Some (Inr (e, q))" and l: "G_or ts l" and st: "stops {TAnd, TPipe} p"
    have "(\<exists>us. reads p us q \<and> G_or (ts @ us) e) \<and> stops {TOr, TAnd, TPipe} q"
    proof (cases "peek p = Some TOr")
      case True
      obtain r m us where r: "reads (advance p) us m" "G_and us r" "stops {TAnd, TPipe} m"
          "or_loop n (Or l r) m = Some (Inr (e, q))"
        using * True an by (auto simp: small_Inr) blast+
      then obtain vs where "reads m vs q" "G_or ((ts @ TOr # us) @ vs) e" "stops {TOr, TAnd, TPipe} q"
        using orl or_more [OF l r(2)] by blast
      then show ?thesis using r(1) True by (intro conjI exI [of _ "TOr # us @ vs"]) (auto simp: reads_Cons reads_append)
    next
      case False
      then show ?thesis using * l st by (auto simp: return_Inr intro: exI [of _ "[]"])
    qed
    then show "\<exists>us. reads p us q \<and> G_or (ts @ us) e" "stops {TOr, TAnd, TPipe} q" by blast+
  next
    fix p e q assume "parse_or (Suc n) p = Some (Inr (e, q))"
    then obtain l m ts where "reads p ts m" "G_and ts l" "stops {TAnd, TPipe} m" "or_loop n l m = Some (Inr (e, q))"
      using an by (auto simp: small_Inr) blast
    then have "\<exists>us. reads m us q \<and> G_or (ts @ us) e" "stops {TOr, TAnd, TPipe} q" using orl or_one by blast+
    then show "\<exists>ts. reads p ts q \<and> G_or ts e" "stops {TOr, TAnd, TPipe} q"
      using \<open>reads p ts m\<close> reads_append by blast+
  qed
qed simp

lemma or_sound: "parse_or n p = Some (Inr (e, q)) \<Longrightarrow> (\<exists>ts. reads p ts q \<and> G_or ts e) \<and> stops {TOr, TAnd, TPipe} q"
  using parser_sound [of n, THEN conjunct1] by blast

lemma and_sound: "parse_and n p = Some (Inr (e, q)) \<Longrightarrow> \<exists>ts. reads p ts q \<and> G_and ts e"
  using parser_sound [of n, THEN conjunct2, THEN conjunct2, THEN conjunct1] by blast

lemma not_sound: "parse_not n p = Some (Inr (e, q)) \<Longrightarrow> \<exists>ts. reads p ts q \<and> G_not ts e"
  using parser_sound [of n, THEN conjunct2, THEN conjunct2, THEN conjunct2, THEN conjunct2, THEN conjunct1] by blast

text \<open>More fuel does not change a result.\<close>

lemma bind_mono:
  "pbind m f p = Some r \<Longrightarrow> (\<And>s. m p = Some s \<Longrightarrow> m' p = Some s) \<Longrightarrow>
   (\<And>x q s. f x q = Some s \<Longrightarrow> f' x q = Some s) \<Longrightarrow> pbind m' f' p = Some r"
  by (auto simp: pbind_def split: option.splits sum.splits prod.splits)

lemma fuel_step:
  "(\<forall>p r. parse_or n p = Some r \<longrightarrow> parse_or (Suc n) p = Some r)
   \<and> (\<forall>l p r. or_loop n l p = Some r \<longrightarrow> or_loop (Suc n) l p = Some r)
   \<and> (\<forall>p r. parse_and n p = Some r \<longrightarrow> parse_and (Suc n) p = Some r)
   \<and> (\<forall>l p r. and_loop n l p = Some r \<longrightarrow> and_loop (Suc n) l p = Some r)
   \<and> (\<forall>p r. parse_not n p = Some r \<longrightarrow> parse_not (Suc n) p = Some r)
   \<and> (\<forall>p r. parse_primary n p = Some r \<longrightarrow> parse_primary (Suc n) p = Some r)"
proof (induction n)
  case (Suc n)
  note IH = Suc.IH
  show ?case
  proof (intro conjI allI impI)
    fix p r assume "parse_primary (Suc n) p = Some r"
    then show "parse_primary (Suc (Suc n)) p = Some r"
      using IH unfolding parse_primary.simps
      by (cases "peek p"; cases "the (peek p)") (auto elim!: bind_mono)
  next
    fix p r assume "parse_not (Suc n) p = Some r"
    then show "parse_not (Suc (Suc n)) p = Some r"
      using IH unfolding parse_not.simps by (cases "peek p = Some TNot") (auto elim!: bind_mono)
  next
    fix l p r assume "and_loop (Suc n) l p = Some r"
    then show "and_loop (Suc (Suc n)) l p = Some r"
      using IH unfolding and_loop.simps by (cases "peek p = Some TAnd \<or> peek p = Some TPipe") (auto elim!: bind_mono)
  next
    fix p r assume "parse_and (Suc n) p = Some r"
    then show "parse_and (Suc (Suc n)) p = Some r" using IH unfolding parse_and.simps by (auto elim!: bind_mono)
  next
    fix l p r assume "or_loop (Suc n) l p = Some r"
    then show "or_loop (Suc (Suc n)) l p = Some r"
      using IH unfolding or_loop.simps by (cases "peek p = Some TOr") (auto elim!: bind_mono)
  next
    fix p r assume "parse_or (Suc n) p = Some r"
    then show "parse_or (Suc (Suc n)) p = Some r" using IH unfolding parse_or.simps by (auto elim!: bind_mono)
  qed
qed simp

lemma fuel_mono:
  assumes "n \<le> m"
  shows "parse_or n p = Some r \<Longrightarrow> parse_or m p = Some r" "or_loop n l p = Some r \<Longrightarrow> or_loop m l p = Some r"
    "parse_and n p = Some r \<Longrightarrow> parse_and m p = Some r" "and_loop n l p = Some r \<Longrightarrow> and_loop m l p = Some r"
    "parse_not n p = Some r \<Longrightarrow> parse_not m p = Some r" "parse_primary n p = Some r \<Longrightarrow> parse_primary m p = Some r"
  using assms fuel_step by (induction rule: dec_induct) blast+

text \<open>
  Completeness. Whatever the loop makes of the tokens after a sequence of the grammar,
  the parser makes of the whole.
\<close>

lemma bind_run: "m p = Some (Inr (x, q)) \<Longrightarrow> f x q = Some r \<Longrightarrow> pbind m f p = Some r"
  by (simp add: pbind_def)

lemma grammar_complete:
  "(G_or ts e \<longrightarrow> (\<forall>p q r. reads p ts q \<longrightarrow> stops {TAnd, TPipe} q \<longrightarrow>
      (\<exists>n. or_loop n e q = Some r) \<longrightarrow> (\<exists>n. parse_or n p = Some r)))
   \<and> (G_and us f \<longrightarrow> (\<forall>p q r. reads p us q \<longrightarrow> (\<exists>n. and_loop n f q = Some r) \<longrightarrow> (\<exists>n. parse_and n p = Some r)))
   \<and> (G_not vs g \<longrightarrow> (\<forall>p q. reads p vs q \<longrightarrow> (\<exists>n. parse_not n p = Some (Inr (g, q)))))
   \<and> (G_prim ws h \<longrightarrow> (\<forall>p q. reads p ws q \<longrightarrow> (\<exists>n. parse_primary n p = Some (Inr (h, q)))))"
proof (induction rule: G_or_G_and_G_not_G_prim.induct)
  case (or_one ts e)
  show ?case
  proof (intro allI impI)
    fix p q r assume *: "reads p ts q" "stops {TAnd, TPipe} q" "\<exists>n. or_loop n e q = Some r"
    have "and_loop 1 e q = Some (Inr (e, q))" using *(2) by (simp add: preturn_def)
    then obtain n where "parse_and n p = Some (Inr (e, q))" using or_one *(1) by blast
    moreover obtain k where "or_loop k e q = Some r" using *(3) by blast
    ultimately have "parse_or (Suc (max n k)) p = Some r"
      using fuel_mono(3) [of n "max n k"] fuel_mono(2) [of k "max n k"] by (simp add: bind_run)
    then show "\<exists>n. parse_or n p = Some r" ..
  qed
next
  case (or_more ts l us r)
  show ?case
  proof (intro allI impI)
    fix p q s assume *: "reads p (ts @ TOr # us) q" "stops {TAnd, TPipe} q" "\<exists>n. or_loop n (Or l r) q = Some s"
    obtain m where m: "reads p ts m" "peek m = Some TOr" "reads (advance m) us q"
      using *(1) by (auto simp: reads_append reads_Cons)
    have "and_loop 1 r q = Some (Inr (r, q))" using *(2) by (simp add: preturn_def)
    then obtain n where "parse_and n (advance m) = Some (Inr (r, q))" using or_more m(3) by blast
    moreover obtain k where "or_loop k (Or l r) q = Some s" using *(3) by blast
    ultimately have "or_loop (Suc (max n k)) l m = Some s"
      using m(2) fuel_mono(3) [of n "max n k"] fuel_mono(2) [of k "max n k"] by (simp add: bind_run)
    moreover have "stops {TAnd, TPipe} m" using m(2) by simp
    ultimately show "\<exists>n. parse_or n p = Some s" using or_more.IH(1) m(1) by blast
  qed
next
  case (and_one ts e)
  show ?case
  proof (intro allI impI)
    fix p q r assume *: "reads p ts q" "\<exists>n. and_loop n e q = Some r"
    then obtain n k where "parse_not n p = Some (Inr (e, q))" "and_loop k e q = Some r" using and_one by blast
    then have "parse_and (Suc (max n k)) p = Some r"
      using fuel_mono(5) [of n "max n k"] fuel_mono(4) [of k "max n k"] by (simp add: bind_run)
    then show "\<exists>n. parse_and n p = Some r" ..
  qed
next
  case (and_more ts l us r t)
  show ?case
  proof (intro allI impI)
    fix p q s assume *: "reads p (ts @ t # us) q" "\<exists>n. and_loop n (And l r) q = Some s"
    obtain m where m: "reads p ts m" "peek m = Some t" "reads (advance m) us q"
      using *(1) by (auto simp: reads_append reads_Cons)
    obtain n k where "parse_not n (advance m) = Some (Inr (r, q))" "and_loop k (And l r) q = Some s"
      using and_more *(2) m(3) by blast
    then have "and_loop (Suc (max n k)) l m = Some s"
      using m(2) and_more.hyps(3) fuel_mono(5) [of n "max n k"] fuel_mono(4) [of k "max n k"]
      by (auto simp: bind_run)
    then show "\<exists>n. parse_and n p = Some s" using and_more m by blast
  qed
next
  case (not_prim ts e)
  show ?case
  proof (intro allI impI)
    fix p q assume r: "reads p ts q"
    then obtain n where n: "parse_primary n p = Some (Inr (e, q))" using not_prim by blast
    have "peek p \<noteq> Some TNot" using n by (cases n) auto
    then have "parse_not (Suc n) p = Some (Inr (e, q))" using n by simp
    then show "\<exists>n. parse_not n p = Some (Inr (e, q))" ..
  qed
next
  case (not_not ts e)
  show ?case
  proof (intro allI impI)
    fix p q assume "reads p (TNot # ts) q"
    then obtain n where "parse_not n (advance p) = Some (Inr (e, q))" "peek p = Some TNot"
      using not_not by (auto simp: reads_Cons)
    then have "parse_not (Suc n) p = Some (Inr (Not e, q))" by (simp add: pbind_def preturn_def)
    then show "\<exists>n. parse_not n p = Some (Inr (Not e, q))" ..
  qed
next
  case (prim_paren ts e)
  show ?case
  proof (intro allI impI)
    fix p q assume "reads p (TLParen # ts @ [TRParen]) q"
    then obtain m where m: "peek p = Some TLParen" "reads (advance p) ts m" "reads m [TRParen] q"
      by (auto simp: reads_Cons reads_append)
    have "or_loop 1 e m = Some (Inr (e, m))" using m(3) by (simp add: reads_one preturn_def)
    moreover have "stops {TAnd, TPipe} m" using m(3) by (simp add: reads_one)
    ultimately obtain n where "parse_or n (advance p) = Some (Inr (e, m))" using prim_paren m(2) by blast
    then have "parse_primary (Suc n) p = Some (Inr (e, q))" using m by (simp add: small_Inr)
    then show "\<exists>n. parse_primary n p = Some (Inr (e, q))" ..
  qed
next
  case (prim_all t pat)
  then show ?case by (intro allI impI exI [of _ 1]) (auto simp: reads_Cons n_of_Inr)
next
  case (prim_n t pat k)
  then show ?case by (intro allI impI exI [of _ 1]) (auto simp: reads_Cons n_of_Inr)
next
  case (prim_name s)
  show ?case by (intro allI impI exI [of _ 1]) (auto simp: reads_one return_Inr)
next
  case (prim_count bs g t op f v)
  show ?case
  proof (intro allI impI exI [of _ 1])
    fix p q assume *: "reads p (TCount # TLParen # field_tokens f @ TRParen # bs @ [t, TInteger v]) q"
    then have "peek p = Some TCount" by (simp add: reads_Cons)
    then show "parse_primary 1 p = Some (Inr (CountAgg f g op v, q))" using count_complete [OF * prim_count] by simp
  qed
qed

lemma or_complete:
  assumes "G_or ts e" "reads p ts q" "stops {TOr, TAnd, TPipe} q"
  shows "\<exists>n. parse_or n p = Some (Inr (e, q))"
proof -
  have "or_loop 1 e q = Some (Inr (e, q))" using assms(3) by (simp add: preturn_def)
  moreover have "stops {TAnd, TPipe} q" using assms(3) by simp
  ultimately show ?thesis using grammar_complete [THEN conjunct1] assms(1,2) by blast
qed

text \<open>Totality: each function needs four units of fuel per remaining token and a few more.\<close>

lemma reads_shorter:
  "reads p ts q \<Longrightarrow> ts \<noteq> [] \<Longrightarrow> length (rest q) < length (rest p)"
  using reads_length by fastforce

lemma advance_shorter: "peek p = Some t \<Longrightarrow> length (rest (advance p)) < length (rest p)"
  using reads_shorter [of p "[t]" "advance p"] by (simp add: reads_one)

lemma parser_total:
  "(\<forall>p. 4 * length (rest p) + 4 \<le> n \<longrightarrow> parse_or n p \<noteq> None)
   \<and> (\<forall>l p. 4 * length (rest p) + 4 \<le> n \<longrightarrow> or_loop n l p \<noteq> None)
   \<and> (\<forall>p. 4 * length (rest p) + 3 \<le> n \<longrightarrow> parse_and n p \<noteq> None)
   \<and> (\<forall>l p. 4 * length (rest p) + 3 \<le> n \<longrightarrow> and_loop n l p \<noteq> None)
   \<and> (\<forall>p. 4 * length (rest p) + 2 \<le> n \<longrightarrow> parse_not n p \<noteq> None)
   \<and> (\<forall>p. 4 * length (rest p) + 1 \<le> n \<longrightarrow> parse_primary n p \<noteq> None)"
proof (induction n)
  case (Suc n)
  note or = Suc.IH [THEN conjunct1] and orl = Suc.IH [THEN conjunct2, THEN conjunct1]
    and an = Suc.IH [THEN conjunct2, THEN conjunct2, THEN conjunct1]
    and anl = Suc.IH [THEN conjunct2, THEN conjunct2, THEN conjunct2, THEN conjunct1]
    and no = Suc.IH [THEN conjunct2, THEN conjunct2, THEN conjunct2, THEN conjunct2, THEN conjunct1]
    and pr = Suc.IH [THEN conjunct2, THEN conjunct2, THEN conjunct2, THEN conjunct2, THEN conjunct2]
  have not_short: "length (rest q) < length (rest p)" if run: "parse_not n p = Some (Inr (x, q))" for p x q
  proof -
    obtain ts where "reads p ts q" "G_not ts x" using not_sound [OF run] by blast
    then show ?thesis using grammar_nonempty reads_shorter by blast
  qed
  have and_short: "length (rest q) < length (rest p)" if run: "parse_and n p = Some (Inr (x, q))" for p x q
  proof -
    obtain ts where "reads p ts q" "G_and ts x" using and_sound [OF run] by blast
    then show ?thesis using grammar_nonempty reads_shorter by blast
  qed
  show ?case
  proof (intro conjI allI impI)
    fix p assume n: "4 * length (rest p) + 1 \<le> Suc n"
    show "parse_primary (Suc n) p \<noteq> None"
    proof (cases "peek p")
      case (Some t)
      then have "4 * length (rest (advance p)) + 4 \<le> n" using n advance_shorter [OF Some] by simp
      then have "parse_or n (advance p) \<noteq> None" using or by blast
      then show ?thesis
        using Some by (cases t) (simp_all add: bind_None parse_count_agg_def parse_n_of_def del: not_None_eq)
    qed simp
  next
    fix p assume n: "4 * length (rest p) + 2 \<le> Suc n"
    show "parse_not (Suc n) p \<noteq> None"
      using n no pr advance_shorter [of p TNot] by (cases "peek p = Some TNot") (simp_all add: bind_None del: not_None_eq)
  next
    fix l p assume n: "4 * length (rest p) + 3 \<le> Suc n"
    show "and_loop (Suc n) l p \<noteq> None"
    proof (cases "peek p = Some TAnd \<or> peek p = Some TPipe")
      case True
      then have "length (rest (advance p)) < length (rest p)" using advance_shorter by blast
      then show ?thesis
        using n True no anl not_short [of "advance p"] by (simp del: not_None_eq, intro bind_total) fastforce+
    qed (simp del: not_None_eq)
  next
    fix p assume n: "4 * length (rest p) + 3 \<le> Suc n"
    show "parse_and (Suc n) p \<noteq> None"
      unfolding parse_and.simps using n no anl not_short [of p] by (intro bind_total) fastforce+
  next
    fix l p assume n: "4 * length (rest p) + 4 \<le> Suc n"
    show "or_loop (Suc n) l p \<noteq> None"
    proof (cases "peek p = Some TOr")
      case True
      then have "length (rest (advance p)) < length (rest p)" using advance_shorter by blast
      then show ?thesis
        using n True an orl and_short [of "advance p"] by (simp del: not_None_eq, intro bind_total) fastforce+
    qed (simp del: not_None_eq)
  next
    fix p assume n: "4 * length (rest p) + 4 \<le> Suc n"
    show "parse_or (Suc n) p \<noteq> None"
      unfolding parse_or.simps using n an orl and_short [of p] by (intro bind_total) fastforce+
  qed
qed simp

lemma parse_or_fuel: "parse_or (parse_fuel ts) (parser_new ts) \<noteq> None"
proof -
  have "4 * length (rest (parser_new ts)) + 4 \<le> parse_fuel ts" by (simp add: parse_fuel_def parser_new_def)
  then show ?thesis using parser_total [of "parse_fuel ts", THEN conjunct1] by blast
qed

lemma parse_condition_total: "parse_condition U input \<noteq> None"
proof -
  note parse_or_fuel [of "tokenize U input"]
  then show ?thesis by (auto simp: parse_condition_def Let_def split: option.splits sum.splits)
qed

lemma parse_condition_iff:
  "parse_condition U input = Some (Inr e) \<longleftrightarrow>
   (\<exists>ts us. tokenize U input = ts @ us \<and> G_or ts e \<and> (us = [] \<or> hd us \<notin> {TOr, TAnd, TPipe}))"
proof -
  let ?ts = "tokenize U input" and ?p = "parser_new (tokenize U input)"
  have run: "parse_condition U input = Some (Inr e) \<longleftrightarrow> (\<exists>q. parse_or (parse_fuel ?ts) ?p = Some (Inr (e, q)))"
    by (auto simp: parse_condition_def Let_def split: option.splits sum.splits)
  have reads: "(\<exists>q. reads ?p ts q \<and> stops S q) \<longleftrightarrow> (\<exists>us. ?ts = ts @ us \<and> (us = [] \<or> hd us \<notin> S))" for ts S
    by (auto simp: reads_def parser_new_def peek_rest split: list.splits)
  show ?thesis
  proof
    assume "parse_condition U input = Some (Inr e)"
    then obtain q where "parse_or (parse_fuel ?ts) ?p = Some (Inr (e, q))" using run by blast
    then obtain ts where "reads ?p ts q" "G_or ts e" "stops {TOr, TAnd, TPipe} q"
      using or_sound by blast
    then show "\<exists>ts us. ?ts = ts @ us \<and> G_or ts e \<and> (us = [] \<or> hd us \<notin> {TOr, TAnd, TPipe})"
      using reads by blast
  next
    assume "\<exists>ts us. ?ts = ts @ us \<and> G_or ts e \<and> (us = [] \<or> hd us \<notin> {TOr, TAnd, TPipe})"
    then obtain ts q where q: "reads ?p ts q" "G_or ts e" "stops {TOr, TAnd, TPipe} q" using reads by blast
    then obtain n where n: "parse_or n ?p = Some (Inr (e, q))" using or_complete by blast
    obtain r where r: "parse_or (parse_fuel ?ts) ?p = Some r"
      using parse_or_fuel [of ?ts] by blast
    have "r = Inr (e, q)"
      using fuel_mono(1) [OF max.cobounded1 n, of "parse_fuel ?ts"] fuel_mono(1) [OF max.cobounded2 r, of n] by simp
    then show "parse_condition U input = Some (Inr e)" using r run by blast
  qed
qed

text \<open>
  C10: the condition parser. It returns for every input, and it accepts exactly the grammar
  \<open>G_or\<close>: the result is a syntax tree \<open>e\<close> if and only if the tokens of the input begin with a
  sequence that the grammar assigns to \<open>e\<close> and no operator follows; otherwise it is an error.
  What comes after such a sequence is ignored. The grammar is that of the module's
  documentation, with \<open>|\<close> as another \<open>and\<close> and with \<open>by\<close> allowed to stand without a field.
\<close>

theorem sigma_parser_exact:
  "(\<exists>r. parse_condition U input = Some r)
   \<and> (\<forall>e. parse_condition U input = Some (Inr e) \<longleftrightarrow>
        (\<exists>ts us. tokenize U input = ts @ us \<and> G_or ts e \<and> (us = [] \<or> hd us \<notin> {TOr, TAnd, TPipe})))"
  using parse_condition_total [of U input] parse_condition_iff by blast

definition ascii :: unicode where
  "ascii = \<lparr>uc_alphabetic = list_all (\<lambda>b. is_ascii_uppercase b \<or> is_ascii_lowercase b),
     uc_numeric = is_digit_char, uc_to_lowercase = to_ascii_lowercase\<rparr>"

theorem sigma_parser_exact_witness:
  "parse_condition ascii ''sel and not (a or all of b*)) x'' =
     Some (Inr (And (Selection ''sel'') (Not (Or (Selection ''a'') (NOf QAll (Wildcard ''b''))))))"
proof -
  let ?prim = "TLParen # ([TIdent ''a''] @ TOr # [TAll, TOf, TIdent ''b*'']) @ [TRParen]"
  have "pattern_token (TIdent ''b*'') = Some (Wildcard ''b'')" by (simp add: ends_with_def)
  then have "G_prim [TAll, TOf, TIdent ''b*''] (NOf QAll (Wildcard ''b''))" by (rule prim_all)
  then have "G_not ?prim (Or (Selection ''a'') (NOf QAll (Wildcard ''b'')))"
    by (intro not_prim prim_paren or_more or_one and_one not_prim prim_name)
  then have "G_or ([TIdent ''sel''] @ TAnd # TNot # ?prim)
      (And (Selection ''sel'') (Not (Or (Selection ''a'') (NOf QAll (Wildcard ''b'')))))"
    by (intro or_one and_more and_one not_not [of ?prim] not_prim [OF prim_name]) simp_all
  moreover have "tokenize ascii ''sel and not (a or all of b*)) x'' =
      ([TIdent ''sel''] @ TAnd # TNot # ?prim) @ [TRParen, TIdent ''x'']"
    by code_simp
  moreover have "hd [TRParen, TIdent ''x''] \<notin> {TOr, TAnd, TPipe}" by simp
  ultimately show ?thesis
    using sigma_parser_exact [of ascii "''sel and not (a or all of b*)) x''"] by blast
qed

end
