(* ===== verification/Sigma_Rules.thy ===== *)
theory Sigma_Rules
  imports Sigma_Condition Detector_Base
begin

text \<open>
  The rule engine of \<open>hiveguard-sigma\<close> on top of the condition language: the field
  mapping (\<open>fieldmap.rs\<close>), the selections (\<open>selection.rs\<close>), the rules (\<open>rule.rs\<close>) and the
  detector (\<open>detector.rs\<close>).

  Code outside \<open>src/\<close> is an argument: the accessors of \<open>serde_yaml\<close> on its value type
  (\<open>yaml_ops\<close>), the crates \<open>regex\<close>, \<open>ipnet\<close>, \<open>chrono\<close> and \<open>blake3\<close>, the parsing and rendering
  of addresses and the Unicode tables (\<open>sigma_env\<close>). A compiled regular expression is
  its matching function.
\<close>

datatype YamlValue =
    YNull | YBool bool | YNumber string | YString string
  | YSequence "YamlValue list" | YMapping "(YamlValue \<times> YamlValue) list" | YTagged string YamlValue

record yaml_ops =
  y_as_str :: "YamlValue \<Rightarrow> string option"
  y_as_mapping :: "YamlValue \<Rightarrow> (YamlValue \<times> YamlValue) list option"
  y_map_get :: "(YamlValue \<times> YamlValue) list \<Rightarrow> string \<Rightarrow> YamlValue option"
  y_debug :: "YamlValue \<Rightarrow> string"

record sigma_env =
  se_unicode :: unicode
  se_yaml :: yaml_ops
  se_net :: ipnet_ops
  se_trim :: "string \<Rightarrow> string"
  se_parse_ip :: "string \<Rightarrow> ip_addr option"
  se_parse_net :: "string \<Rightarrow> ip_net option"
  se_show_ip :: "ip_addr \<Rightarrow> string"
  se_show_event_type :: "EventType \<Rightarrow> string"
  se_rfc3339 :: "instant \<Rightarrow> string"
  se_regex :: "string \<Rightarrow> (string \<Rightarrow> bool) option"
  se_blake3 :: "byte list \<Rightarrow> byte list"

abbreviation lower :: "sigma_env \<Rightarrow> string \<Rightarrow> string" where
  "lower S \<equiv> uc_to_lowercase (se_unicode S)"

section \<open>Field mapping\<close>

definition default_entries :: "(string \<times> string) list" where
  "default_entries =
    [(''SourceAddress'', ''source_ip''), (''src_ip'', ''source_ip''), (''c-ip'', ''source_ip''),
     (''SrcIP'', ''source_ip''), (''srcip'', ''source_ip''), (''sourceip'', ''source_ip''),
     (''SourceIp'', ''source_ip''), (''src'', ''source_ip''), (''c_ip'', ''source_ip''),
     (''src-ip'', ''source_ip''), (''ClientIP'', ''source_ip''), (''ipaddr'', ''source_ip''),
     (''IpAddress'', ''source_ip''), (''IpAddr'', ''source_ip''), (''RemoteAddress'', ''source_ip''),
     (''client_ip'', ''source_ip''),
     (''EventLog'', ''raw_line''), (''Message'', ''raw_line''), (''LogEntry'', ''raw_line''),
     (''raw'', ''raw_line''), (''msg'', ''raw_line''), (''message'', ''raw_line''),
     (''cs-uri-stem'', ''http_path''), (''cs-uri'', ''http_path''), (''RequestUri'', ''http_path''),
     (''request_uri'', ''http_path''), (''uri_path'', ''http_path''), (''http_path'', ''http_path''),
     (''URL'', ''http_path''), (''url'', ''http_path''), (''Url'', ''http_path''),
     (''cs-method'', ''http_method''), (''http_method'', ''http_method''),
     (''RequestMethod'', ''http_method''), (''Method'', ''http_method''),
     (''sc-status'', ''http_status''), (''status_code'', ''http_status''), (''http_status'', ''http_status''),
     (''StatusCode'', ''http_status''), (''status'', ''http_status''),
     (''UserAgent'', ''user_agent''), (''user_agent'', ''user_agent''),
     (''cs(User-Agent)'', ''user_agent''), (''HttpUserAgent'', ''user_agent''), (''ua'', ''user_agent''),
     (''Username'', ''user''), (''TargetUserName'', ''user''), (''user'', ''user''), (''User'', ''user''),
     (''LogonUser'', ''user''), (''AccountName'', ''user''), (''SubjectUserName'', ''user''), (''account'', ''user''),
     (''CommandLine'', ''command''), (''command'', ''command''), (''cmd'', ''command''),
     (''ProcessCommand'', ''command''),
     (''EventID'', ''event_id''), (''eventid'', ''event_id''), (''event_id'', ''event_id''),
     (''DestinationPort'', ''dst_port''), (''dst_port'', ''dst_port''), (''dpt'', ''dst_port''),
     (''DestPort'', ''dst_port''), (''dest_port'', ''dst_port''),
     (''SourcePort'', ''src_port''), (''src_port'', ''src_port''), (''spt'', ''src_port''),
     (''DestAddress'', ''dst_ip''), (''dst_ip'', ''dst_ip''), (''DestinationAddress'', ''dst_ip''),
     (''dhost'', ''dst_ip''),
     (''Protocol'', ''protocol''), (''proto'', ''protocol''),
     (''ProcessName'', ''process''), (''Image'', ''process''), (''process'', ''process''),
     (''Hostname'', ''hostname''), (''hostname'', ''hostname''), (''dhost'', ''hostname''),
     (''ComputerName'', ''hostname''),
     (''LogonType'', ''logon_type'')]"

text \<open>Inserting entries under their lower-cased keys, the last one for a key winning.\<close>

definition insert_lowered :: "sigma_env \<Rightarrow> (string \<times> string) list \<Rightarrow> (string, string) hmap \<Rightarrow> (string, string) hmap" where
  "insert_lowered S entries m = foldl (\<lambda>m (k, v). hm_insert (lower S k) v m) m entries"

definition default_field_map :: "sigma_env \<Rightarrow> (string, string) hmap" where
  "default_field_map S = insert_lowered S default_entries hm_empty"

record FieldMapper =
  fm_map :: "(string, string) hmap"

definition fm_new :: "sigma_env \<Rightarrow> FieldMapper" where
  "fm_new S = \<lparr>fm_map = default_field_map S\<rparr>"

definition with_extra_mappings :: "sigma_env \<Rightarrow> (string, string) hmap \<Rightarrow> FieldMapper \<Rightarrow> FieldMapper" where
  "with_extra_mappings S extra fm = fm\<lparr>fm_map := insert_lowered S extra (fm_map fm)\<rparr>"

text \<open>\<open>load_yaml\<close>, on the outcome of the YAML parser.\<close>

definition fm_load_yaml :: "sigma_env \<Rightarrow> (string, string) hmap option \<Rightarrow> FieldMapper \<Rightarrow> SigmaError + FieldMapper" where
  "fm_load_yaml S parsed fm =
     (case parsed of None \<Rightarrow> Inl YamlError | Some extra \<Rightarrow> Inr (fm\<lparr>fm_map := insert_lowered S extra (fm_map fm)\<rparr>))"

definition get_field :: "sigma_env \<Rightarrow> FieldMapper \<Rightarrow> NormalizedEvent \<Rightarrow> string \<Rightarrow> string option" where
  "get_field S fm event sigma_field =
     (let internal_key = (case hm_get (fm_map fm) (lower S sigma_field) of Some s \<Rightarrow> s | None \<Rightarrow> sigma_field)
      in if internal_key = ''source_ip'' then Some (se_show_ip S (ev_source_ip event))
         else if internal_key = ''raw_line'' then Some (ev_raw_line event)
         else if internal_key = ''source_name'' then Some (ev_source_name event)
         else if internal_key = ''event_type'' then Some (se_show_event_type S (ev_event_type event))
         else if internal_key = ''timestamp'' then Some (se_rfc3339 S (ev_timestamp event))
         else case hm_get (ev_metadata event) internal_key of
             Some v \<Rightarrow> Some v
           | None \<Rightarrow> hm_get (ev_metadata event) (lower S internal_key))"

definition ssh_field_mapper :: "sigma_env \<Rightarrow> FieldMapper" where
  "ssh_field_mapper S = with_extra_mappings S
     [(''srcport'', ''src_port''), (''port'', ''src_port''), (''method'', ''auth_method''), (''AuthMethod'', ''auth_method'')]
     (fm_new S)"

definition web_field_mapper :: "sigma_env \<Rightarrow> FieldMapper" where
  "web_field_mapper S = with_extra_mappings S
     [(''cs-referer'', ''http_referer''), (''Referer'', ''http_referer''), (''cs-bytes'', ''bytes_sent''),
      (''sc-bytes'', ''bytes_received''), (''time-taken'', ''response_time_ms'')]
     (fm_new S)"

section \<open>Selections\<close>

datatype FieldModifier =
    Contains | StartsWith | EndsWith | Re | Cidr | AllValues | Base64 | WinDash | Utf16 | Wide | UnknownModifier string

definition modifier_parse :: "sigma_env \<Rightarrow> string \<Rightarrow> FieldModifier" where
  "modifier_parse S s =
     (let l = lower S s
      in if l = ''contains'' then Contains
         else if l = ''startswith'' then StartsWith
         else if l = ''endswith'' then EndsWith
         else if l = ''re'' then Re
         else if l = ''cidr'' then Cidr
         else if l = ''all'' then AllValues
         else if l = ''base64'' \<or> l = ''base64offset'' then Base64
         else if l = ''windash'' then WinDash
         else if l = ''utf16le'' \<or> l = ''utf16be'' \<or> l = ''utf16'' then Utf16
         else if l = ''wide'' then Wide
         else UnknownModifier l)"

datatype SigmaValue = SString string | SNull

fun sv_as_str :: "SigmaValue \<Rightarrow> string option" where
  "sv_as_str (SString s) = Some s"
| "sv_as_str SNull = None"

definition show_bool :: "bool \<Rightarrow> string" where
  "show_bool b = (if b then ''true'' else ''false'')"

definition yaml_to_sigma_value :: "yaml_ops \<Rightarrow> YamlValue \<Rightarrow> SigmaValue" where
  "yaml_to_sigma_value Y v =
     (case v of YString s \<Rightarrow> SString s | YNumber n \<Rightarrow> SString n | YBool b \<Rightarrow> SString (show_bool b)
      | YNull \<Rightarrow> SNull | _ \<Rightarrow> SString (y_debug Y v))"

definition yaml_value_to_string :: "YamlValue \<Rightarrow> string" where
  "yaml_value_to_string v = (case v of YString s \<Rightarrow> s | YNumber n \<Rightarrow> n | YBool b \<Rightarrow> show_bool b | _ \<Rightarrow> [])"

record FieldCondition =
  fc_field :: "string option"
  fc_modifiers :: "FieldModifier list"
  fc_values :: "SigmaValue list"
  fc_compiled_re :: "(string \<Rightarrow> bool) option list"

fun glob_match_inner :: "string list \<Rightarrow> string list \<Rightarrow> bool" where
  "glob_match_inner [] [] = True"
| "glob_match_inner [] (t # ts) = False"
| "glob_match_inner (p # ps) [] = (p = ''*'' \<and> glob_match_inner ps [])"
| "glob_match_inner (p # ps) (t # ts) =
     (if p = ''*'' then glob_match_inner ps (t # ts) \<or> glob_match_inner (p # ps) ts
      else if p = ''?'' then glob_match_inner ps ts
      else if p = t then glob_match_inner ps ts
      else False)"

definition glob_match :: "string \<Rightarrow> string \<Rightarrow> bool" where
  "glob_match pattern str = glob_match_inner (chars pattern) (chars str)"

definition primary_match_modifier :: "FieldCondition \<Rightarrow> FieldModifier option" where
  "primary_match_modifier c = List.find (\<lambda>m. m \<in> {Contains, StartsWith, EndsWith, Re, Cidr}) (fc_modifiers c)"

definition match_single :: "sigma_env \<Rightarrow> FieldCondition \<Rightarrow> string \<Rightarrow> string \<Rightarrow> (string \<Rightarrow> bool) option \<Rightarrow> bool" where
  "match_single S c haystack needle compiled_re =
     (let lh = lower S haystack; ln = lower S needle
      in case primary_match_modifier c of
           Some Contains \<Rightarrow> str_contains lh ln
         | Some StartsWith \<Rightarrow> starts_with lh ln
         | Some EndsWith \<Rightarrow> ends_with lh ln
         | Some Re \<Rightarrow>
             (case compiled_re of
                Some re \<Rightarrow> re haystack
              | None \<Rightarrow> (case se_regex S needle of Some re \<Rightarrow> re haystack | None \<Rightarrow> False))
         | Some Cidr \<Rightarrow>
             (case (se_parse_ip S haystack, se_parse_net S needle) of
                (Some ip, Some net) \<Rightarrow> net_contains (se_net S) net ip
              | _ \<Rightarrow> False)
         | _ \<Rightarrow>
             if CHR ''*'' \<in> set needle \<or> CHR ''?'' \<in> set needle then glob_match ln lh
             else lh = ln)"

definition fc_matches :: "sigma_env \<Rightarrow> FieldMapper \<Rightarrow> NormalizedEvent \<Rightarrow> FieldCondition \<Rightarrow> bool" where
  "fc_matches S mapper event c =
     (let use_all = (AllValues \<in> set (fc_modifiers c));
          field_value = (case fc_field c of Some fname \<Rightarrow> get_field S mapper event fname | None \<Rightarrow> Some (ev_raw_line event));
          has_null_value = (SNull \<in> set (fc_values c));
          field_absent = (field_value = None \<or> field_value = Some []);
          non_null_count = length (filter (\<lambda>v. v \<noteq> SNull) (fc_values c))
      in if has_null_value \<and> non_null_count = 0 then field_absent
         else if has_null_value \<and> \<not> use_all \<and> field_absent then True
         else case field_value of
           None \<Rightarrow> fc_values c = []
         | Some haystack \<Rightarrow>
             (let string_values = List.map_filter (\<lambda>(i, v). map_option (\<lambda>s. (i, s)) (sv_as_str v)) (enumerate 0 (fc_values c));
                  check_at = (\<lambda>(idx, needle). match_single S c haystack needle
                    (if idx < length (fc_compiled_re c) then fc_compiled_re c ! idx else None))
              in if string_values = [] then True
                 else if use_all then list_all check_at string_values
                 else list_ex check_at string_values))"

datatype SigmaSelection =
    FieldMap "FieldCondition list" | OrList "FieldCondition list list" | Keywords "string list"

fun sel_matches :: "sigma_env \<Rightarrow> FieldMapper \<Rightarrow> NormalizedEvent \<Rightarrow> SigmaSelection \<Rightarrow> bool" where
  "sel_matches S mapper event (FieldMap conditions) = list_all (fc_matches S mapper event) conditions"
| "sel_matches S mapper event (OrList groups) = list_ex (list_all (fc_matches S mapper event)) groups"
| "sel_matches S mapper event (Keywords keywords) =
     (let raw_lower = lower S (ev_raw_line event)
      in list_ex (\<lambda>kw. str_contains raw_lower (lower S kw)) keywords)"

text \<open>\<open>key.split('|')\<close>.\<close>

fun split_on :: "char \<Rightarrow> string \<Rightarrow> string list" where
  "split_on d [] = [[]]"
| "split_on d (c # s) = (if c = d then [] # split_on d s
     else case split_on d s of w # ws \<Rightarrow> (c # w) # ws | [] \<Rightarrow> [[c]])"

definition parse_condition_values :: "yaml_ops \<Rightarrow> YamlValue \<Rightarrow> SigmaValue list" where
  "parse_condition_values Y v =
     (case v of YSequence seq \<Rightarrow> List.map (yaml_to_sigma_value Y) seq | other \<Rightarrow> [yaml_to_sigma_value Y other])"

definition parse_field_condition :: "sigma_env \<Rightarrow> string \<Rightarrow> YamlValue \<Rightarrow> FieldCondition" where
  "parse_field_condition S key v =
     (let parts = split_on (CHR ''|'') key;
          field_name = se_trim S (hd parts);
          modifiers = List.map (modifier_parse S) (tl parts);
          vals = parse_condition_values (se_yaml S) v;
          fld = (if field_name = [] \<or> field_name = ''keywords'' then None else Some field_name);
          is_re = (Re \<in> set modifiers);
          compiled_re = (if is_re
            then List.map (\<lambda>x. case sv_as_str x of Some s \<Rightarrow> se_regex S s | None \<Rightarrow> None) vals
            else replicate (length vals) None)
      in \<lparr>fc_field = fld, fc_modifiers = modifiers, fc_values = vals, fc_compiled_re = compiled_re\<rparr>)"

fun parse_field_map :: "sigma_env \<Rightarrow> (YamlValue \<times> YamlValue) list \<Rightarrow> SigmaError + FieldCondition list" where
  "parse_field_map S [] = Inr []"
| "parse_field_map S ((k, v) # m) =
     (case y_as_str (se_yaml S) k of
        None \<Rightarrow> Inl (ParseError ''field key must be a string'')
      | Some key \<Rightarrow>
          (case parse_field_map S m of
             Inl e \<Rightarrow> Inl e
           | Inr cs \<Rightarrow> Inr (parse_field_condition S key v # cs)))"

fun parse_groups :: "sigma_env \<Rightarrow> string \<Rightarrow> YamlValue list \<Rightarrow> SigmaError + FieldCondition list list" where
  "parse_groups S name [] = Inr []"
| "parse_groups S name (item # seq) =
     (case item of
        YMapping m \<Rightarrow>
          (case parse_field_map S m of
             Inl e \<Rightarrow> Inl e
           | Inr g \<Rightarrow> (case parse_groups S name seq of Inl e \<Rightarrow> Inl e | Inr gs \<Rightarrow> Inr (g # gs)))
      | _ \<Rightarrow> Inl (ParseError (''selection '' @ squote @ name @ squote
               @ '': expected mapping in sequence, got non-mapping'')))"

definition parse_selection_from_value :: "sigma_env \<Rightarrow> YamlValue \<Rightarrow> string \<Rightarrow> SigmaError + SigmaSelection" where
  "parse_selection_from_value S v name =
     (case v of
        YMapping m \<Rightarrow> (case parse_field_map S m of Inl e \<Rightarrow> Inl e | Inr cs \<Rightarrow> Inr (FieldMap cs))
      | YSequence seq \<Rightarrow>
          (case seq of
             [] \<Rightarrow> Inr (Keywords [])
           | YMapping _ # _ \<Rightarrow> (case parse_groups S name seq of Inl e \<Rightarrow> Inl e | Inr gs \<Rightarrow> Inr (OrList gs))
           | _ \<Rightarrow> Inr (Keywords (List.map yaml_value_to_string seq)))
      | _ \<Rightarrow> Inl (ParseError (''selection '' @ squote @ name @ squote
               @ '': expected mapping or sequence, got scalar'')))"

section \<open>Rules\<close>

datatype SigmaStatus = Stable | Experimental | Deprecated | Test | Unsupported

datatype SigmaLevel = Informational | Low | Medium | High | Critical

fun to_severity :: "SigmaLevel \<Rightarrow> u8" where
  "to_severity Informational = 10"
| "to_severity Low = 30"
| "to_severity Medium = 60"
| "to_severity High = 80"
| "to_severity Critical = 120"

record SigmaLogSource =
  ls_category :: "string option"
  ls_product :: "string option"
  ls_service :: "string option"

record SigmaDetection =
  sd_selections :: "(string, SigmaSelection) hmap"
  sd_condition :: string
  sd_timeframe :: "string option"

record SigmaRule =
  sr_title :: string
  sr_id :: "string option"
  sr_status :: SigmaStatus
  sr_description :: "string option"
  sr_author :: "string option"
  sr_date :: "string option"
  sr_tags :: "string list"
  sr_references :: "string list"
  sr_logsource :: SigmaLogSource
  sr_detection :: SigmaDetection
  sr_level :: SigmaLevel
  sr_falsepositives :: "string list"
  sr_condition_ast :: ConditionExpr

type_synonym yaml_mapping = "(YamlValue \<times> YamlValue) list"

definition optional_str :: "yaml_ops \<Rightarrow> yaml_mapping \<Rightarrow> string \<Rightarrow> string option" where
  "optional_str Y m key = Option.bind (y_map_get Y m key) (y_as_str Y)"

definition require_str :: "yaml_ops \<Rightarrow> yaml_mapping \<Rightarrow> string \<Rightarrow> SigmaError + string" where
  "require_str Y m key =
     (case Option.bind (y_map_get Y m key) (y_as_str Y) of
        Some s \<Rightarrow> Inr s
      | None \<Rightarrow> Inl (ParseError (''missing required field '' @ squote @ key @ squote)))"

definition string_list :: "yaml_ops \<Rightarrow> yaml_mapping \<Rightarrow> string \<Rightarrow> string list" where
  "string_list Y m key =
     (case y_map_get Y m key of
        Some (YSequence seq) \<Rightarrow> List.map_filter (y_as_str Y) seq
      | Some (YString s) \<Rightarrow> [s]
      | _ \<Rightarrow> [])"

definition parse_status :: "sigma_env \<Rightarrow> string \<Rightarrow> SigmaStatus" where
  "parse_status S s =
     (let l = lower S s
      in if l = ''stable'' then Stable else if l = ''deprecated'' then Deprecated
         else if l = ''test'' then Test else if l = ''unsupported'' then Unsupported else Experimental)"

definition parse_level :: "sigma_env \<Rightarrow> string \<Rightarrow> SigmaLevel" where
  "parse_level S s =
     (let l = lower S s
      in if l = ''informational'' then Informational else if l = ''medium'' then Medium
         else if l = ''high'' then High else if l = ''critical'' then Critical else Low)"

definition parse_logsource :: "yaml_ops \<Rightarrow> yaml_mapping \<Rightarrow> SigmaError + SigmaLogSource" where
  "parse_logsource Y m =
     (case y_map_get Y m ''logsource'' of
        None \<Rightarrow> Inl (ParseError (''missing required field '' @ squote @ ''logsource'' @ squote))
      | Some ls_value \<Rightarrow>
          (case y_as_mapping Y ls_value of
             None \<Rightarrow> Inl (ParseError (squote @ ''logsource'' @ squote @ '' must be a mapping''))
           | Some ls_map \<Rightarrow> Inr \<lparr>ls_category = optional_str Y ls_map ''category'',
               ls_product = optional_str Y ls_map ''product'', ls_service = optional_str Y ls_map ''service''\<rparr>))"

fun parse_selections ::
    "sigma_env \<Rightarrow> yaml_mapping \<Rightarrow> (string, SigmaSelection) hmap \<Rightarrow> SigmaError + (string, SigmaSelection) hmap" where
  "parse_selections S [] selections = Inr selections"
| "parse_selections S ((k, v) # det_map) selections =
     (case y_as_str (se_yaml S) k of
        None \<Rightarrow> parse_selections S det_map selections
      | Some key \<Rightarrow>
          if key = ''condition'' \<or> key = ''timeframe'' then parse_selections S det_map selections
          else case parse_selection_from_value S v key of
            Inl e \<Rightarrow> Inl e
          | Inr sel \<Rightarrow> parse_selections S det_map (hm_insert key sel selections))"

definition parse_detection :: "sigma_env \<Rightarrow> yaml_mapping \<Rightarrow> SigmaError + SigmaDetection" where
  "parse_detection S m =
     (let Y = se_yaml S
      in case y_map_get Y m ''detection'' of
        None \<Rightarrow> Inl (ParseError (''missing required field '' @ squote @ ''detection'' @ squote))
      | Some det_value \<Rightarrow>
          (case y_as_mapping Y det_value of
             None \<Rightarrow> Inl (ParseError (squote @ ''detection'' @ squote @ '' must be a mapping''))
           | Some det_map \<Rightarrow>
               (case optional_str Y det_map ''condition'' of
                  None \<Rightarrow> Inl (ParseError (squote @ ''detection.condition'' @ squote @ '' is required''))
                | Some condition \<Rightarrow>
                    (case parse_selections S det_map hm_empty of
                       Inl e \<Rightarrow> Inl e
                     | Inr selections \<Rightarrow> Inr \<lparr>sd_selections = selections, sd_condition = condition,
                         sd_timeframe = optional_str Y det_map ''timeframe''\<rparr>))))"

text \<open>\<open>from_yaml_value\<close>; the parser of the condition always returns, so the result is never \<open>None\<close>; \<open>ConditionParse e\<close> is the
  \<open>Parse\<close> error whose text is \<open>condition parse error: {e}\<close>.\<close>

definition rule_from_yaml_value :: "sigma_env \<Rightarrow> YamlValue \<Rightarrow> (SigmaError + SigmaRule) option" where
  "rule_from_yaml_value S v =
     (let Y = se_yaml S
      in case y_as_mapping Y v of
        None \<Rightarrow> Some (Inl (ParseError ''rule must be a YAML mapping''))
      | Some m \<Rightarrow>
          (case require_str Y m ''title'' of
             Inl e \<Rightarrow> Some (Inl e)
           | Inr title \<Rightarrow>
               (case parse_logsource Y m of
                  Inl e \<Rightarrow> Some (Inl e)
                | Inr logsource \<Rightarrow>
                    (case parse_detection S m of
                       Inl e \<Rightarrow> Some (Inl e)
                     | Inr detection \<Rightarrow>
                         (case parse_condition (se_unicode S) (sd_condition detection) of
                            Some (Inr ast) \<Rightarrow> Some (Inr
                              \<lparr>sr_title = title, sr_id = optional_str Y m ''id'',
                               sr_status = parse_status S (case optional_str Y m ''status'' of Some s \<Rightarrow> s | None \<Rightarrow> ''experimental''),
                               sr_description = optional_str Y m ''description'', sr_author = optional_str Y m ''author'',
                               sr_date = optional_str Y m ''date'', sr_tags = string_list Y m ''tags'',
                               sr_references = string_list Y m ''references'', sr_logsource = logsource,
                               sr_detection = detection,
                               sr_level = parse_level S (case optional_str Y m ''level'' of Some s \<Rightarrow> s | None \<Rightarrow> ''low''),
                               sr_falsepositives = string_list Y m ''falsepositives'', sr_condition_ast = ast\<rparr>)
                          | Some (Inl e) \<Rightarrow> Some (Inl (ConditionParse e))
                          | None \<Rightarrow> None)))))"

definition rule_from_yaml :: "sigma_env \<Rightarrow> YamlValue option \<Rightarrow> (SigmaError + SigmaRule) option" where
  "rule_from_yaml S parsed = (case parsed of None \<Rightarrow> Some (Inl YamlError) | Some v \<Rightarrow> rule_from_yaml_value S v)"

definition matched_names :: "sigma_env \<Rightarrow> FieldMapper \<Rightarrow> NormalizedEvent \<Rightarrow> (string, SigmaSelection) hmap \<Rightarrow> string list" where
  "matched_names S mapper event selections = List.map fst (filter (\<lambda>(_, sel). sel_matches S mapper event sel) selections)"

definition rule_matches :: "sigma_env \<Rightarrow> FieldMapper \<Rightarrow> NormalizedEvent \<Rightarrow> SigmaRule \<Rightarrow> bool" where
  "rule_matches S mapper event rule =
     (let selections = sd_selections (sr_detection rule)
      in evaluate_condition (sr_condition_ast rule) (matched_names S mapper event selections) (hm_keys selections))"

definition rule_severity :: "SigmaRule \<Rightarrow> u8" where
  "rule_severity rule = to_severity (sr_level rule)"

text \<open>\<open>condition.rs\<close>: parse a condition and evaluate it against the selections.\<close>

definition evaluate_detection ::
    "sigma_env \<Rightarrow> string \<Rightarrow> (string, SigmaSelection) hmap \<Rightarrow> NormalizedEvent \<Rightarrow> FieldMapper \<Rightarrow> (SigmaError + bool) option" where
  "evaluate_detection S condition_str selections event mapper =
     (case parse_condition (se_unicode S) condition_str of
        Some (Inr expr) \<Rightarrow>
          Some (Inr (evaluate_condition expr (matched_names S mapper event selections) (hm_keys selections)))
      | Some (Inl e) \<Rightarrow> Some (Inl e)
      | None \<Rightarrow> None)"

section \<open>The detector\<close>

text \<open>
  The rule set is read once per event. For the rule at an index, \<open>try_lock\<close> says whether
  the counters could be locked and \<open>clock\<close> gives the milliseconds read for the evidence.
\<close>

record SigmaDetector =
  sdt_rules :: "SigmaRule list"
  sdt_mapper :: FieldMapper
  sdt_name :: string
  sdt_stats :: "(string, u64) hmap option"

definition sdt_new :: "SigmaRule list \<Rightarrow> FieldMapper \<Rightarrow> SigmaDetector" where
  "sdt_new rules mapper = \<lparr>sdt_rules = rules, sdt_mapper = mapper, sdt_name = ''sigma'', sdt_stats = None\<rparr>"

definition sdt_empty :: "FieldMapper \<Rightarrow> SigmaDetector" where
  "sdt_empty mapper = sdt_new [] mapper"

definition sdt_with_stats :: "(string, u64) hmap \<Rightarrow> SigmaDetector \<Rightarrow> SigmaDetector" where
  "sdt_with_stats stats d = d\<lparr>sdt_stats := Some stats\<rparr>"

definition sdt_reload :: "SigmaRule list \<Rightarrow> SigmaDetector \<Rightarrow> SigmaDetector" where
  "sdt_reload new_rules d = d\<lparr>sdt_rules := new_rules\<rparr>"

definition rule_key :: "SigmaRule \<Rightarrow> string" where
  "rule_key rule = (case sr_id rule of Some s \<Rightarrow> s | None \<Rightarrow> sr_title rule)"

definition sigma_evidence_hash :: "sigma_env \<Rightarrow> int \<Rightarrow> string \<Rightarrow> ip_addr \<Rightarrow> byte list" where
  "sigma_evidence_hash S ts key ip =
     se_blake3 S (str_bytes (''sigma:'' @ key @ '':'' @ se_show_ip S ip @ '':'' @ show_int ts))"

definition sigma_signal :: "sigma_env \<Rightarrow> int \<Rightarrow> SigmaRule \<Rightarrow> NormalizedEvent \<Rightarrow> DetectionSignal" where
  "sigma_signal S ts rule event =
     \<lparr>sg_source_ip = ip_to_net (se_net S) (ev_source_ip event), sg_severity = rule_severity rule,
      sg_confidence = f32_085,
      sg_reason = ''[Sigma] '' @ sr_title rule @ '' ('' @ (case sr_id rule of Some s \<Rightarrow> s | None \<Rightarrow> ''no-id'') @ '')'',
      sg_evidence_hash = sigma_evidence_hash S ts (rule_key rule) (ev_source_ip event),
      sg_suggested_action = Ban (secs 86400), sg_detector_name = ''sigma:'' @ rule_key rule,
      sg_timestamp = ev_timestamp event\<rparr>"

definition count_hit :: "string \<Rightarrow> (string, u64) hmap \<Rightarrow> (string, u64) hmap" where
  "count_hit key m = hm_insert key (hm_get_or 0 m key + 1) m"

fun sdt_loop ::
    "sigma_env \<Rightarrow> (nat \<Rightarrow> bool) \<Rightarrow> (nat \<Rightarrow> int) \<Rightarrow> FieldMapper \<Rightarrow> NormalizedEvent \<Rightarrow> nat \<Rightarrow> SigmaRule list
     \<Rightarrow> DetectionSignal option \<Rightarrow> (string, u64) hmap option \<Rightarrow> DetectionSignal option \<times> (string, u64) hmap option" where
  "sdt_loop S try_lock clock mapper event i [] best stats = (best, stats)"
| "sdt_loop S try_lock clock mapper event i (rule # rules) best stats =
     (if \<not> rule_matches S mapper event rule
      then sdt_loop S try_lock clock mapper event (Suc i) rules best stats
      else
        let stats = (if try_lock i then map_option (count_hit (rule_key rule)) stats else stats);
            signal = sigma_signal S (clock i) rule event;
            best = (case best of
                None \<Rightarrow> Some signal
              | Some prev \<Rightarrow> if sg_severity signal > sg_severity prev then Some signal else Some prev)
        in sdt_loop S try_lock clock mapper event (Suc i) rules best stats)"

definition sdt_process ::
    "sigma_env \<Rightarrow> (nat \<Rightarrow> bool) \<Rightarrow> (nat \<Rightarrow> int) \<Rightarrow> SigmaDetector \<Rightarrow> NormalizedEvent
     \<Rightarrow> DetectionSignal option \<times> SigmaDetector" where
  "sdt_process S try_lock clock d event =
     (case sdt_loop S try_lock clock (sdt_mapper d) event 0 (sdt_rules d) None (sdt_stats d) of
        (best, stats) \<Rightarrow> (best, d\<lparr>sdt_stats := stats\<rparr>))"

section \<open>Wildcards\<close>

text \<open>What a pattern character stands for: a run of characters of the text.\<close>

definition fits :: "string \<Rightarrow> string list \<Rightarrow> bool" where
  "fits p w \<longleftrightarrow> (if p = ''*'' then True else if p = ''?'' then length w = 1 else w = [p])"

lemma fits_simps [simp]: "fits ''*'' w" "fits ''?'' w \<longleftrightarrow> length w = 1"
  "p \<noteq> ''*'' \<Longrightarrow> p \<noteq> ''?'' \<Longrightarrow> fits p w \<longleftrightarrow> w = [p]"
  by (auto simp: fits_def)

definition pieces :: "string list \<Rightarrow> string list \<Rightarrow> string list list \<Rightarrow> bool" where
  "pieces ps ts ws \<longleftrightarrow> list_all2 fits ps ws \<and> concat ws = ts"

lemma pieces_Nil [simp]: "pieces [] ts ws \<longleftrightarrow> ws = [] \<and> ts = []"
  by (auto simp: pieces_def)

lemma pieces_Cons: "(\<exists>ws. pieces (p # ps) ts ws) \<longleftrightarrow> (\<exists>w us. fits p w \<and> ts = w @ us \<and> (\<exists>ws. pieces ps us ws))"
  by (fastforce simp: pieces_def list_all2_Cons1 intro: exI [where x = "_ # _"])

lemma star_pieces:
  "(\<exists>w us. t # ts = w @ us \<and> P us) \<longleftrightarrow> P (t # ts) \<or> (\<exists>w us. ts = w @ us \<and> P us)"
  by (metis Cons_eq_append_conv append_Cons append_Nil)

lemma one_char: "(\<exists>w us. length w = 1 \<and> t # ts = w @ us \<and> P us) \<longleftrightarrow> P ts"
  by (auto simp: length_Suc_conv)

lemma glob_match_inner_iff: "glob_match_inner ps ts \<longleftrightarrow> (\<exists>ws. pieces ps ts ws)"
proof (induction ps ts rule: glob_match_inner.induct)
  case (3 p ps)
  then show ?case by (cases "p = ''*''"; cases "p = ''?''") (auto simp: pieces_Cons)
next
  case (4 p ps t ts)
  consider "p = ''*''" | "p = ''?''" | "p \<noteq> ''*''" "p \<noteq> ''?''" by blast
  then show ?case
  proof cases
    case 1
    then show ?thesis using 4(1,2) by (simp add: pieces_Cons star_pieces [where P = "\<lambda>us. \<exists>ws. pieces ps us ws"])
  next
    case 2
    then show ?thesis using 4(3) by (simp add: pieces_Cons one_char [where P = "\<lambda>us. \<exists>ws. pieces ps us ws", simplified])
  next
    case 3
    then show ?thesis using 4(4) by (auto simp: pieces_Cons)
  qed
qed simp_all

text \<open>
  C27: wildcard patterns. The recursive matcher accepts a text exactly when the text can be
  cut into consecutive runs of characters, one for each character of the pattern, such that
  \<open>*\<close> gets any run, \<open>?\<close> gets a single character (of any encoded length) and every other
  character gets itself.
\<close>

theorem glob_match_exact:
  "glob_match pattern str \<longleftrightarrow> (\<exists>ws. list_all2 fits (chars pattern) ws \<and> concat ws = chars str)"
  by (simp add: glob_match_def glob_match_inner_iff pieces_def)

section \<open>Rules evaluate their own condition\<close>

lemma from_yaml_total: "rule_from_yaml S parsed \<noteq> None"
  by (auto simp: rule_from_yaml_def rule_from_yaml_value_def Let_def parse_condition_total split: option.split sum.split)

lemma from_yaml_ast:
  assumes "rule_from_yaml S parsed = Some (Inr r)"
  shows "parse_condition (se_unicode S) (sd_condition (sr_detection r)) = Some (Inr (sr_condition_ast r))"
  using assms
  by (auto simp: rule_from_yaml_def rule_from_yaml_value_def Let_def split: option.splits sum.splits)

text \<open>
  C28: the syntax tree a rule caches. Loading a rule always ends, with an error or a
  rule; and the rule, which evaluates the tree parsed when it was loaded, gives on every
  event the answer that parsing its condition text anew would give.
\<close>

theorem cached_condition_exact:
  "(\<exists>x. rule_from_yaml S parsed = Some x)
   \<and> (rule_from_yaml S parsed = Some (Inr r) \<longrightarrow>
        evaluate_detection S (sd_condition (sr_detection r)) (sd_selections (sr_detection r)) event mapper
        = Some (Inr (rule_matches S mapper event r)))"
  using from_yaml_total [of S parsed] from_yaml_ast [of S parsed r]
  by (simp add: evaluate_detection_def rule_matches_def Let_def)

section \<open>The signal of the detector\<close>

text \<open>The rules of an indexed list that match, and the counter of one key.\<close>

definition hit_indices :: "sigma_env \<Rightarrow> FieldMapper \<Rightarrow> NormalizedEvent \<Rightarrow> SigmaRule list \<Rightarrow> nat set" where
  "hit_indices S mapper event rules = {i. i < length rules \<and> rule_matches S mapper event (rules ! i)}"

definition top_hit :: "SigmaRule list \<Rightarrow> nat set \<Rightarrow> nat \<Rightarrow> bool" where
  "top_hit rules H i \<longleftrightarrow> i \<in> H \<and> (\<forall>j \<in> H. rule_severity (rules ! j) \<le> rule_severity (rules ! i)
     \<and> (j < i \<longrightarrow> rule_severity (rules ! j) < rule_severity (rules ! i)))"

definition best_is ::
    "sigma_env \<Rightarrow> (nat \<Rightarrow> int) \<Rightarrow> NormalizedEvent \<Rightarrow> SigmaRule list \<Rightarrow> nat set \<Rightarrow> DetectionSignal option \<Rightarrow> bool" where
  "best_is S clock event rules H best \<longleftrightarrow>
     (case best of None \<Rightarrow> H = {}
      | Some s \<Rightarrow> \<exists>i. top_hit rules H i \<and> s = sigma_signal S (clock i) (rules ! i) event)"

lemma hit_indices_snoc:
  "hit_indices S mapper event (rules @ [r]) =
     (if rule_matches S mapper event r then insert (length rules) (hit_indices S mapper event rules)
      else hit_indices S mapper event rules)"
  by (auto simp: hit_indices_def nth_append less_Suc_eq)

lemma signal_severity [simp]: "sg_severity (sigma_signal S ts r event) = rule_severity r"
  by (simp add: sigma_signal_def)

lemma hit_bound: "i \<in> hit_indices S mapper event rules \<Longrightarrow> i < length rules"
  by (simp add: hit_indices_def)

lemma loop_append:
  "sdt_loop S lk clock mapper event i (xs @ ys) best stats =
     (case sdt_loop S lk clock mapper event i xs best stats of
        (b, st) \<Rightarrow> sdt_loop S lk clock mapper event (i + length xs) ys b st)"
  by (induction xs arbitrary: i best stats) (simp_all add: Let_def)

lemma top_hit_snoc:
  assumes "H \<subseteq> {..<length rules}"
  shows "i < length rules \<Longrightarrow> top_hit (rules @ [r]) H i \<longleftrightarrow> top_hit rules H i"
    and "i < length rules \<Longrightarrow> top_hit (rules @ [r]) (insert (length rules) H) i
      \<longleftrightarrow> top_hit rules H i \<and> rule_severity r \<le> rule_severity (rules ! i)"
    and "top_hit (rules @ [r]) (insert (length rules) H) (length rules)
      \<longleftrightarrow> (\<forall>j \<in> H. rule_severity (rules ! j) < rule_severity r)"
  using assms by (force simp: top_hit_def nth_append)+

lemma loop_best:
  "best_is S clock event rules (hit_indices S mapper event rules)
     (fst (sdt_loop S lk clock mapper event 0 rules None stats))"
proof (induction rules rule: rev_induct)
  case Nil
  then show ?case by (simp add: best_is_def hit_indices_def)
next
  case (snoc r rules)
  let ?H = "hit_indices S mapper event rules"
  obtain b st where run: "sdt_loop S lk clock mapper event 0 rules None stats = (b, st)" by fastforce
  have H: "?H \<subseteq> {..<length rules}" by (auto simp: hit_indices_def)
  note snocs = top_hit_snoc [OF H]
  have hit: "i < length rules" if "top_hit rules ?H i" for i
    using that H by (auto simp: top_hit_def)
  show ?case
  proof (cases b)
    case None
    then have "?H = {}" using snoc run by (simp add: best_is_def)
    then show ?thesis using run None
      by (auto simp: loop_append best_is_def hit_indices_snoc Let_def top_hit_def)
  next
    case (Some s)
    then obtain i where i: "top_hit rules ?H i" "s = sigma_signal S (clock i) (rules ! i) event"
      using snoc run by (auto simp: best_is_def)
    have low: "\<forall>j \<in> ?H. rule_severity (rules ! j) \<le> rule_severity (rules ! i)" using i(1) by (simp add: top_hit_def)
    show ?thesis
    proof (cases "rule_matches S mapper event r \<and> rule_severity r > rule_severity (rules ! i)")
      case True
      then have "top_hit (rules @ [r]) (insert (length rules) ?H) (length rules)"
        using low by (auto simp: snocs(3) intro: le_less_trans)
      then show ?thesis using True run Some i(2)
        by (auto simp: loop_append best_is_def hit_indices_snoc Let_def intro!: exI [of _ "length rules"])
    next
      case False
      then show ?thesis using run Some i hit [OF i(1)] snocs(1,2) [of i]
        by (auto simp: loop_append best_is_def hit_indices_snoc Let_def nth_append not_less intro!: exI [of _ i])
    qed
  qed
qed

definition hits_for :: "(nat \<Rightarrow> bool) \<Rightarrow> SigmaRule list \<Rightarrow> nat set \<Rightarrow> string \<Rightarrow> nat" where
  "hits_for lk rules H k = card {i \<in> H. lk i \<and> rule_key (rules ! i) = k}"

lemma hits_for_snoc:
  assumes "H \<subseteq> {..<length rules}"
  shows "hits_for lk (rules @ [r]) H k = hits_for lk rules H k"
    and "hits_for lk (rules @ [r]) (insert (length rules) H) k =
      hits_for lk rules H k + (if lk (length rules) \<and> rule_key r = k then 1 else 0)"
proof -
  have eq: "{i \<in> H. lk i \<and> rule_key ((rules @ [r]) ! i) = k} = {i \<in> H. lk i \<and> rule_key (rules ! i) = k}"
    using assms by (auto simp: nth_append)
  then show "hits_for lk (rules @ [r]) H k = hits_for lk rules H k" by (simp add: hits_for_def)
  have fin: "finite H" and new: "length rules \<notin> H" using assms finite_subset by auto
  let ?A = "{i \<in> H. lk i \<and> rule_key (rules ! i) = k}"
  have "{i \<in> insert (length rules) H. lk i \<and> rule_key ((rules @ [r]) ! i) = k} =
      (if lk (length rules) \<and> rule_key r = k then insert (length rules) ?A else ?A)"
    unfolding eq [symmetric] by (cases "lk (length rules) \<and> rule_key r = k") auto
  moreover have "finite ?A" "length rules \<notin> ?A" using fin new by auto
  ultimately show "hits_for lk (rules @ [r]) (insert (length rules) H) k =
      hits_for lk rules H k + (if lk (length rules) \<and> rule_key r = k then 1 else 0)"
    unfolding hits_for_def by (cases "lk (length rules) \<and> rule_key r = k") (simp_all only: if_True if_False card_insert_disjoint, simp_all)
qed

lemma loop_stats:
  "case (snd (sdt_loop S lk clock mapper event 0 rules None stats), stats) of
     (Some m', Some m) \<Rightarrow> \<forall>k. hm_get_or 0 m' k =
        hm_get_or 0 m k + of_nat (hits_for lk rules (hit_indices S mapper event rules) k)
   | (None, None) \<Rightarrow> True | _ \<Rightarrow> False"
proof (induction rules rule: rev_induct)
  case Nil
  then show ?case by (auto simp: hits_for_def hit_indices_def split: option.split)
next
  case (snoc r rules)
  have H: "hit_indices S mapper event rules \<subseteq> {..<length rules}" by (auto simp: hit_indices_def)
  obtain b st where "sdt_loop S lk clock mapper event 0 rules None stats = (b, st)" by fastforce
  then show ?case using snoc hits_for_snoc [OF H]
    by (auto simp: loop_append hit_indices_snoc Let_def count_hit_def split: option.splits)
qed

text \<open>
  C22: what the rule engine reports. The signal for an event is that of the first rule of the
  highest severity among the rules that match, and there is none exactly when no rule matches.
  Every matching rule whose counter could be locked is counted once, modulo \<open>2^64\<close>, under its
  identifier (or title); nothing else of the detector changes.
\<close>

theorem sigma_best_signal:
  assumes "sdt_process S lk clock d event = (best, d')"
    and "hits = hit_indices S (sdt_mapper d) event (sdt_rules d)"
  shows "(case best of None \<Rightarrow> hits = {}
      | Some s \<Rightarrow> \<exists>i. top_hit (sdt_rules d) hits i \<and> s = sigma_signal S (clock i) (sdt_rules d ! i) event)
    \<and> (case sdt_stats d of None \<Rightarrow> d' = d
       | Some m \<Rightarrow> \<exists>m'. d' = d\<lparr>sdt_stats := Some m'\<rparr> \<and>
           (\<forall>k. hm_get_or 0 m' k = hm_get_or 0 m k + of_nat (hits_for lk (sdt_rules d) hits k)))"
proof -
  obtain st where run: "sdt_loop S lk clock (sdt_mapper d) event 0 (sdt_rules d) None (sdt_stats d) = (best, st)"
      "d' = d\<lparr>sdt_stats := st\<rparr>"
    using assms(1) by (auto simp: sdt_process_def split: prod.splits)
  have "best_is S clock event (sdt_rules d) hits best"
    using loop_best [where rules = "sdt_rules d" and stats = "sdt_stats d"] run(1) assms(2) by (metis fst_conv)
  moreover have "case (st, sdt_stats d) of
      (Some m', Some m) \<Rightarrow> \<forall>k. hm_get_or 0 m' k = hm_get_or 0 m k + of_nat (hits_for lk (sdt_rules d) hits k)
    | (None, None) \<Rightarrow> True | _ \<Rightarrow> False"
    using loop_stats [where rules = "sdt_rules d" and stats = "sdt_stats d" and S = S and lk = lk and clock = clock
      and mapper = "sdt_mapper d" and event = event] run(1) unfolding assms(2) by simp
  ultimately show ?thesis using run(2) by (cases st; cases "sdt_stats d") (auto simp: best_is_def)
qed

section \<open>A rule set, evaluated\<close>

fun ex_get :: "(YamlValue \<times> YamlValue) list \<Rightarrow> string \<Rightarrow> YamlValue option" where
  "ex_get [] k = None"
| "ex_get ((YString s, v) # m) k = (if s = k then Some v else ex_get m k)"
| "ex_get (_ # m) k = ex_get m k"

definition ex_sigma :: sigma_env where
  "ex_sigma = \<lparr>se_unicode = ascii,
     se_yaml = \<lparr>y_as_str = (\<lambda>v. case v of YString s \<Rightarrow> Some s | _ \<Rightarrow> None),
       y_as_mapping = (\<lambda>v. case v of YMapping m \<Rightarrow> Some m | _ \<Rightarrow> None), y_map_get = ex_get, y_debug = (\<lambda>_. [])\<rparr>,
     se_net = ipnet_ref, se_trim = dropWhile (\<lambda>c. c = CHR '' ''), se_parse_ip = (\<lambda>_. None), se_parse_net = (\<lambda>_. None),
     se_show_ip = (\<lambda>_. ''ip''), se_show_event_type = (\<lambda>_. []), se_rfc3339 = (\<lambda>_. []),
     se_regex = (\<lambda>_. None), se_blake3 = (\<lambda>bs. replicate 32 (of_nat (length bs)))\<rparr>"

definition ex_rule_yaml :: "string \<Rightarrow> string \<Rightarrow> string \<Rightarrow> YamlValue" where
  "ex_rule_yaml title level pattern = YMapping
     [(YString ''title'', YString title), (YString ''logsource'', YMapping []),
      (YString ''detection'', YMapping
         [(YString ''sel'', YMapping [(YString ''cmd|contains'', YString pattern)]),
          (YString ''condition'', YString ''all of sel*'')]),
      (YString ''level'', YString level)]"

definition ex_rule :: "string \<Rightarrow> string \<Rightarrow> string \<Rightarrow> SigmaRule" where
  "ex_rule title level pattern = (case rule_from_yaml ex_sigma (Some (ex_rule_yaml title level pattern)) of Some (Inr r) \<Rightarrow> r)"

definition ex_command :: NormalizedEvent where
  "ex_command = \<lparr>ev_timestamp = 0, ev_source_ip = IpV4 7, ev_event_type = AuthFailure, ev_source_name = [],
     ev_raw_line = [], ev_metadata = [(''cmd'', ''Failed password'')]\<rparr>"

theorem cached_condition_exact_witness:
  "rule_from_yaml ex_sigma (Some (ex_rule_yaml ''T'' ''high'' ''FAILED'')) = Some (Inr (ex_rule ''T'' ''high'' ''FAILED''))
   \<and> evaluate_detection ex_sigma ''all of sel*'' (sd_selections (sr_detection (ex_rule ''T'' ''high'' ''FAILED'')))
       ex_command \<lparr>fm_map = []\<rparr> = Some (Inr True)"
proof -
  let ?r = "ex_rule ''T'' ''high'' ''FAILED''"
  have "case rule_from_yaml ex_sigma (Some (ex_rule_yaml ''T'' ''high'' ''FAILED'')) of Some (Inr r) \<Rightarrow> True | _ \<Rightarrow> False"
    by code_simp
  then have load: "rule_from_yaml ex_sigma (Some (ex_rule_yaml ''T'' ''high'' ''FAILED'')) = Some (Inr ?r)"
    by (auto simp: ex_rule_def split: option.splits sum.splits)
  have "sd_condition (sr_detection ?r) = ''all of sel*''" "rule_matches ex_sigma \<lparr>fm_map = []\<rparr> ex_command ?r" by code_simp+
  then show ?thesis
    using load cached_condition_exact [of ex_sigma "Some (ex_rule_yaml ''T'' ''high'' ''FAILED'')" ?r ex_command "\<lparr>fm_map = []\<rparr>"]
    by simp
qed

definition ex_detector :: SigmaDetector where
  "ex_detector = sdt_with_stats [] (sdt_new [ex_rule ''A'' ''low'' ''pass'', ex_rule ''B'' ''high'' ''fail'',
     ex_rule ''C'' ''critical'' ''accepted'', ex_rule ''D'' ''high'' ''failed''] \<lparr>fm_map = []\<rparr>)"

lemma ex_hits: "hit_indices ex_sigma (sdt_mapper ex_detector) ex_command (sdt_rules ex_detector) = {0, 1, 3}"
proof -
  have four: "i < 4 \<longleftrightarrow> i \<in> {0, 1, 2, 3}" for i :: nat by auto
  have "length (sdt_rules ex_detector) = 4"
    "List.map (rule_matches ex_sigma (sdt_mapper ex_detector) ex_command) (sdt_rules ex_detector) = [True, True, False, True]"
    by code_simp+
  then have "hit_indices ex_sigma (sdt_mapper ex_detector) ex_command (sdt_rules ex_detector)
      = {i \<in> {0, 1, 2, 3}. [True, True, False, True] ! i}"
    unfolding hit_indices_def by (intro Collect_cong) (metis nth_map four)
  also have "\<dots> = {0, 1, 3}" by auto
  finally show ?thesis .
qed

theorem sigma_best_signal_witness:
  "\<exists>d'. sdt_process ex_sigma (\<lambda>_. True) int ex_detector ex_command =
     (Some (sigma_signal ex_sigma 1 (ex_rule ''B'' ''high'' ''fail'') ex_command), d')
   \<and> (\<exists>m. sdt_stats d' = Some m \<and> hm_get_or 0 m ''D'' = 1 \<and> hm_get_or 0 m ''C'' = 0)"
proof -
  obtain best d' where run: "sdt_process ex_sigma (\<lambda>_. True) int ex_detector ex_command = (best, d')" by fastforce
  have rules: "sdt_rules ex_detector = [ex_rule ''A'' ''low'' ''pass'', ex_rule ''B'' ''high'' ''fail'',
     ex_rule ''C'' ''critical'' ''accepted'', ex_rule ''D'' ''high'' ''failed'']" "sdt_stats ex_detector = Some []"
    by (simp_all add: ex_detector_def sdt_with_stats_def sdt_new_def)
  have sev: "rule_severity (ex_rule ''A'' ''low'' ''pass'') = 30" "rule_severity (ex_rule ''B'' ''high'' ''fail'') = 80"
    "rule_severity (ex_rule ''D'' ''high'' ''failed'') = 80" by code_simp+
  have keys: "rule_key (ex_rule ''A'' ''low'' ''pass'') = ''A''" "rule_key (ex_rule ''B'' ''high'' ''fail'') = ''B''"
    "rule_key (ex_rule ''D'' ''high'' ''failed'') = ''D''" by code_simp+
  have top: "top_hit (sdt_rules ex_detector) {0, 1, 3} i \<longleftrightarrow> i = 1" for i
    by (auto simp: top_hit_def rules sev)
  have "rule_key (sdt_rules ex_detector ! 0) = ''A''" "rule_key (sdt_rules ex_detector ! 1) = ''B''"
    "rule_key (sdt_rules ex_detector ! 3) = ''D''" by (simp_all add: rules keys)
  then have "{i \<in> {0, 1, 3}. True \<and> rule_key (sdt_rules ex_detector ! i) = ''D''} = {3}"
    "{i \<in> {0, 1, 3}. True \<and> rule_key (sdt_rules ex_detector ! i) = ''C''} = {}" by fastforce+
  then have "hits_for (\<lambda>_. True) (sdt_rules ex_detector) {0, 1, 3} ''D'' = 1"
    "hits_for (\<lambda>_. True) (sdt_rules ex_detector) {0, 1, 3} ''C'' = 0"
    unfolding hits_for_def by simp_all
  then show ?thesis
    using sigma_best_signal [OF run ex_hits [symmetric]] run unfolding top
    by (cases best) (auto simp: rules hm_get_or_def)
qed

end
