(* ===== verification/Floats.thy ===== *)
theory Floats
  imports Models "HOL-Library.Log_Nat"
begin

text \<open>
  Rounding of Rust's \<open>f32\<close> and \<open>f64\<close>: the result of an arithmetic operation is the exact
  result rounded to the nearest representable number, ties to even. A finite value is a
  real number. \<open>float_round p k\<close> rounds to \<open>p\<close> significant bits with \<open>2 ^ - k\<close> as the
  smallest positive number, subnormal numbers included. The values of the program stay
  far below the largest finite number; infinities and NaN do not occur in the model.
\<close>

definition round_half_even :: "real \<Rightarrow> int" where
  "round_half_even x =
     (let n = \<lfloor>x\<rfloor>; r = x - of_int n
      in if r < 1 / 2 \<or> r = 1 / 2 \<and> even n then n else n + 1)"

definition ulp_shift :: "nat \<Rightarrow> nat \<Rightarrow> real \<Rightarrow> nat" where
  "ulp_shift p k x = floorlog 2 (nat \<lfloor>\<bar>x\<bar> * 2 ^ k\<rfloor>) - p"

definition float_round :: "nat \<Rightarrow> nat \<Rightarrow> real \<Rightarrow> real" where
  "float_round p k x =
     (let e = ulp_shift p k x
      in of_int (round_half_even (x * 2 ^ k / 2 ^ e)) * 2 ^ e / 2 ^ k)"

definition f32 :: "real \<Rightarrow> real" where
  "f32 = float_round 24 149"

definition f64 :: "real \<Rightarrow> real" where
  "f64 = float_round 53 1074"

section \<open>Rounding is monotone towards representable numbers\<close>

lemma round_half_even_le: "x \<le> of_int n \<Longrightarrow> round_half_even x \<le> n"
proof -
  assume le: "x \<le> of_int n"
  show ?thesis
  proof (cases "\<lfloor>x\<rfloor> = n")
    case True
    then have "x = of_int n" using le by linarith
    then show ?thesis by (simp add: round_half_even_def)
  next
    case False
    then have "\<lfloor>x\<rfloor> + 1 \<le> n" using le by linarith
    then show ?thesis by (simp add: round_half_even_def Let_def)
  qed
qed

lemma round_half_even_ge: "of_int n \<le> x \<Longrightarrow> n \<le> round_half_even x"
  using le_floor_iff [of n x] by (auto simp: round_half_even_def Let_def)

lemma float_round_le_grid:
  assumes "x \<le> of_int n * 2 ^ ulp_shift p k x / 2 ^ k"
  shows "float_round p k x \<le> of_int n * 2 ^ ulp_shift p k x / 2 ^ k"
proof -
  have "x * 2 ^ k / 2 ^ ulp_shift p k x \<le> of_int n"
    using assms by (simp add: field_simps)
  then have "of_int (round_half_even (x * 2 ^ k / 2 ^ ulp_shift p k x)) \<le> (of_int n :: real)"
    using round_half_even_le of_int_le_iff by blast
  then show ?thesis by (simp add: float_round_def Let_def divide_right_mono)
qed

lemma float_round_ge_grid:
  assumes "of_int n * 2 ^ ulp_shift p k x / 2 ^ k \<le> x"
  shows "of_int n * 2 ^ ulp_shift p k x / 2 ^ k \<le> float_round p k x"
proof -
  have "of_int n \<le> x * 2 ^ k / 2 ^ ulp_shift p k x"
    using assms by (simp add: field_simps)
  then have "of_int n \<le> (of_int (round_half_even (x * 2 ^ k / 2 ^ ulp_shift p k x)) :: real)"
    using round_half_even_ge of_int_le_iff by blast
  then show ?thesis by (simp add: float_round_def Let_def divide_right_mono)
qed

lemma float_round_nonneg: "0 \<le> x \<Longrightarrow> 0 \<le> float_round p k x"
  using float_round_ge_grid [of 0 p k x] by simp

lemma ulp_shift_small:
  assumes "\<bar>x\<bar> < 2 ^ p / 2 ^ j" "j \<le> k"
  shows "ulp_shift p k x \<le> k - j"
proof -
  have "\<bar>x\<bar> * 2 ^ k < 2 ^ (p + (k - j))"
    using assms by (simp add: power_add power_diff field_simps)
  then have "\<lfloor>\<bar>x\<bar> * 2 ^ k\<rfloor> < 2 ^ (p + (k - j))"
    by (simp add: floor_less_iff)
  then have "nat \<lfloor>\<bar>x\<bar> * 2 ^ k\<rfloor> < 2 ^ (p + (k - j))"
    by (simp add: nat_less_iff)
  then have "floorlog 2 (nat \<lfloor>\<bar>x\<bar> * 2 ^ k\<rfloor>) \<le> p + (k - j)"
    by (simp add: floorlog_le_iff)
  then show ?thesis by (simp add: ulp_shift_def)
qed

text \<open>A multiple of \<open>2 ^ - j\<close> bounds the rounded value when it bounds the exact one.\<close>

lemma float_round_le:
  assumes "x \<le> of_int n / 2 ^ j" "\<bar>x\<bar> < 2 ^ p / 2 ^ j" "j \<le> k"
  shows "float_round p k x \<le> of_int n / 2 ^ j"
proof -
  let ?e = "ulp_shift p k x"
  have e: "?e \<le> k - j" by (rule ulp_shift_small [OF assms(2,3)])
  have "of_int n / 2 ^ j = of_int (n * 2 ^ (k - j - ?e)) * 2 ^ ?e / (2 :: real) ^ k"
    using e assms(3) by (simp add: field_simps flip: power_add)
  then show ?thesis using float_round_le_grid [of x "n * 2 ^ (k - j - ?e)" p k] assms(1) by simp
qed

lemma float_round_ge:
  assumes "of_int n / 2 ^ j \<le> x" "\<bar>x\<bar> < 2 ^ p / 2 ^ j" "j \<le> k"
  shows "of_int n / 2 ^ j \<le> float_round p k x"
proof -
  let ?e = "ulp_shift p k x"
  have e: "?e \<le> k - j" by (rule ulp_shift_small [OF assms(2,3)])
  have "of_int n / 2 ^ j = of_int (n * 2 ^ (k - j - ?e)) * 2 ^ ?e / (2 :: real) ^ k"
    using e assms(3) by (simp add: field_simps flip: power_add)
  then show ?thesis using float_round_ge_grid [of "n * 2 ^ (k - j - ?e)" p k x] assms(1) by simp
qed

lemma float_round_exact:
  assumes "x = of_int n / 2 ^ j" "\<bar>x\<bar> < 2 ^ p / 2 ^ j" "j \<le> k"
  shows "float_round p k x = x"
  using float_round_le [of x n j p k] float_round_ge [of n j x p k] assms by simp

lemma f64_nonneg: "0 \<le> x \<Longrightarrow> 0 \<le> f64 x"
  by (simp add: f64_def float_round_nonneg)

lemma f64_le_nat:
  assumes "0 \<le> x" "x \<le> real n" "n < 2 ^ 53"
  shows "f64 x \<le> real n"
proof -
  have "\<bar>x\<bar> < 2 ^ 53" using assms by (simp add: less_le_trans of_nat_less_numeral_power_cancel_iff order_le_less_trans)
  then show ?thesis using assms float_round_le [of x "int n" 0 53 1074] by (simp add: f64_def)
qed

lemma f64_nat: "n < 2 ^ 53 \<Longrightarrow> f64 (real n) = real n"
  using float_round_exact [of "real n" "int n" 0 53 1074] by (simp add: f64_def of_nat_less_numeral_power_cancel_iff)

end
