(* ===== verification/Trust.thy ===== *)
theory Trust
  imports Floats "HOL-Library.List_Lexorder" "HOL-Library.Char_ord"
begin

text \<open>
  The trust scores of \<open>hiveguard-core/src/trust.rs\<close>. Every operation on \<open>f64\<close> is the exact
  one followed by \<open>f64\<close>, the rounding to the nearest double; \<open>Utc::now()\<close> is an argument.
\<close>

record TrustScore =
  ts_score :: real
  true_positives :: u64
  false_positives :: u64
  joined_at :: instant
  minority_penalties :: u32

definition days :: "nat \<Rightarrow> int" where
  "days n = int (secs (n * 86400))"

definition ts_with_join_time :: "instant \<Rightarrow> TrustScore" where
  "ts_with_join_time joined =
     \<lparr>ts_score = 1 / 2, true_positives = 0, false_positives = 0, joined_at = joined, minority_penalties = 0\<rparr>"

definition ts_new :: "instant \<Rightarrow> TrustScore" where
  "ts_new now =
     \<lparr>ts_score = 1 / 2, true_positives = 0, false_positives = 0, joined_at = now, minority_penalties = 0\<rparr>"

definition ts_founder :: "instant \<Rightarrow> TrustScore" where
  "ts_founder now =
     \<lparr>ts_score = 1, true_positives = 100, false_positives = 0, joined_at = now - days 30, minority_penalties = 0\<rparr>"

record BanReport =
  reporter_id :: string
  event_weight :: real

record TrustManager =
  trust_scores :: "(string, TrustScore) hmap"
  ban_threshold :: real
  ip_reports :: "(string, BanReport list) hmap"

definition tm_new :: "real \<Rightarrow> TrustManager" where
  "tm_new threshold = \<lparr>trust_scores = hm_empty, ban_threshold = threshold, ip_reports = hm_empty\<rparr>"

text \<open>\<open>HashMap::entry(k).or_insert(v)\<close> without further change.\<close>

definition or_insert :: "'k \<Rightarrow> 'v \<Rightarrow> ('k, 'v) hmap \<Rightarrow> ('k, 'v) hmap" where
  "or_insert k v m = (if hm_contains m k then m else hm_insert k v m)"

definition register_node :: "instant \<Rightarrow> string \<Rightarrow> TrustManager \<Rightarrow> TrustManager" where
  "register_node now node_id tm = tm\<lparr>trust_scores := or_insert node_id (ts_new now) (trust_scores tm)\<rparr>"

definition register_founder_node :: "instant \<Rightarrow> string \<Rightarrow> TrustManager \<Rightarrow> TrustManager" where
  "register_founder_node now node_id tm = tm\<lparr>trust_scores := or_insert node_id (ts_founder now) (trust_scores tm)\<rparr>"

definition register_node_with_time :: "string \<Rightarrow> instant \<Rightarrow> TrustManager \<Rightarrow> TrustManager" where
  "register_node_with_time node_id joined tm =
     tm\<lparr>trust_scores := or_insert node_id (ts_with_join_time joined) (trust_scores tm)\<rparr>"

definition u64_as_f64 :: "u64 \<Rightarrow> real" where
  "u64_as_f64 n = f64 (real (unat n))"

definition calculate_score :: "instant \<Rightarrow> u64 \<Rightarrow> u64 \<Rightarrow> instant \<Rightarrow> real" where
  "calculate_score now tp fp joined =
     (let base = f64 (u64_as_f64 tp / f64 (f64 (u64_as_f64 tp + u64_as_f64 fp) + 1));
          elapsed = now - joined;
          seniority_bonus = (if elapsed \<ge> days 7 then f64 (2 / 10) else if elapsed \<ge> days 1 then f64 (1 / 10) else 0)
      in min (f64 (base + seniority_bonus)) 1)"

text \<open>An update of the score of a registered node; other nodes are left alone.\<close>

definition update_score :: "string \<Rightarrow> (TrustScore \<Rightarrow> TrustScore) \<Rightarrow> TrustManager \<Rightarrow> TrustManager" where
  "update_score node_id f tm =
     (case hm_get (trust_scores tm) node_id of
        Some ts \<Rightarrow> tm\<lparr>trust_scores := hm_insert node_id (f ts) (trust_scores tm)\<rparr>
      | None \<Rightarrow> tm)"

definition record_true_positive :: "instant \<Rightarrow> string \<Rightarrow> TrustManager \<Rightarrow> TrustManager" where
  "record_true_positive now node_id = update_score node_id (\<lambda>ts.
     let tp = true_positives ts + 1
     in ts\<lparr>true_positives := tp, ts_score := calculate_score now tp (false_positives ts) (joined_at ts)\<rparr>)"

definition record_false_positive :: "instant \<Rightarrow> string \<Rightarrow> TrustManager \<Rightarrow> TrustManager" where
  "record_false_positive now node_id = update_score node_id (\<lambda>ts.
     let fp = false_positives ts + 1
     in ts\<lparr>false_positives := fp, ts_score := calculate_score now (true_positives ts) fp (joined_at ts)\<rparr>)"

definition penalize_minority_reporter :: "string \<Rightarrow> TrustManager \<Rightarrow> TrustManager" where
  "penalize_minority_reporter node_id = update_score node_id (\<lambda>ts.
     ts\<lparr>minority_penalties := (if minority_penalties ts = - 1 then - 1 else minority_penalties ts + 1),
        ts_score := max (f64 (ts_score ts * f64 (9 / 10))) (f64 (1 / 10))\<rparr>)"

definition f64_sum :: "real list \<Rightarrow> real" where
  "f64_sum xs = foldl (\<lambda>total x. f64 (total + x)) 0 xs"

definition should_enforce :: "TrustManager \<Rightarrow> string list \<Rightarrow> bool" where
  "should_enforce tm reporters \<longleftrightarrow>
     f64_sum (List.map ts_score (List.map_filter (hm_get (trust_scores tm)) reporters)) \<ge> ban_threshold tm"

definition record_ban_report :: "string \<Rightarrow> string \<Rightarrow> real \<Rightarrow> TrustManager \<Rightarrow> TrustManager" where
  "record_ban_report target_ip reporter weight tm =
     tm\<lparr>ip_reports := hm_insert target_ip
        (hm_get_or [] (ip_reports tm) target_ip @ [\<lparr>reporter_id = reporter, event_weight = weight\<rparr>])
        (ip_reports tm)\<rparr>"

definition keep_max_weight :: "BanReport \<Rightarrow> (string, real) hmap \<Rightarrow> (string, real) hmap" where
  "keep_max_weight report m =
     (let entry = hm_get_or 0 m (reporter_id report)
      in hm_insert (reporter_id report) (if event_weight report > entry then event_weight report else entry) m)"

definition weighted_suspicion_score :: "TrustManager \<Rightarrow> string \<Rightarrow> real" where
  "weighted_suspicion_score tm target_ip =
     (case hm_get (ip_reports tm) target_ip of
        None \<Rightarrow> 0
      | Some reports \<Rightarrow>
          f64_sum (List.map
            (\<lambda>(reporter, v).
               let w = (case hm_get (trust_scores tm) reporter of Some ts \<Rightarrow> ts_score ts | None \<Rightarrow> 0)
               in f64 (w * v))
            (fold keep_max_weight reports hm_empty)))"

definition should_global_ban :: "TrustManager \<Rightarrow> string \<Rightarrow> bool" where
  "should_global_ban tm target_ip \<longleftrightarrow> weighted_suspicion_score tm target_ip \<ge> ban_threshold tm"

definition clear_reports :: "string \<Rightarrow> TrustManager \<Rightarrow> TrustManager" where
  "clear_reports target_ip tm = tm\<lparr>ip_reports := hm_remove target_ip (ip_reports tm)\<rparr>"

text \<open>Vectors after \<open>sort_unstable\<close> and \<open>dedup\<close>.\<close>

definition distinct_reporters :: "BanReport list \<Rightarrow> string list" where
  "distinct_reporters reports = remdups_adj (sort (List.map reporter_id reports))"

definition isolated_ips :: "nat \<Rightarrow> TrustManager \<Rightarrow> string list" where
  "isolated_ips min_corroboration tm =
     List.map fst (filter (\<lambda>(ip, reports).
       \<not> weighted_suspicion_score tm ip \<ge> ban_threshold tm
       \<and> length (distinct_reporters reports) < min_corroboration) (ip_reports tm))"

definition drain_ip :: "string \<Rightarrow> TrustManager \<times> string list \<Rightarrow> TrustManager \<times> string list" where
  "drain_ip ip = (\<lambda>(tm, penalized).
     case hm_get (ip_reports tm) ip of
       None \<Rightarrow> (tm, penalized)
     | Some reports \<Rightarrow>
         (fold penalize_minority_reporter (distinct_reporters reports)
            (tm\<lparr>ip_reports := hm_remove ip (ip_reports tm)\<rparr>),
          penalized @ distinct_reporters reports))"

definition drain_isolated_reports :: "nat \<Rightarrow> TrustManager \<Rightarrow> string list \<times> TrustManager" where
  "drain_isolated_reports min_corroboration tm =
     (case fold drain_ip (isolated_ips min_corroboration tm) (tm, []) of (tm', penalized) \<Rightarrow> (penalized, tm'))"

definition is_in_grace_period :: "instant \<Rightarrow> TrustManager \<Rightarrow> string \<Rightarrow> bool" where
  "is_in_grace_period now tm node_id =
     (case hm_get (trust_scores tm) node_id of Some ts \<Rightarrow> now - joined_at ts < days 1 | None \<Rightarrow> True)"

definition effective_threshold :: "instant \<Rightarrow> TrustManager \<Rightarrow> string \<Rightarrow> real" where
  "effective_threshold now tm node_id =
     (if is_in_grace_period now tm node_id then f64 (ban_threshold tm * 2) else ban_threshold tm)"

section \<open>Runs of a trust manager\<close>

datatype trust_op =
    TRegister instant string | TFounder instant string | TWithTime string instant
  | TTruePositive instant string | TFalsePositive instant string | TPenalize string
  | TReport string string real | TClear string | TDrain nat

fun trust_step :: "trust_op \<Rightarrow> TrustManager \<Rightarrow> TrustManager" where
  "trust_step (TRegister now n) tm = register_node now n tm"
| "trust_step (TFounder now n) tm = register_founder_node now n tm"
| "trust_step (TWithTime n t) tm = register_node_with_time n t tm"
| "trust_step (TTruePositive now n) tm = record_true_positive now n tm"
| "trust_step (TFalsePositive now n) tm = record_false_positive now n tm"
| "trust_step (TPenalize n) tm = penalize_minority_reporter n tm"
| "trust_step (TReport ip n w) tm = record_ban_report ip n w tm"
| "trust_step (TClear ip) tm = clear_reports ip tm"
| "trust_step (TDrain k) tm = snd (drain_isolated_reports k tm)"

text \<open>Every score lies between 0 and 1, and the threshold is the configured one.\<close>

definition trust_inv :: "real \<Rightarrow> TrustManager \<Rightarrow> bool" where
  "trust_inv threshold tm \<longleftrightarrow> ban_threshold tm = threshold
     \<and> (\<forall>n ts. hm_get (trust_scores tm) n = Some ts \<longrightarrow> 0 \<le> ts_score ts \<and> ts_score ts \<le> 1)"

lemma u64_as_f64_nonneg: "0 \<le> u64_as_f64 n"
  unfolding u64_as_f64_def by (intro f64_nonneg of_nat_0_le_iff)

lemma calculate_score_unit: "0 \<le> calculate_score now tp fp joined" "calculate_score now tp fp joined \<le> 1"
proof -
  let ?d = "f64 (f64 (u64_as_f64 tp + u64_as_f64 fp) + 1)"
  have "0 \<le> ?d" by (intro f64_nonneg add_nonneg_nonneg u64_as_f64_nonneg zero_le_one)
  then have "0 \<le> f64 (u64_as_f64 tp / ?d)" by (simp add: f64_nonneg u64_as_f64_nonneg)
  then have "0 \<le> f64 (f64 (u64_as_f64 tp / ?d) + b)" if "0 \<le> b" for b
    using that by (intro f64_nonneg) simp
  then show "0 \<le> calculate_score now tp fp joined" by (simp add: calculate_score_def Let_def f64_nonneg)
  show "calculate_score now tp fp joined \<le> 1" by (simp add: calculate_score_def Let_def)
qed

lemma f64_le_one: "0 \<le> x \<Longrightarrow> x \<le> 1 \<Longrightarrow> f64 x \<le> 1"
  using f64_le_nat [of x 1] by simp

lemma penalty_unit:
  assumes "0 \<le> s" "s \<le> 1"
  shows "0 \<le> max (f64 (s * f64 (9 / 10))) (f64 (1 / 10))" "max (f64 (s * f64 (9 / 10))) (f64 (1 / 10)) \<le> 1"
proof -
  have nine: "0 \<le> f64 (9 / 10)" "f64 (9 / 10) \<le> 1" by (simp_all add: f64_nonneg f64_le_one)
  then have "s * f64 (9 / 10) \<le> 1" using assms by (simp add: mult_le_one)
  then show "max (f64 (s * f64 (9 / 10))) (f64 (1 / 10)) \<le> 1"
    using assms nine by (simp add: f64_le_one)
  show "0 \<le> max (f64 (s * f64 (9 / 10))) (f64 (1 / 10))" by (simp add: le_max_iff_disj f64_nonneg)
qed

lemma trust_inv_update:
  assumes "trust_inv t tm" "\<And>ts. 0 \<le> ts_score ts \<Longrightarrow> ts_score ts \<le> 1 \<Longrightarrow> 0 \<le> ts_score (f ts) \<and> ts_score (f ts) \<le> 1"
  shows "trust_inv t (update_score n f tm)"
  using assms by (auto simp: trust_inv_def update_score_def split: option.splits)

lemma trust_inv_or_insert:
  assumes "trust_inv t tm" "0 \<le> ts_score ts" "ts_score ts \<le> 1"
  shows "trust_inv t (tm\<lparr>trust_scores := or_insert n ts (trust_scores tm)\<rparr>)"
  using assms by (auto simp: trust_inv_def or_insert_def split: if_splits)

lemma trust_inv_reports [simp]: "trust_inv t (tm\<lparr>ip_reports := r\<rparr>) = trust_inv t tm"
  by (simp add: trust_inv_def)

lemma trust_inv_penalize: "trust_inv t tm \<Longrightarrow> trust_inv t (penalize_minority_reporter n tm)"
  unfolding penalize_minority_reporter_def by (rule trust_inv_update) (use penalty_unit in \<open>auto simp del: max.bounded_iff\<close>)

lemma trust_inv_fold_penalize: "trust_inv t tm \<Longrightarrow> trust_inv t (fold penalize_minority_reporter ns tm)"
  by (induction ns arbitrary: tm) (simp_all add: trust_inv_penalize)

lemma trust_inv_drain: "trust_inv t tm \<Longrightarrow> trust_inv t (fst (fold drain_ip ips (tm, p)))"
  by (induction ips arbitrary: tm p) (auto simp: drain_ip_def trust_inv_fold_penalize split: option.splits)

lemma trust_step_inv: "trust_inv t tm \<Longrightarrow> trust_inv t (trust_step op tm)"
proof (cases op)
  case (TDrain k)
  assume "trust_inv t tm"
  then show ?thesis using trust_inv_drain [of t tm "isolated_ips k tm" "[]"] TDrain
    by (cases "fold drain_ip (isolated_ips k tm) (tm, [])") (simp add: drain_isolated_reports_def)
qed (simp_all add: register_node_def register_founder_node_def register_node_with_time_def trust_inv_or_insert
  ts_new_def ts_founder_def ts_with_join_time_def record_true_positive_def record_false_positive_def Let_def
  trust_inv_update calculate_score_unit trust_inv_penalize record_ban_report_def clear_reports_def)

lemma trust_fold_inv: "trust_inv t tm \<Longrightarrow> trust_inv t (fold trust_step ops tm)"
  by (induction ops arbitrary: tm) (simp_all add: trust_step_inv)

lemma trust_run_inv: "trust_inv t (fold trust_step ops (tm_new t))"
  by (rule trust_fold_inv) (simp add: tm_new_def trust_inv_def)

section \<open>The quorum behind a decision\<close>

lemma f64_sum_bounds:
  assumes "\<forall>x \<in> set xs. 0 \<le> x \<and> x \<le> 1" "length xs < 2 ^ 53"
  shows "0 \<le> f64_sum xs \<and> f64_sum xs \<le> real (length xs)"
  using assms
proof (induction xs rule: rev_induct)
  case (snoc x xs)
  then have "0 \<le> f64_sum xs + x" "f64_sum xs + x \<le> real (Suc (length xs))" by simp_all
  then show ?case using snoc.prems f64_le_nat [of "f64_sum xs + x" "Suc (length xs)"]
    by (simp add: f64_sum_def f64_nonneg)
qed (simp add: f64_sum_def)

lemma length_map_filter: "length (List.map_filter f xs) = length (filter (\<lambda>x. f x \<noteq> None) xs)"
  by (simp add: List.map_filter_def)

lemma should_enforce_quorum:
  assumes "trust_inv t tm" "should_enforce tm reporters" "distinct reporters" "length reporters < 2 ^ 53"
  shows "t \<le> real (card {n \<in> set reporters. hm_contains (trust_scores tm) n})"
proof -
  let ?xs = "List.map ts_score (List.map_filter (hm_get (trust_scores tm)) reporters)"
  have "\<forall>x \<in> set ?xs. 0 \<le> x \<and> x \<le> 1" using assms(1) by (auto simp: trust_inv_def List.map_filter_def)
  moreover have len: "length ?xs = card {n \<in> set reporters. hm_contains (trust_scores tm) n}"
    using assms(3) distinct_card [of "filter (hm_contains (trust_scores tm)) reporters"]
    by (simp add: length_map_filter)
  moreover have "length ?xs < 2 ^ 53"
    unfolding length_map length_map_filter using assms(4) by (rule le_less_trans [OF length_filter_le])
  ultimately have "f64_sum ?xs \<le> real (card {n \<in> set reporters. hm_contains (trust_scores tm) n})"
    using f64_sum_bounds [of ?xs] by simp
  then show ?thesis using assms(1,2) by (simp add: should_enforce_def trust_inv_def)
qed

end
