(* ===== verification/Codec.thy ===== *)
theory Codec
  imports Prelude
begin

text \<open>
  Byte-level encodings. \<open>to_le_bytes\<close> and \<open>from_le_bytes\<close> are the standard library's.
  The serialisation crates (\<open>postcard\<close>, \<open>bincode\<close>) are not under \<open>src/\<close>: a \<open>codec\<close> is the
  pair of functions the code calls, an argument of the definitions that use it, and
  the locale \<open>codec_spec\<close> is the documented round trip: decoding what was encoded
  gives the value and leaves the bytes that follow. \<open>table_codec\<close> is a concrete
  codec for a finite table of values.
\<close>

definition u32_to_le_bytes :: "u32 \<Rightarrow> byte list" where
  "u32_to_le_bytes x =
     [ucast x, ucast (drop_bit 8 x), ucast (drop_bit 16 x), ucast (drop_bit 24 x)]"

fun u32_from_le_bytes :: "byte list \<Rightarrow> u32" where
  "u32_from_le_bytes [a, b, c, d] =
     ucast a OR push_bit 8 (ucast b) OR push_bit 16 (ucast c) OR push_bit 24 (ucast d)"
| "u32_from_le_bytes _ = 0"

lemma u32_le_roundtrip [simp]: "u32_from_le_bytes (u32_to_le_bytes x) = x"
proof (rule bit_word_eqI)
  fix n assume n: "n < LENGTH(32)"
  then have "n < 32" by simp
  then consider "n < 8" | "8 \<le> n" "n < 16" | "16 \<le> n" "n < 24" | "24 \<le> n" "n < 32" by linarith
  then show "bit (u32_from_le_bytes (u32_to_le_bytes x)) n = bit x n"
    by cases (auto simp: u32_to_le_bytes_def bit_simps)
qed

lemma length_u32_to_le_bytes [simp]: "length (u32_to_le_bytes x) = 4"
  by (simp add: u32_to_le_bytes_def)

definition u64_to_le_bytes :: "u64 \<Rightarrow> byte list" where
  "u64_to_le_bytes x = List.map (\<lambda>i. ucast (drop_bit (8 * i) x)) [0 ..< 8]"

text \<open>\<open>Read::read_exact\<close> on the bytes that are left: the bytes and the rest, or end of file.\<close>

definition read_exact :: "nat \<Rightarrow> byte list \<Rightarrow> (byte list \<times> byte list) option" where
  "read_exact n bs = (if length bs < n then None else Some (take n bs, drop n bs))"

lemma read_exact_append [simp]: "length xs = n \<Longrightarrow> read_exact n (xs @ ys) = Some (xs, ys)"
  by (auto simp: read_exact_def)

lemma read_exact_SomeD: "read_exact n bs = Some (xs, ys) \<Longrightarrow> bs = xs @ ys \<and> length xs = n"
  by (auto simp: read_exact_def split: if_splits)

lemma read_exact_take:
  "read_exact n (take k bs) =
     (case read_exact n bs of
        Some (xs, ys) \<Rightarrow> if n \<le> k then Some (xs, take (k - n) ys) else None
      | None \<Rightarrow> None)"
  by (auto simp: read_exact_def drop_take min_def)

record 'a codec =
  encode :: "'a \<Rightarrow> byte list option"
  decode :: "byte list \<Rightarrow> ('a \<times> byte list) option"

locale codec_spec =
  fixes C :: "'a codec"
  assumes decode_encode: "encode C x = Some bs \<Longrightarrow> decode C (bs @ rest) = Some (x, rest)"
begin

lemma decode_whole: "encode C x = Some bs \<Longrightarrow> decode C bs = Some (x, [])"
  using decode_encode [of x bs "[]"] by simp

lemma encode_inj: "encode C x = Some bs \<Longrightarrow> encode C y = Some bs \<Longrightarrow> x = y"
  using decode_whole [of x bs] decode_whole [of y bs] by simp

end

fun index_of :: "'a list \<Rightarrow> 'a \<Rightarrow> nat option" where
  "index_of [] y = None"
| "index_of (x # xs) y = (if x = y then Some 0 else map_option Suc (index_of xs y))"

definition table_codec :: "'a list \<Rightarrow> 'a codec" where
  "table_codec tab = \<lparr>
     encode = (\<lambda>x. case index_of tab x of
         Some i \<Rightarrow> if i < 256 then Some [of_nat i] else None
       | None \<Rightarrow> None),
     decode = (\<lambda>bs. case bs of
         [] \<Rightarrow> None
       | b # rest \<Rightarrow> if unat b < length tab then Some (tab ! unat b, rest) else None)\<rparr>"

lemma index_of_SomeD: "index_of xs x = Some i \<Longrightarrow> i < length xs \<and> xs ! i = x"
  by (induction xs arbitrary: i) (auto split: if_splits)

lemma table_codec_spec: "codec_spec (table_codec tab)"
  by unfold_locales
    (auto simp: table_codec_def unat_of_nat dest: index_of_SomeD split: option.splits if_splits)

interpretation table: codec_spec "table_codec tab" for tab
  by (rule table_codec_spec)

end
