(* ===== verification/Hashcash.thy ===== *)
theory Hashcash
  imports Codec
begin

text \<open>
  The proof-of-work stamps of \<open>hiveguard-core/src/hashcash.rs\<close>. The hash function
  \<open>digest\<close> is an argument, a function from bytes to bytes; that its results have 32
  bytes is a hypothesis of the theorems. The loop over nonces is a recursion on the
  64-bit nonce.
\<close>

record PowStamp =
  nonce :: u64
  difficulty :: u8

definition MIN_DIFFICULTY :: u8 where
  "MIN_DIFFICULTY = 16"

datatype pow_error = BelowMinimum u8 | PowFailed u8 u64

definition compute_hash :: "(byte list \<Rightarrow> byte list) \<Rightarrow> u64 \<Rightarrow> byte list \<Rightarrow> byte list" where
  "compute_hash digest n data = digest (u64_to_le_bytes n @ data)"

definition has_leading_zeros :: "byte list \<Rightarrow> nat \<Rightarrow> nat \<Rightarrow> bool" where
  "has_leading_zeros hash full_bytes remainder =
     (if list_ex (\<lambda>b. b \<noteq> 0) (take full_bytes hash) then False
      else if remainder > 0 then
        (let mask = push_bit (8 - remainder) 0xFF in hash ! full_bytes AND mask = 0)
      else True)"

function mine_loop ::
    "(byte list \<Rightarrow> byte list) \<Rightarrow> byte list \<Rightarrow> u8 \<Rightarrow> u64 \<Rightarrow> u64 \<Rightarrow> PowStamp option" where
  "mine_loop digest canonical_bytes diff max_attempts n =
     (if n < max_attempts then
        (let hash = compute_hash digest n canonical_bytes in
         if has_leading_zeros hash (unat diff div 8) (unat diff mod 8)
         then Some \<lparr>nonce = n, difficulty = diff\<rparr>
         else mine_loop digest canonical_bytes diff max_attempts (n + 1))
      else None)"
  by pat_completeness auto
termination
proof (relation "measure (\<lambda>(_, _, _, m, n). unat m - unat n)")
  fix m n :: u64
  assume "n < m"
  then have "unat n < unat m" by (simp add: word_less_nat_alt)
  moreover have "unat m < 2 ^ 64" using unsigned_less [of m] by simp
  ultimately have "unat (n + 1) = Suc (unat n)" "unat n < unat m"
    by (simp_all add: unat_word_ariths)
  then show "((f, d, k, m, n + 1), (f, d, k, m, n)) \<in> measure (\<lambda>(_, _, _, m, n). unat m - unat n)"
    for f d k by simp
qed simp

declare mine_loop.simps [simp del]

definition mine :: "(byte list \<Rightarrow> byte list) \<Rightarrow> byte list \<Rightarrow> u8 \<Rightarrow> u64 \<Rightarrow> PowStamp option" where
  "mine digest canonical_bytes diff max_attempts = mine_loop digest canonical_bytes diff max_attempts 0"

definition verify :: "(byte list \<Rightarrow> byte list) \<Rightarrow> byte list \<Rightarrow> PowStamp \<Rightarrow> pow_error + unit" where
  "verify digest canonical_bytes stamp =
     (if difficulty stamp < MIN_DIFFICULTY then Inl (BelowMinimum (difficulty stamp))
      else
        let hash = compute_hash digest (nonce stamp) canonical_bytes;
            full_bytes = unat (difficulty stamp) div 8;
            remainder = unat (difficulty stamp) mod 8
        in if has_leading_zeros hash full_bytes remainder then Inr ()
           else Inl (PowFailed (difficulty stamp) (nonce stamp)))"

section \<open>Mined stamps verify\<close>

lemma mine_loop_sound:
  "mine_loop digest data d m n = Some p \<Longrightarrow>
     difficulty p = d \<and> has_leading_zeros (compute_hash digest (nonce p) data) (unat d div 8) (unat d mod 8)"
proof (induction digest data d m n rule: mine_loop.induct)
  case (1 digest data d m n)
  then show ?case
    by (subst (asm) (2) mine_loop.simps) (auto simp: Let_def split: if_splits)
qed

lemma mine_verifies: "mine digest data d m = Some p \<Longrightarrow> MIN_DIFFICULTY \<le> d \<Longrightarrow> verify digest data p = Inr ()"
  using mine_loop_sound [of digest data d m 0 p] by (auto simp: mine_def verify_def Let_def)

section \<open>Leading zero bits\<close>

text \<open>Bit \<open>i\<close> of a byte string, the most significant bit of the first byte first.\<close>

definition bit_at :: "byte list \<Rightarrow> nat \<Rightarrow> bool" where
  "bit_at bs i = bit (bs ! (i div 8)) (7 - i mod 8)"

lemma byte_mask_zero:
  assumes "0 < r" "r < 8"
  shows "(b :: byte) AND push_bit (8 - r) 0xFF = 0 \<longleftrightarrow> (\<forall>i < r. \<not> bit b (7 - i))"
proof -
  have ff: "(0xFF :: byte) = - 1" by simp
  have "b AND push_bit (8 - r) 0xFF = 0 \<longleftrightarrow> (\<forall>j < 8. \<not> (bit b j \<and> 8 - r \<le> j))"
    unfolding ff by (auto simp: bit_eq_iff bit_and_iff bit_not_iff bit_mask_iff)
  also have "\<dots> \<longleftrightarrow> (\<forall>i < r. \<not> bit b (7 - i))"
  proof
    assume *: "\<forall>j < 8. \<not> (bit b j \<and> 8 - r \<le> j)"
    show "\<forall>i < r. \<not> bit b (7 - i)" using * assms by (auto dest: spec [of _ "7 - _"])
  next
    assume *: "\<forall>i < r. \<not> bit b (7 - i)"
    show "\<forall>j < 8. \<not> (bit b j \<and> 8 - r \<le> j)"
    proof (intro allI impI notI)
      fix j :: nat assume j: "j < 8" "bit b j \<and> 8 - r \<le> j"
      then have "7 - j < r" "7 - (7 - j) = j" using assms by linarith+
      then show False using * j by metis
    qed
  qed
  finally show ?thesis .
qed

lemma has_leading_zeros_iff:
  assumes "length hash = 32" "d < 256"
  shows "has_leading_zeros hash (d div 8) (d mod 8) \<longleftrightarrow> (\<forall>i < d. \<not> bit_at hash i)"
proof -
  let ?q = "d div 8" and ?r = "d mod 8"
  have q: "?q < 32" using assms(2) by simp
  have byte0: "b = 0 \<longleftrightarrow> (\<forall>i < 8. \<not> bit b (7 - i))" for b :: byte
  proof
    assume *: "\<forall>i < 8. \<not> bit b (7 - i)"
    have "\<not> bit b j" if "j < 8" for j using * [rule_format, of "7 - j"] that by simp
    then show "b = 0" by (intro bit_word_eqI) simp
  qed simp
  have full: "\<not> list_ex (\<lambda>b. b \<noteq> 0) (take ?q hash) \<longleftrightarrow> (\<forall>i < 8 * ?q. \<not> bit_at hash i)"
  proof
    assume *: "\<not> list_ex (\<lambda>b. b \<noteq> 0) (take ?q hash)"
    show "\<forall>i < 8 * ?q. \<not> bit_at hash i"
    proof (intro allI impI)
      fix i assume i: "i < 8 * ?q"
      then have "hash ! (i div 8) \<in> set (take ?q hash)"
        using q assms(1) by (auto simp: in_set_conv_nth intro!: exI [of _ "i div 8"])
      then show "\<not> bit_at hash i" using * by (auto simp: bit_at_def list_ex_iff)
    qed
  next
    assume *: "\<forall>i < 8 * ?q. \<not> bit_at hash i"
    have "hash ! k = 0" if k: "k < ?q" for k
      unfolding byte0
    proof (intro allI impI)
      fix i :: nat assume "i < 8"
      then show "\<not> bit (hash ! k) (7 - i)" using *[rule_format, of "8 * k + i"] k by (simp add: bit_at_def)
    qed
    then show "\<not> list_ex (\<lambda>b. b \<noteq> 0) (take ?q hash)"
      using assms(1) q by (auto simp: list_ex_iff in_set_conv_nth)
  qed
  have rest: "(\<forall>i < ?r. \<not> bit (hash ! ?q) (7 - i)) \<longleftrightarrow> (\<forall>i. 8 * ?q \<le> i \<and> i < d \<longrightarrow> \<not> bit_at hash i)"
  proof -
    have at: "bit_at hash (8 * ?q + k) = bit (hash ! ?q) (7 - k)" if "k < 8" for k
      using that by (simp add: bit_at_def)
    show ?thesis
    proof
      assume *: "\<forall>i < ?r. \<not> bit (hash ! ?q) (7 - i)"
      show "\<forall>i. 8 * ?q \<le> i \<and> i < d \<longrightarrow> \<not> bit_at hash i"
      proof (intro allI impI)
        fix i assume i: "8 * ?q \<le> i \<and> i < d"
        then obtain k where k: "i = 8 * ?q + k" using le_Suc_ex by blast
        then have "k < ?r" "k < 8" using i by (auto simp: modulo_nat_def)
        then show "\<not> bit_at hash i" using * at [of k] k by simp
      qed
    next
      assume *: "\<forall>i. 8 * ?q \<le> i \<and> i < d \<longrightarrow> \<not> bit_at hash i"
      show "\<forall>i < ?r. \<not> bit (hash ! ?q) (7 - i)"
      proof (intro allI impI)
        fix i assume i: "i < ?r"
        then have "8 * ?q + i < d" "i < 8" by (auto simp: modulo_nat_def)
        then show "\<not> bit (hash ! ?q) (7 - i)" using * at [of i] by simp
      qed
    qed
  qed
  have all: "(\<forall>i < d. \<not> bit_at hash i) \<longleftrightarrow>
      (\<forall>i < 8 * ?q. \<not> bit_at hash i) \<and> (\<forall>i. 8 * ?q \<le> i \<and> i < d \<longrightarrow> \<not> bit_at hash i)"
    using div_times_less_eq_dividend [of d 8] by (auto simp: linorder_not_le) (metis linorder_not_le)
  show ?thesis
  proof (cases "?r = 0")
    case True
    then have "has_leading_zeros hash ?q ?r = (\<not> list_ex (\<lambda>b. b \<noteq> 0) (take ?q hash))"
      by (simp add: has_leading_zeros_def)
    then show ?thesis using full all rest True by simp
  next
    case False
    then have "has_leading_zeros hash ?q ?r =
        (\<not> list_ex (\<lambda>b. b \<noteq> 0) (take ?q hash) \<and> hash ! ?q AND push_bit (8 - ?r) 0xFF = 0)"
      by (simp add: has_leading_zeros_def Let_def)
    moreover have "hash ! ?q AND push_bit (8 - ?r) 0xFF = 0 \<longleftrightarrow> (\<forall>i < ?r. \<not> bit (hash ! ?q) (7 - i))"
      using False by (intro byte_mask_zero) simp_all
    ultimately show ?thesis unfolding all full [symmetric] rest [symmetric] by (simp only:)
  qed
qed

section \<open>Mining and verification\<close>

definition solves :: "(byte list \<Rightarrow> byte list) \<Rightarrow> byte list \<Rightarrow> nat \<Rightarrow> u64 \<Rightarrow> bool" where
  "solves digest data d n \<longleftrightarrow> (\<forall>i < d. \<not> bit_at (digest (u64_to_le_bytes n @ data)) i)"

lemma compute_hash_solves:
  assumes "\<And>x. length (digest x) = 32"
  shows "has_leading_zeros (compute_hash digest n data) (unat (d :: u8) div 8) (unat d mod 8)
    = solves digest data (unat d) n"
proof -
  have "unat d < 256" using unsigned_less [of d] by simp
  then show ?thesis
    using has_leading_zeros_iff [of "digest (u64_to_le_bytes n @ data)" "unat d"] assms
    by (simp add: compute_hash_def solves_def)
qed

lemma mine_loop_spec:
  assumes "\<And>x. length (digest x) = 32"
  shows "case mine_loop digest data d m n of
      Some p \<Rightarrow> difficulty p = d \<and> n \<le> nonce p \<and> nonce p < m \<and> solves digest data (unat d) (nonce p)
        \<and> (\<forall>k. n \<le> k \<and> k < nonce p \<longrightarrow> \<not> solves digest data (unat d) k)
    | None \<Rightarrow> (\<forall>k. n \<le> k \<and> k < m \<longrightarrow> \<not> solves digest data (unat d) k)"
proof (induction "unat m - unat n" arbitrary: n rule: less_induct)
  case less
  note hash = compute_hash_solves [of digest n data d, OF assms]
  show ?case
  proof (cases "n < m")
    case False
    then show ?thesis by (auto simp: mine_loop.simps [of digest data d m n])
  next
    case lt: True
    show ?thesis
    proof (cases "solves digest data (unat d) n")
      case True
      then show ?thesis using lt hash by (auto simp: mine_loop.simps [of digest data d m n] Let_def)
    next
      case False
      have "unat n < unat m" "unat m < 2 ^ 64"
        using lt unsigned_less [of m] by (simp_all add: word_less_nat_alt)
      then have "unat m - unat (n + 1) < unat m - unat n" "unat n < unat (n + 1)"
        by (simp_all add: unat_word_ariths)
      moreover have "mine_loop digest data d m n = mine_loop digest data d m (n + 1)"
        using lt False hash by (simp add: mine_loop.simps [of digest data d m n] Let_def)
      moreover have "n \<le> k \<longleftrightarrow> k = n \<or> n + 1 \<le> k" for k
        using lt \<open>unat n < unat m\<close> \<open>unat m < 2 ^ 64\<close>
        by (auto simp: word_le_nat_alt word_unat_eq_iff unat_word_ariths)
      ultimately show ?thesis
        using less.hyps [of "n + 1"] False
        by (simp split: option.splits) blast+
    qed
  qed
qed

text \<open>
  C20: proof of work. Verification accepts a stamp exactly when its difficulty is at
  least the minimum of 16 and the hash of nonce and record starts with that many zero
  bits. Mining returns the smallest nonce below the limit that achieves this and
  \<open>None\<close> exactly when there is none, so a stamp mined at an accepted difficulty is
  always accepted.
\<close>

theorem pow_mine_verify:
  assumes "\<And>x. length (digest x) = 32"
  shows "(verify digest data stamp = Inr () \<longleftrightarrow>
       16 \<le> difficulty stamp \<and> solves digest data (unat (difficulty stamp)) (nonce stamp))
    \<and> (case mine digest data d m of
         Some p \<Rightarrow> difficulty p = d \<and> nonce p < m \<and> solves digest data (unat d) (nonce p)
           \<and> (\<forall>k < nonce p. \<not> solves digest data (unat d) k)
           \<and> (16 \<le> d \<longrightarrow> verify digest data p = Inr ())
       | None \<Rightarrow> (\<forall>k < m. \<not> solves digest data (unat d) k))"
proof -
  have ver: "verify digest data p = Inr () \<longleftrightarrow>
       16 \<le> difficulty p \<and> solves digest data (unat (difficulty p)) (nonce p)" for p
    using compute_hash_solves [of digest "nonce p" data "difficulty p", OF assms]
    by (auto simp: verify_def MIN_DIFFICULTY_def Let_def not_less not_le)
  show ?thesis
    using mine_loop_spec [where digest = digest and data = data and d = d and m = m and n = 0, OF assms] ver
    by (simp add: mine_def split: option.splits)
qed

definition ex_hash :: "byte list \<Rightarrow> byte list" where
  "ex_hash bs = (255 - hd (bs @ [0])) # replicate 31 0"

definition ex_stamp :: PowStamp where
  "ex_stamp = \<lparr>nonce = 255, difficulty = 16\<rparr>"

theorem pow_mine_verify_witness:
  "\<exists>p. mine ex_hash [1, 2] 16 300 = Some p \<and> verify ex_hash [1, 2] p = Inr ()"
proof -
  have len: "\<And>x. length (ex_hash x) = 32" by (simp add: ex_hash_def)
  have "solves ex_hash [1, 2] 16 255"
  proof -
    have "u64_to_le_bytes 255 = [255, 0, 0, 0, 0, 0, 0, 0]" by code_simp
    then have "ex_hash (u64_to_le_bytes 255 @ [1, 2]) = replicate 32 0"
      by (simp add: ex_hash_def numeral_eq_Suc)
    then show ?thesis by (simp add: solves_def bit_at_def)
  qed
  moreover have "(255 :: u64) < 300" by simp
  moreover have "unat (16 :: u8) = 16" by simp
  ultimately have "mine ex_hash [1, 2] 16 300 \<noteq> None"
    using pow_mine_verify [where digest = ex_hash and data = "[1, 2]" and d = 16 and m = 300 and stamp = ex_stamp, OF len] by (auto split: option.splits)
  then obtain p where "mine ex_hash [1, 2] 16 300 = Some p" by blast
  then show ?thesis using pow_mine_verify [where digest = ex_hash and data = "[1, 2]" and d = 16 and m = 300 and stamp = ex_stamp, OF len] by simp
qed

end
