(* ===== verification/Signed_Record.thy ===== *)
theory Signed_Record
  imports Hashcash Models Strings
begin

text \<open>
  Signed ban records, \<open>hiveguard-net/src/signed_record.rs\<close>: signing, verification, the cache
  of signatures and the paging of records for the wire.

  The crates \<open>bincode\<close>, \<open>ring\<close> and \<open>blake3\<close> are arguments (\<open>sign_env\<close>): the codec of ban
  records, the key pair of a PKCS\#8 document as its signing function, the test of a
  signature, the hash. The locale \<open>sign_spec\<close> states what the code relies on.
\<close>

record SignedBanRecord =
  sb_record :: BanRecord
  sb_signer_id :: string
  sb_signature :: "byte list"
  sb_pow :: PowStamp

record sign_env =
  si_codec :: "BanRecord codec"
  si_from_pkcs8 :: "byte list \<Rightarrow> (byte list \<Rightarrow> byte list) option"
  si_verify :: "byte list \<Rightarrow> byte list \<Rightarrow> byte list \<Rightarrow> bool"
  si_blake3 :: "byte list \<Rightarrow> byte list"

definition sign_canonical ::
    "sign_env \<Rightarrow> BanRecord \<Rightarrow> byte list \<Rightarrow> string \<Rightarrow> byte list \<Rightarrow> u8 \<Rightarrow> SignedBanRecord result" where
  "sign_canonical E record canonical local_node_id pkcs8_key_bytes diff =
     (case si_from_pkcs8 E pkcs8_key_bytes of
        None \<Rightarrow> Inl EProtocol
      | Some key_pair \<Rightarrow>
          (let signature = key_pair canonical
           in case mine (si_blake3 E) canonical diff (- 1) of
                None \<Rightarrow> Inl EProtocol
              | Some pow \<Rightarrow> Inr \<lparr>sb_record = record, sb_signer_id = local_node_id,
                  sb_signature = signature, sb_pow = pow\<rparr>))"

definition sign_record :: "sign_env \<Rightarrow> BanRecord \<Rightarrow> string \<Rightarrow> byte list \<Rightarrow> u8 \<Rightarrow> SignedBanRecord result" where
  "sign_record E record local_node_id pkcs8_key_bytes diff =
     (case encode (si_codec E) record of
        None \<Rightarrow> Inl EProtocol
      | Some canonical \<Rightarrow> sign_canonical E record canonical local_node_id pkcs8_key_bytes diff)"

definition verify_record :: "sign_env \<Rightarrow> byte list \<Rightarrow> SignedBanRecord \<Rightarrow> unit result" where
  "verify_record E public_key_raw s =
     (case encode (si_codec E) (sb_record s) of
        None \<Rightarrow> Inl EProtocol
      | Some canonical \<Rightarrow>
          if \<not> si_verify E public_key_raw canonical (sb_signature s) then Inl EProtocol
          else case verify (si_blake3 E) canonical (sb_pow s) of
            Inl _ \<Rightarrow> Inl EProtocol
          | Inr _ \<Rightarrow> Inr ())"

section \<open>The signing cache\<close>

record SigningCache =
  sc_entries :: "(byte list, SignedBanRecord) hmap"
  sc_capacity :: nat
  sc_insertion_order :: "byte list list"
  sc_hits :: u64
  sc_misses :: u64

definition DEFAULT_CAPACITY :: nat where
  "DEFAULT_CAPACITY = 8192"

definition sc_new :: "nat \<Rightarrow> SigningCache" where
  "sc_new capacity = \<lparr>sc_entries = hm_empty, sc_capacity = max capacity 1, sc_insertion_order = [],
     sc_hits = 0, sc_misses = 0\<rparr>"

definition cache_key :: "sign_env \<Rightarrow> string \<Rightarrow> u8 \<Rightarrow> byte list \<Rightarrow> byte list" where
  "cache_key E local_node_id diff canonical = si_blake3 E (str_bytes local_node_id @ [diff] @ canonical)"

definition evict_oldest :: "SigningCache \<Rightarrow> SigningCache" where
  "evict_oldest c =
     (if length (sc_entries c) \<ge> sc_capacity c then
        case sc_insertion_order c of
          [] \<Rightarrow> c
        | oldest # rest \<Rightarrow> c\<lparr>sc_insertion_order := rest, sc_entries := hm_remove oldest (sc_entries c)\<rparr>
      else c)"

definition sc_sign ::
    "sign_env \<Rightarrow> BanRecord \<Rightarrow> string \<Rightarrow> byte list \<Rightarrow> u8 \<Rightarrow> SigningCache \<Rightarrow> SignedBanRecord result \<times> SigningCache" where
  "sc_sign E record local_node_id pkcs8_key_bytes diff c =
     (case encode (si_codec E) record of
        None \<Rightarrow> (Inl EProtocol, c)
      | Some canonical \<Rightarrow>
          (let key = cache_key E local_node_id diff canonical
           in case hm_get (sc_entries c) key of
                Some hit \<Rightarrow> (Inr hit, c\<lparr>sc_hits := sc_hits c + 1\<rparr>)
              | None \<Rightarrow>
                  (case sign_canonical E record canonical local_node_id pkcs8_key_bytes diff of
                     Inl e \<Rightarrow> (Inl e, c)
                   | Inr fresh \<Rightarrow>
                       (let c = evict_oldest (c\<lparr>sc_misses := sc_misses c + 1\<rparr>)
                        in (Inr fresh, c\<lparr>sc_insertion_order := sc_insertion_order c @ [key],
                                          sc_entries := hm_insert key fresh (sc_entries c)\<rparr>)))))"

section \<open>Pages for the wire\<close>

definition PAGE_BYTES :: u64 where
  "PAGE_BYTES = 4 * 1024 * 1024"

fun pages_loop ::
    "(SignedBanRecord \<Rightarrow> u64 option) \<Rightarrow> SignedBanRecord list \<Rightarrow> SignedBanRecord list list
     \<Rightarrow> SignedBanRecord list \<Rightarrow> u64 \<Rightarrow> SignedBanRecord list list" where
  "pages_loop serialized_size [] pages page bytes = (if page \<noteq> [] then pages @ [page] else pages)"
| "pages_loop serialized_size (record # records) pages page bytes =
     (case serialized_size record of
        None \<Rightarrow> pages_loop serialized_size records pages page bytes
      | Some sz \<Rightarrow>
          if sz + 12 > PAGE_BYTES then pages_loop serialized_size records pages page bytes
          else if page \<noteq> [] \<and> (bytes + sz > PAGE_BYTES \<or> length page \<ge> 128)
          then pages_loop serialized_size records (pages @ [page]) [record] (12 + sz)
          else pages_loop serialized_size records pages (page @ [record]) (bytes + sz))"

definition signed_pages :: "(SignedBanRecord \<Rightarrow> u64 option) \<Rightarrow> SignedBanRecord list \<Rightarrow> SignedBanRecord list list" where
  "signed_pages serialized_size records = pages_loop serialized_size records [] [] 12"

section \<open>What the crates promise\<close>

locale sign_spec = codec: codec_spec "si_codec E" for E :: sign_env +
  fixes pkcs8 public_key :: "byte list" and key_pair :: "byte list \<Rightarrow> byte list"
  assumes key_pair: "si_from_pkcs8 E pkcs8 = Some key_pair"
    and signature_verifies: "si_verify E public_key m (key_pair m)"
begin

lemma sign_canonical_verifies:
  assumes "encode (si_codec E) record = Some canonical" "MIN_DIFFICULTY \<le> d"
    "sign_canonical E record canonical node pkcs8 d = Inr s"
  shows "verify_record E public_key s = Inr () \<and> sb_record s = record \<and> sb_signer_id s = node"
  using assms mine_verifies [of "si_blake3 E" canonical d "- 1"]
  by (auto simp: sign_canonical_def verify_record_def key_pair signature_verifies Let_def split: option.splits)

lemma sign_record_verifies:
  assumes "MIN_DIFFICULTY \<le> d" "sign_record E record node pkcs8 d = Inr s"
  shows "verify_record E public_key s = Inr () \<and> sb_record s = record \<and> sb_signer_id s = node"
  using assms sign_canonical_verifies by (auto simp: sign_record_def split: option.splits)

end

section \<open>The cache is transparent\<close>

text \<open>
  Invariant of a cache that one identity uses: the entries are listed in the order of
  insertion, and each entry is the signature of a record under the key of that record.
\<close>

definition signature_of ::
    "sign_env \<Rightarrow> string \<Rightarrow> byte list \<Rightarrow> (BanRecord \<times> u8) set \<Rightarrow> byte list \<Rightarrow> SignedBanRecord \<Rightarrow> bool" where
  "signature_of E node pkcs8 A k s \<longleftrightarrow>
     (\<exists>r d canonical. (r, d) \<in> A \<and> encode (si_codec E) r = Some canonical
        \<and> k = cache_key E node d canonical \<and> sign_canonical E r canonical node pkcs8 d = Inr s)"

definition cache_inv :: "sign_env \<Rightarrow> string \<Rightarrow> byte list \<Rightarrow> (BanRecord \<times> u8) set \<Rightarrow> SigningCache \<Rightarrow> bool" where
  "cache_inv E node pkcs8 A c \<longleftrightarrow>
     hm_wf (sc_entries c) \<and> distinct (sc_insertion_order c)
     \<and> set (sc_insertion_order c) = set (List.map fst (sc_entries c))
     \<and> 0 < sc_capacity c \<and> length (sc_entries c) \<le> sc_capacity c
     \<and> (\<forall>k s. hm_get (sc_entries c) k = Some s \<longrightarrow> signature_of E node pkcs8 A k s)"

text \<open>The inputs of the hash for a set of calls.\<close>

definition key_inputs :: "sign_env \<Rightarrow> string \<Rightarrow> (BanRecord \<times> u8) set \<Rightarrow> byte list set" where
  "key_inputs E node A =
     {str_bytes node @ [d] @ canonical | r d canonical. (r, d) \<in> A \<and> encode (si_codec E) r = Some canonical}"

lemma cache_invD:
  assumes "cache_inv E node pkcs8 A c"
  shows "hm_wf (sc_entries c)" "distinct (sc_insertion_order c)"
    "fst ` set (sc_entries c) = set (sc_insertion_order c)"
    "0 < sc_capacity c" "length (sc_entries c) \<le> sc_capacity c"
    "hm_get (sc_entries c) k = Some s \<Longrightarrow> signature_of E node pkcs8 A k s"
  using assms unfolding cache_inv_def by simp_all

lemma cache_inv_counters [simp]:
  "cache_inv E node pkcs8 A (c\<lparr>sc_hits := h\<rparr>) = cache_inv E node pkcs8 A c"
  "cache_inv E node pkcs8 A (c\<lparr>sc_misses := h\<rparr>) = cache_inv E node pkcs8 A c"
  by (simp_all add: cache_inv_def)

lemma cache_insert_inv:
  assumes inv: "cache_inv E node pkcs8 A c" and len: "length (sc_entries c) < sc_capacity c"
    and miss: "hm_get (sc_entries c) k = None" and sig: "signature_of E node pkcs8 A k s"
  shows "cache_inv E node pkcs8 A
    (c\<lparr>sc_insertion_order := sc_insertion_order c @ [k], sc_entries := hm_insert k s (sc_entries c)\<rparr>)"
proof -
  have keys: "fst ` set (hm_insert k s (sc_entries c)) = insert k (fst ` set (sc_entries c))"
    by (simp add: AList.dom_update)
  have "k \<notin> fst ` set (sc_entries c)" using miss by (simp add: hm_get_None_keys)
  then show ?thesis
    using inv len sig keys hm_length_insert_le [of k s "sc_entries c"] by (auto simp: cache_inv_def)
qed

lemma hm_remove_keys: "fst ` set (hm_remove k m) = fst ` set m - {k}"
  by (induction m) auto

lemma hm_length_remove_mem: "k \<in> fst ` set m \<Longrightarrow> length (hm_remove k m) < length m"
proof (induction m)
  case (Cons p m)
  then show ?case using hm_length_remove_le [of k m] by (cases "fst p = k") auto
qed simp

lemma evict_oldest_inv:
  assumes inv: "cache_inv E node pkcs8 A c"
  shows "cache_inv E node pkcs8 A (evict_oldest c) \<and> length (sc_entries (evict_oldest c)) < sc_capacity c
    \<and> (hm_get (sc_entries c) k = None \<longrightarrow> hm_get (sc_entries (evict_oldest c)) k = None)
    \<and> sc_capacity (evict_oldest c) = sc_capacity c"
proof (cases "length (sc_entries c) \<ge> sc_capacity c")
  case True
  then have "set (sc_insertion_order c) \<noteq> {}" using cache_invD(3,4) [OF inv] by auto
  then obtain x xs where ord: "sc_insertion_order c = x # xs" by (cases "sc_insertion_order c") auto
  then have keys: "fst ` set (sc_entries c) = insert x (set xs)" "x \<notin> set xs" "distinct xs"
    using cache_invD(2,3) [OF inv] by simp_all
  let ?m = "hm_remove x (sc_entries c)"
  have ev: "evict_oldest c = c\<lparr>sc_insertion_order := xs, sc_entries := ?m\<rparr>"
    using True ord by (simp add: evict_oldest_def)
  have dom: "set xs = set (List.map fst ?m)" using keys by (simp add: hm_remove_keys)
  have len: "length ?m < sc_capacity c"
    using hm_length_remove_mem [of x "sc_entries c"] keys(1) cache_invD(5) [OF inv] by simp
  have wf: "hm_wf ?m" using cache_invD(1) [OF inv] by simp
  have sig: "signature_of E node pkcs8 A j s" if "hm_get ?m j = Some s" for j s
    using that cache_invD(6) [OF inv, of j s] by (simp split: if_splits)
  have "cache_inv E node pkcs8 A (evict_oldest c)"
    unfolding cache_inv_def ev SigningCache.simps using wf keys(3) dom len sig by (intro conjI allI impI) simp_all
  then show ?thesis using len by (simp add: ev)
next
  case False
  then show ?thesis using inv by (simp add: evict_oldest_def)
qed

context sign_spec
begin

lemma key_determines_call:
  assumes "inj_on (si_blake3 E) (key_inputs E node A)" "(r, d) \<in> A" "(r', d') \<in> A"
    "encode (si_codec E) r = Some canonical" "encode (si_codec E) r' = Some canonical'"
    "cache_key E node d canonical = cache_key E node d' canonical'"
  shows "r = r' \<and> d = d' \<and> canonical = canonical'"
proof -
  have "str_bytes node @ [d] @ canonical \<in> key_inputs E node A"
      "str_bytes node @ [d'] @ canonical' \<in> key_inputs E node A"
    using assms(2-5) by (auto simp: key_inputs_def)
  then have "str_bytes node @ [d] @ canonical = str_bytes node @ [d'] @ canonical'"
    using assms(1,6) by (auto simp: cache_key_def dest: inj_onD)
  then have "d = d' \<and> canonical = canonical'" by simp
  then show ?thesis using codec.encode_inj assms(4,5) by blast
qed

lemma sc_sign_step:
  assumes inv: "cache_inv E node pkcs8 A c" and inj: "inj_on (si_blake3 E) (key_inputs E node A)"
    and rd: "(r, d) \<in> A" and run: "sc_sign E r node pkcs8 d c = (res, c')"
  shows "res = sign_record E r node pkcs8 d \<and> cache_inv E node pkcs8 A c' \<and> sc_capacity c' = sc_capacity c"
proof (cases "encode (si_codec E) r")
  case None
  then show ?thesis using run inv by (simp add: sc_sign_def sign_record_def)
next
  case (Some canonical)
  let ?k = "cache_key E node d canonical"
  show ?thesis
  proof (cases "hm_get (sc_entries c) ?k")
    case hit: (Some s)
    then obtain r' d' canonical' where "(r', d') \<in> A" "encode (si_codec E) r' = Some canonical'"
        "?k = cache_key E node d' canonical'" and s: "sign_canonical E r' canonical' node pkcs8 d' = Inr s"
      using inv unfolding cache_inv_def signature_of_def by blast
    then have "r = r' \<and> d = d' \<and> canonical = canonical'"
      using key_determines_call [OF inj rd _ Some] by blast
    then show ?thesis using run inv hit Some s
      by (auto simp: sc_sign_def sign_record_def Let_def)
  next
    case miss: None
    let ?c = "evict_oldest (c\<lparr>sc_misses := sc_misses c + 1\<rparr>)"
    have "cache_inv E node pkcs8 A (c\<lparr>sc_misses := sc_misses c + 1\<rparr>)" using inv by simp
    from evict_oldest_inv [OF this] miss
    have ev: "cache_inv E node pkcs8 A ?c" "length (sc_entries ?c) < sc_capacity ?c"
        "hm_get (sc_entries ?c) ?k = None" "sc_capacity ?c = sc_capacity c" by simp_all
    have "cache_inv E node pkcs8 A
        (?c\<lparr>sc_insertion_order := sc_insertion_order ?c @ [?k], sc_entries := hm_insert ?k s (sc_entries ?c)\<rparr>)"
      if s: "sign_canonical E r canonical node pkcs8 d = Inr s" for s
      by (rule cache_insert_inv [OF ev(1-3)]) (use rd Some s in \<open>auto simp: signature_of_def\<close>)
    then show ?thesis using run miss Some inv ev(4)
      by (auto simp: sc_sign_def sign_record_def Let_def split: sum.splits)
  qed
qed

end

text \<open>A run of calls by one identity: the results and the cache.\<close>

fun sign_all ::
    "sign_env \<Rightarrow> string \<Rightarrow> byte list \<Rightarrow> (BanRecord \<times> u8) list \<Rightarrow> SigningCache
     \<Rightarrow> SignedBanRecord result list \<times> SigningCache" where
  "sign_all E node pkcs8 [] c = ([], c)"
| "sign_all E node pkcs8 ((r, d) # calls) c =
     (case sc_sign E r node pkcs8 d c of
        (res, c') \<Rightarrow> (case sign_all E node pkcs8 calls c' of (rs, c'') \<Rightarrow> (res # rs, c'')))"

lemma sign_all_transparent:
  assumes "sign_spec E pkcs8 pk sg" "inj_on (si_blake3 E) (key_inputs E node A)"
  shows "set calls \<subseteq> A \<Longrightarrow> cache_inv E node pkcs8 A c \<Longrightarrow> sign_all E node pkcs8 calls c = (rs, c') \<Longrightarrow>
    rs = List.map (\<lambda>(r, d). sign_record E r node pkcs8 d) calls \<and> cache_inv E node pkcs8 A c' \<and> sc_capacity c' = sc_capacity c"
proof (induction calls arbitrary: c rs)
  case (Cons x calls)
  obtain r d where x: "x = (r, d)" by (cases x)
  obtain res c1 where one: "sc_sign E r node pkcs8 d c = (res, c1)" by fastforce
  obtain rest c2 where more: "sign_all E node pkcs8 calls c1 = (rest, c2)" by fastforce
  have "(r, d) \<in> A" using Cons.prems(1) x by simp
  note step = sign_spec.sc_sign_step [OF assms(1) Cons.prems(2) assms(2) this one]
  show ?case using Cons.IH [of c1 rest] Cons.prems step one more x by simp
qed simp

text \<open>
  C21: the signing cache is transparent. Whatever records one identity has signed
  through the cache, in any order and with any repetitions and evictions, every call
  returns exactly what signing the record afresh returns; the signed records of
  sufficient difficulty pass verification with the identity's public key and carry the
  record and the signer; and the cache never exceeds its capacity. The hash is assumed
  to have no collision among the keys of these calls.
\<close>

theorem signing_cache_transparent:
  assumes "sign_spec E pkcs8 pk key_pair" "inj_on (si_blake3 E) (key_inputs E node (set calls))"
    and "sign_all E node pkcs8 calls (sc_new capacity) = (results, c)"
  shows "results = List.map (\<lambda>(r, d). sign_record E r node pkcs8 d) calls
    \<and> length (sc_entries c) \<le> max capacity 1
    \<and> (\<forall>i < length calls. \<forall>s. results ! i = Inr s \<and> 16 \<le> snd (calls ! i) \<longrightarrow>
         verify_record E pk s = Inr () \<and> sb_record s = fst (calls ! i) \<and> sb_signer_id s = node)"
proof -
  have "cache_inv E node pkcs8 (set calls) (sc_new capacity)" by (simp add: cache_inv_def sc_new_def)
  from sign_all_transparent [OF assms(1,2) order_refl this assms(3)]
  have res: "results = List.map (\<lambda>(r, d). sign_record E r node pkcs8 d) calls"
    and len: "length (sc_entries c) \<le> max capacity 1"
    by (simp_all add: cache_inv_def sc_new_def)
  have "verify_record E pk s = Inr () \<and> sb_record s = fst (calls ! i) \<and> sb_signer_id s = node"
    if "i < length calls" "results ! i = Inr s" "16 \<le> snd (calls ! i)" for i s
    using sign_spec.sign_record_verifies [OF assms(1), of "snd (calls ! i)" "fst (calls ! i)" node s] that
    by (simp add: res MIN_DIFFICULTY_def split_beta)
  then show ?thesis using res len by blast
qed

definition ex_remote_ban :: "u32 \<Rightarrow> BanRecord" where
  "ex_remote_ban a = \<lparr>br_subject = NetV4 (0x08080800 + a) 32, br_created_at = 0, br_expires_at = Some 9, br_severity = 150,
     br_reason = [], br_evidence_hash = [], br_source = LocalDetector [], br_geo_info = None\<rparr>"

definition ex_sign_env :: sign_env where
  "ex_sign_env = \<lparr>si_codec = table_codec [ex_remote_ban 1, ex_remote_ban 2],
     si_from_pkcs8 = (\<lambda>_. Some (\<lambda>m. m)), si_verify = (\<lambda>_ m s. s = m),
     si_blake3 = (\<lambda>bs. take 32 (bs @ replicate 32 0))\<rparr>"

lemma ex_sign_spec: "sign_spec ex_sign_env [] [] (\<lambda>m. m)"
  by (intro sign_spec.intro sign_spec_axioms.intro) (simp_all add: ex_sign_env_def table_codec_spec)

interpretation exsign: sign_spec ex_sign_env "[]" "[]" "\<lambda>m. m"
  by (rule ex_sign_spec)

definition ex_calls :: "(BanRecord \<times> u8) list" where
  "ex_calls = [(ex_remote_ban 1, 16), (ex_remote_ban 2, 16), (ex_remote_ban 1, 16)]"

theorem signing_cache_transparent_witness:
  "\<exists>s1 s2 s3 c. sign_all ex_sign_env ''n'' [] ex_calls (sc_new 1) = ([Inr s1, Inr s2, Inr s3], c)
     \<and> length (sc_entries c) \<le> 1 \<and> verify_record ex_sign_env [] s3 = Inr () \<and> sb_record s3 = ex_remote_ban 1"
proof -
  obtain rs c where run: "sign_all ex_sign_env ''n'' [] ex_calls (sc_new 1) = (rs, c)" by fastforce
  have enc: "encode (si_codec ex_sign_env) (ex_remote_ban 1) = Some [0]"
    "encode (si_codec ex_sign_env) (ex_remote_ban 2) = Some [1]"
    by (simp_all add: ex_sign_env_def table_codec_def ex_remote_ban_def)
  then have "key_inputs ex_sign_env ''n'' (set ex_calls) = {str_bytes ''n'' @ [16, 0], str_bytes ''n'' @ [16, 1]}"
    by (auto simp: key_inputs_def ex_calls_def)
  then have inj: "inj_on (si_blake3 ex_sign_env) (key_inputs ex_sign_env ''n'' (set ex_calls))"
    by (simp add: ex_sign_env_def str_bytes_def)
  have "case sign_record ex_sign_env (ex_remote_ban 1) ''n'' [] 16 of Inr _ \<Rightarrow> True | Inl _ \<Rightarrow> False"
    "case sign_record ex_sign_env (ex_remote_ban 2) ''n'' [] 16 of Inr _ \<Rightarrow> True | Inl _ \<Rightarrow> False" by code_simp+
  then obtain s1 s2 where s: "sign_record ex_sign_env (ex_remote_ban 1) ''n'' [] 16 = Inr s1"
      "sign_record ex_sign_env (ex_remote_ban 2) ''n'' [] 16 = Inr s2"
    by (auto split: sum.splits)
  note cached = signing_cache_transparent [OF ex_sign_spec inj run]
  have rs: "rs = [Inr s1, Inr s2, Inr s1]" using cached s by (simp add: ex_calls_def)
  have "verify_record ex_sign_env [] s1 = Inr () \<and> sb_record s1 = ex_remote_ban 1"
    using cached [THEN conjunct2, THEN conjunct2, rule_format, of 2 s1] by (simp add: rs ex_calls_def)
  then show ?thesis using run rs cached by auto
qed

section \<open>Pages are bounded and complete\<close>

definition fits_page :: "(SignedBanRecord \<Rightarrow> u64 option) \<Rightarrow> SignedBanRecord \<Rightarrow> bool" where
  "fits_page serialized_size r = (case serialized_size r of Some sz \<Rightarrow> sz + 12 \<le> PAGE_BYTES | None \<Rightarrow> False)"

lemma pages_loop_concat:
  "concat (pages_loop serialized_size records pages page bytes)
     = concat pages @ page @ filter (fits_page serialized_size) records"
  by (induction serialized_size records pages page bytes rule: pages_loop.induct)
    (auto simp: fits_page_def not_less split: option.splits)

lemma pages_loop_sizes:
  "\<forall>p \<in> set pages. p \<noteq> [] \<and> length p \<le> 128 \<Longrightarrow> length page \<le> 128 \<Longrightarrow>
     \<forall>p \<in> set (pages_loop serialized_size records pages page bytes). p \<noteq> [] \<and> length p \<le> 128"
proof (induction records arbitrary: pages page bytes)
  case (Cons r rs)
  show ?case
  proof (cases "serialized_size r")
    case None
    then show ?thesis using Cons.IH [OF Cons.prems] by simp
  next
    case (Some sz)
    let ?full = "page \<noteq> [] \<and> (bytes + sz > PAGE_BYTES \<or> length page \<ge> 128)"
    have eq: "pages_loop serialized_size (r # rs) pages page bytes =
        (if sz + 12 > PAGE_BYTES then pages_loop serialized_size rs pages page bytes
         else if ?full then pages_loop serialized_size rs (pages @ [page]) [r] (12 + sz)
         else pages_loop serialized_size rs pages (page @ [r]) (bytes + sz))"
      using Some by simp
    consider (skip) "sz + 12 > PAGE_BYTES" | (full) "\<not> sz + 12 > PAGE_BYTES" ?full
      | (add) "\<not> sz + 12 > PAGE_BYTES" "\<not> ?full" by blast
    then show ?thesis
    proof cases
      case skip
      then show ?thesis unfolding eq if_P [OF skip] by (intro Cons.IH Cons.prems)
    next
      case full
      then show ?thesis unfolding eq if_not_P [OF full(1)] if_P [OF full(2)]
        using Cons.prems by (intro Cons.IH) simp_all
    next
      case add
      then have "length (page @ [r]) \<le> 128" using Cons.prems(2) by auto
      then show ?thesis unfolding eq if_not_P [OF add(1)] if_not_P [OF add(2)]
        using Cons.prems(1) by (intro Cons.IH) simp_all
    qed
  qed
qed simp

lemma signed_pages_complete:
  "concat (signed_pages serialized_size records) = filter (fits_page serialized_size) records"
  "\<forall>p \<in> set (signed_pages serialized_size records). p \<noteq> [] \<and> length p \<le> 128"
  using pages_loop_sizes [of "[]" "[]" serialized_size records 12] by (simp_all add: signed_pages_def pages_loop_concat)

end
