(* ===== verification/Peers.thy ===== *)
theory Peers
  imports Models
begin

text \<open>
  The peers of a cluster node, \<open>hiveguard-net/src/peer.rs\<close>, and the SWIM failure detector,
  \<open>hiveguard-net/src/membership.rs\<close>.

  Every reading of the clock is an argument. What a TLS connection presents (the
  fingerprint and key of its certificate, its address) is an argument of
  \<open>validate_peer_connection\<close>. The choices of the crate \<open>rand\<close> are arguments: \<open>pick\<close> picks a
  peer, \<open>pick_multiple i\<close> picks peers in the \<open>i\<close>-th call of a pass.
\<close>

datatype PeerState = Alive | Suspect | Dead

record PeerInfo =
  pi_node_id :: string
  pi_address :: "ip_addr \<times> u16"
  pi_fingerprint :: string
  pi_trust_score :: real
  pi_state :: PeerState
  pi_last_seen :: instant
  pi_public_key :: "byte list"

definition peer_new :: "instant \<Rightarrow> string \<Rightarrow> ip_addr \<times> u16 \<Rightarrow> string \<Rightarrow> PeerInfo" where
  "peer_new now node_id address fingerprint =
     \<lparr>pi_node_id = node_id, pi_address = address, pi_fingerprint = fingerprint, pi_trust_score = 1 / 2,
      pi_state = Alive, pi_last_seen = now, pi_public_key = []\<rparr>"

record PeerManager =
  known_peers :: "(string, PeerInfo) hmap"
  auto_accept :: bool

definition pm_new :: PeerManager where
  "pm_new = \<lparr>known_peers = hm_empty, auto_accept = False\<rparr>"

definition pm_new_auto_accept :: PeerManager where
  "pm_new_auto_accept = \<lparr>known_peers = hm_empty, auto_accept = True\<rparr>"

definition add_peer :: "PeerInfo \<Rightarrow> PeerManager \<Rightarrow> PeerManager" where
  "add_peer peer pm = pm\<lparr>known_peers := hm_insert (pi_node_id peer) peer (known_peers pm)\<rparr>"

definition remove_peer :: "string \<Rightarrow> PeerManager \<Rightarrow> PeerManager" where
  "remove_peer node_id pm = pm\<lparr>known_peers := hm_remove node_id (known_peers pm)\<rparr>"

definition update_peer_state :: "instant \<Rightarrow> string \<Rightarrow> PeerState \<Rightarrow> PeerManager \<Rightarrow> PeerManager" where
  "update_peer_state now node_id state pm =
     (case hm_get (known_peers pm) node_id of
        Some peer \<Rightarrow> pm\<lparr>known_peers :=
          hm_insert node_id (peer\<lparr>pi_state := state, pi_last_seen := now\<rparr>) (known_peers pm)\<rparr>
      | None \<Rightarrow> pm)"

definition peers_in :: "PeerState \<Rightarrow> PeerManager \<Rightarrow> PeerInfo list" where
  "peers_in state pm = filter (\<lambda>p. pi_state p = state) (hm_values (known_peers pm))"

definition get_alive_peers :: "PeerManager \<Rightarrow> PeerInfo list" where
  "get_alive_peers pm = peers_in Alive pm"

definition validate_peer_connection ::
    "instant \<Rightarrow> (string \<times> byte list) option \<Rightarrow> ip_addr \<times> u16 \<Rightarrow> string \<Rightarrow> PeerManager \<Rightarrow> unit result \<times> PeerManager" where
  "validate_peer_connection now presented remote_address claimed_node_id pm =
     (case presented of
        None \<Rightarrow> (Inl EProtocol, pm)
      | Some (fp, pub_key_bytes) \<Rightarrow>
          (case hm_get (known_peers pm) claimed_node_id of
             Some known \<Rightarrow>
               if pi_fingerprint known = fp
               then (Inr (), pm\<lparr>known_peers :=
                       hm_insert claimed_node_id (known\<lparr>pi_public_key := pub_key_bytes\<rparr>) (known_peers pm)\<rparr>)
               else (Inl EProtocol, pm)
           | None \<Rightarrow>
               if auto_accept pm
               then (Inr (), add_peer ((peer_new now claimed_node_id remote_address fp)\<lparr>pi_public_key := pub_key_bytes\<rparr>) pm)
               else (Inl EProtocol, pm)))"

definition verify_sender :: "PeerManager \<Rightarrow> string \<Rightarrow> string \<Rightarrow> bool" where
  "verify_sender pm claimed_id peer_fingerprint =
     (case hm_get (known_peers pm) claimed_id of
        Some peer \<Rightarrow> pi_fingerprint peer = peer_fingerprint
      | None \<Rightarrow> False)"

section \<open>The failure detector\<close>

record SwimConfig =
  ping_interval :: duration
  ping_timeout :: duration
  ping_req_fanout :: nat
  suspect_timeout :: duration
  dead_timeout :: duration

definition swim_config_default :: SwimConfig where
  "swim_config_default = \<lparr>ping_interval = secs 1, ping_timeout = 500000000, ping_req_fanout = 3,
     suspect_timeout = secs 5, dead_timeout = secs 30\<rparr>"

datatype SwimAction =
    SendPing string "byte list" | SendPingReq string "string list" | MarkSuspect string
  | MarkDead string | RemovePeer string | NoAction

record PendingPing =
  target_id :: string
  sent_at :: instant
  indirect_sent :: bool

record SwimMembership =
  sw_config :: SwimConfig
  sw_local_node_id :: string
  pending_pings :: "PendingPing list"

definition swim_new :: "string \<Rightarrow> SwimConfig \<Rightarrow> SwimMembership" where
  "swim_new local_node_id config = \<lparr>sw_config = config, sw_local_node_id = local_node_id, pending_pings = []\<rparr>"

definition select_probe_target ::
    "instant \<Rightarrow> (PeerInfo list \<Rightarrow> PeerInfo option) \<Rightarrow> PeerManager \<Rightarrow> byte list \<Rightarrow> SwimMembership
     \<Rightarrow> SwimAction \<times> SwimMembership" where
  "select_probe_target now pick pm digest sw =
     (let alive = get_alive_peers pm
      in if alive = [] then (NoAction, sw)
         else
           let target = pi_node_id (the (pick alive))
           in (SendPing target digest,
               sw\<lparr>pending_pings := pending_pings sw @ [\<lparr>target_id = target, sent_at = now, indirect_sent = False\<rparr>]\<rparr>))"

definition handle_pong :: "instant \<Rightarrow> string \<Rightarrow> PeerManager \<Rightarrow> SwimMembership \<Rightarrow> PeerManager \<times> SwimMembership" where
  "handle_pong now sender pm sw =
     (update_peer_state now sender Alive pm,
      sw\<lparr>pending_pings := filter (\<lambda>p. target_id p \<noteq> sender) (pending_pings sw)\<rparr>)"

text \<open>\<open>signed_duration_since(t).to_std().unwrap_or(ZERO)\<close>.\<close>

definition elapsed_since :: "instant \<Rightarrow> instant \<Rightarrow> duration" where
  "elapsed_since now t = nat (now - t)"

definition intermediaries :: "SwimMembership \<Rightarrow> PeerManager \<Rightarrow> string \<Rightarrow> string list" where
  "intermediaries sw pm target =
     List.map pi_node_id (filter (\<lambda>p. pi_node_id p \<noteq> target \<and> pi_node_id p \<noteq> sw_local_node_id sw) (get_alive_peers pm))"

text \<open>
  The loop over the pending pings: the pings that stay, the peers and the actions.
  The clock that \<open>update_peer_state\<close> reads is indexed by the number of actions so far.
\<close>

fun check_pings ::
    "SwimMembership \<Rightarrow> (nat \<Rightarrow> string list \<Rightarrow> nat \<Rightarrow> string list) \<Rightarrow> instant \<Rightarrow> (nat \<Rightarrow> instant)
     \<Rightarrow> PendingPing list \<Rightarrow> PeerManager \<Rightarrow> SwimAction list \<Rightarrow> PendingPing list \<times> PeerManager \<times> SwimAction list" where
  "check_pings sw pick_multiple now clock [] pm actions = ([], pm, actions)"
| "check_pings sw pick_multiple now clock (pending # rest) pm actions =
     (let elapsed = elapsed_since now (sent_at pending);
          suspect = update_peer_state (clock (length actions)) (target_id pending) Suspect pm
      in if \<not> indirect_sent pending \<and> elapsed \<ge> ping_timeout (sw_config sw) then
           let alive = intermediaries sw pm (target_id pending);
               k = min (ping_req_fanout (sw_config sw)) (length alive);
               via = (if k > 0 then pick_multiple (length actions) alive k else [])
           in if via = []
              then check_pings sw pick_multiple now clock rest suspect (actions @ [MarkSuspect (target_id pending)])
              else (case check_pings sw pick_multiple now clock rest pm (actions @ [SendPingReq (target_id pending) via]) of
                      (kept, r) \<Rightarrow> (pending\<lparr>indirect_sent := True\<rparr> # kept, r))
         else if indirect_sent pending \<and> elapsed \<ge> ping_timeout (sw_config sw) * 2
         then check_pings sw pick_multiple now clock rest suspect (actions @ [MarkSuspect (target_id pending)])
         else (case check_pings sw pick_multiple now clock rest pm actions of
                 (kept, r) \<Rightarrow> (pending # kept, r)))"

fun check_suspects ::
    "SwimConfig \<Rightarrow> instant \<Rightarrow> (nat \<Rightarrow> instant) \<Rightarrow> PeerInfo list \<Rightarrow> PeerManager \<Rightarrow> SwimAction list
     \<Rightarrow> PeerManager \<times> SwimAction list" where
  "check_suspects cfg now clock [] pm actions = (pm, actions)"
| "check_suspects cfg now clock (peer # rest) pm actions =
     (if elapsed_since now (pi_last_seen peer) \<ge> suspect_timeout cfg
      then check_suspects cfg now clock rest (update_peer_state (clock (length actions)) (pi_node_id peer) Dead pm)
             (actions @ [MarkDead (pi_node_id peer)])
      else check_suspects cfg now clock rest pm actions)"

fun check_dead ::
    "SwimConfig \<Rightarrow> instant \<Rightarrow> PeerInfo list \<Rightarrow> PeerManager \<Rightarrow> SwimAction list \<Rightarrow> PeerManager \<times> SwimAction list" where
  "check_dead cfg now [] pm actions = (pm, actions)"
| "check_dead cfg now (peer # rest) pm actions =
     (if elapsed_since now (pi_last_seen peer) \<ge> dead_timeout cfg
      then check_dead cfg now rest (remove_peer (pi_node_id peer) pm) (actions @ [RemovePeer (pi_node_id peer)])
      else check_dead cfg now rest pm actions)"

definition check_timeouts ::
    "(nat \<Rightarrow> string list \<Rightarrow> nat \<Rightarrow> string list) \<Rightarrow> instant \<Rightarrow> (nat \<Rightarrow> instant) \<Rightarrow> PeerManager \<Rightarrow> SwimMembership
     \<Rightarrow> SwimAction list \<times> PeerManager \<times> SwimMembership" where
  "check_timeouts pick_multiple now clock pm sw =
     (case check_pings sw pick_multiple now clock (pending_pings sw) pm [] of
        (kept, pm1, actions1) \<Rightarrow>
          (case check_suspects (sw_config sw) now clock (peers_in Suspect pm1) pm1 actions1 of
             (pm2, actions2) \<Rightarrow>
               (case check_dead (sw_config sw) now (peers_in Dead pm2) pm2 actions2 of
                  (pm3, actions3) \<Rightarrow> (actions3, pm3, sw\<lparr>pending_pings := kept\<rparr>))))"

section \<open>One peer through a pass\<close>

abbreviation peer_of :: "PeerManager \<Rightarrow> string \<Rightarrow> PeerInfo option" where
  "peer_of pm p \<equiv> hm_get (known_peers pm) p"

definition marked :: "PeerState \<Rightarrow> instant \<Rightarrow> PeerInfo \<Rightarrow> PeerInfo" where
  "marked s t x = x\<lparr>pi_state := s, pi_last_seen := t\<rparr>"

lemma marked_simps [simp]: "pi_state (marked s t x) = s" "pi_last_seen (marked s t x) = t"
  "pi_node_id (marked s t x) = pi_node_id x" "marked s t (marked s' t' x) = marked s t x"
  by (simp_all add: marked_def)

definition pm_wf :: "PeerManager \<Rightarrow> bool" where
  "pm_wf pm \<longleftrightarrow> hm_wf (known_peers pm) \<and> (\<forall>k x. peer_of pm k = Some x \<longrightarrow> pi_node_id x = k)"

lemma peer_of_update [simp]:
  "peer_of (update_peer_state t n s pm) p = (if p = n then map_option (marked s t) (peer_of pm p) else peer_of pm p)"
  by (auto simp: update_peer_state_def marked_def split: option.splits)

lemma peer_of_remove [simp]: "peer_of (remove_peer n pm) p = (if p = n then None else peer_of pm p)"
  by (simp add: remove_peer_def)

lemma pm_wf_update [simp]: "pm_wf pm \<Longrightarrow> pm_wf (update_peer_state t n s pm)"
  unfolding pm_wf_def by (auto simp: update_peer_state_def split: option.splits if_splits)

lemma pm_wf_remove [simp]: "pm_wf pm \<Longrightarrow> pm_wf (remove_peer n pm)"
  by (auto simp: pm_wf_def remove_peer_def split: if_splits)

lemma peers_in_iff:
  assumes "pm_wf pm"
  shows "x \<in> set (peers_in s pm) \<and> pi_node_id x = p \<longleftrightarrow> peer_of pm p = Some x \<and> pi_state x = s"
proof -
  have "x \<in> set (hm_values (known_peers pm)) \<longleftrightarrow> (\<exists>k. peer_of pm k = Some x)"
    using assms by (simp add: pm_wf_def hm_set_values)
  then show ?thesis using assms by (auto simp: peers_in_def pm_wf_def)
qed

text \<open>What the loop over the pings does to the pings and the entry of a peer.\<close>

lemma check_pings_effect:
  assumes "check_pings sw pick_multiple now clock pend pm actions = (kept, pm', actions')"
  shows "(peer_of pm' p = peer_of pm p \<and> ((\<exists>x \<in> set pend. target_id x = p) \<longrightarrow> (\<exists>x \<in> set kept. target_id x = p))
      \<or> (\<exists>i. peer_of pm' p = map_option (marked Suspect (clock i)) (peer_of pm p)))
    \<and> (pm_wf pm \<longrightarrow> pm_wf pm')"
  using assms
proof (induction pend arbitrary: pm actions kept)
  case (Cons x pend)
  let ?go = "\<lambda>pm actions. check_pings sw pick_multiple now clock pend pm actions"
  let ?sus = "update_peer_state (clock (length actions)) (target_id x) Suspect pm"
  from Cons.prems consider
      (sus) acts where "?go ?sus acts = (kept, pm', actions')"
    | (keep) acts y kept' where "?go pm acts = (kept', pm', actions')" "kept = y # kept'" "target_id y = target_id x"
    by (auto simp: Let_def split: if_splits prod.splits)
  then show ?case
  proof cases
    case sus
    show ?thesis
    proof (cases "p = target_id x")
      case True
      then show ?thesis using Cons.IH [OF sus]
        by (auto simp: option.map_comp comp_def)
    next
      case False
      then show ?thesis using Cons.IH [OF sus] by auto
    qed
  next
    case keep
    then show ?thesis using Cons.IH [OF keep(1)] by auto
  qed
qed simp

lemma check_pings_kept:
  assumes "check_pings sw pick_multiple now clock pend pm actions = (kept, pm', actions')" "x \<in> set kept"
  shows "\<exists>y \<in> set pend. target_id x = target_id y \<and> sent_at x = sent_at y
    \<and> (indirect_sent y \<or> elapsed_since now (sent_at y) \<ge> ping_timeout (sw_config sw) \<longrightarrow> indirect_sent x)
    \<and> \<not> (indirect_sent y \<and> elapsed_since now (sent_at y) \<ge> ping_timeout (sw_config sw) * 2)"
  using assms
proof (induction pend arbitrary: pm actions kept)
  case (Cons y pend)
  let ?go = "\<lambda>pm actions. check_pings sw pick_multiple now clock pend pm actions"
  let ?ok = "\<lambda>y. target_id x = target_id y \<and> sent_at x = sent_at y
    \<and> (indirect_sent y \<or> elapsed_since now (sent_at y) \<ge> ping_timeout (sw_config sw) \<longrightarrow> indirect_sent x)
    \<and> \<not> (indirect_sent y \<and> elapsed_since now (sent_at y) \<ge> ping_timeout (sw_config sw) * 2)"
  from Cons.prems consider
      (rest) pm1 acts kept' where "?go pm1 acts = (kept', pm', actions')" "x \<in> set kept'" | (head) "?ok y"
    by (auto simp: Let_def split: if_splits prod.splits)
  then show ?case
  proof cases
    case rest
    then show ?thesis using Cons.IH by fastforce
  qed auto
qed simp

lemma check_suspects_effect:
  assumes "check_suspects cfg now clock ps pm actions = (pm', actions')"
  shows "(if \<exists>q \<in> set ps. pi_node_id q = p \<and> elapsed_since now (pi_last_seen q) \<ge> suspect_timeout cfg
      then \<exists>i. peer_of pm' p = map_option (marked Dead (clock i)) (peer_of pm p)
      else peer_of pm' p = peer_of pm p) \<and> (pm_wf pm \<longrightarrow> pm_wf pm')"
  using assms
proof (induction ps arbitrary: pm actions)
  case (Cons q ps)
  show ?case
  proof (cases "elapsed_since now (pi_last_seen q) \<ge> suspect_timeout cfg")
    case True
    then have "check_suspects cfg now clock ps (update_peer_state (clock (length actions)) (pi_node_id q) Dead pm)
        (actions @ [MarkDead (pi_node_id q)]) = (pm', actions')" using Cons.prems by simp
    from Cons.IH [OF this] True show ?thesis
      by (cases "p = pi_node_id q") (auto simp: option.map_comp comp_def split: if_splits)
  next
    case False
    then show ?thesis using Cons by auto
  qed
qed simp

lemma check_dead_effect:
  assumes "check_dead cfg now ps pm actions = (pm', actions')"
  shows "peer_of pm' p = (if \<exists>q \<in> set ps. pi_node_id q = p \<and> elapsed_since now (pi_last_seen q) \<ge> dead_timeout cfg
      then None else peer_of pm p) \<and> (pm_wf pm \<longrightarrow> pm_wf pm')"
  using assms
proof (induction ps arbitrary: pm actions)
  case (Cons q ps)
  then show ?case by (cases "elapsed_since now (pi_last_seen q) \<ge> dead_timeout cfg") (auto split: if_splits)
qed simp

section \<open>Runs of the failure detector\<close>

type_synonym swim_state = "PeerManager \<times> SwimMembership"

datatype swim_event =
    EvCheck "nat \<Rightarrow> string list \<Rightarrow> nat \<Rightarrow> string list" instant "nat \<Rightarrow> instant"
  | EvProbe instant "PeerInfo list \<Rightarrow> PeerInfo option" "byte list"
  | EvPong instant string
  | EvHeard instant string

fun swim_step :: "swim_event \<Rightarrow> swim_state \<Rightarrow> swim_state" where
  "swim_step (EvCheck pick_multiple now clock) (pm, sw) = snd (check_timeouts pick_multiple now clock pm sw)"
| "swim_step (EvProbe now pick digest) (pm, sw) = (pm, snd (select_probe_target now pick pm digest sw))"
| "swim_step (EvPong now q) (pm, sw) = handle_pong now q pm sw"
| "swim_step (EvHeard now q) (pm, sw) = (update_peer_state now q Alive pm, sw)"

text \<open>
  An event in which the peer \<open>p\<close> takes no part, with all clock readings between \<open>lo\<close> and
  \<open>hi\<close>: nothing is heard from \<open>p\<close>, and \<open>p\<close> is not probed anew.
\<close>

fun quiet_event :: "string \<Rightarrow> instant \<Rightarrow> instant \<Rightarrow> swim_state \<Rightarrow> swim_event \<Rightarrow> bool" where
  "quiet_event p lo hi st (EvCheck _ now clock) \<longleftrightarrow> lo \<le> now \<and> (\<forall>i. now \<le> clock i \<and> clock i \<le> hi)"
| "quiet_event p lo hi st (EvProbe now pick _) \<longleftrightarrow> pi_node_id (the (pick (get_alive_peers (fst st)))) \<noteq> p"
| "quiet_event p lo hi st (EvPong now q) \<longleftrightarrow> q \<noteq> p"
| "quiet_event p lo hi st (EvHeard now q) \<longleftrightarrow> q \<noteq> p"

inductive silent_run :: "string \<Rightarrow> instant \<Rightarrow> instant \<Rightarrow> swim_state \<Rightarrow> swim_state \<Rightarrow> bool" for p lo hi where
  stay: "silent_run p lo hi st st"
| more: "silent_run p lo hi st st' \<Longrightarrow> quiet_event p lo hi st' ev \<Longrightarrow> silent_run p lo hi st (swim_step ev st')"

text \<open>A pass of \<open>check_timeouts\<close> that starts at \<open>now\<close> and ends by \<open>fin\<close>.\<close>

definition check_pass :: "instant \<Rightarrow> instant \<Rightarrow> swim_state \<Rightarrow> swim_state \<Rightarrow> bool" where
  "check_pass now fin st st' \<longleftrightarrow>
     (\<exists>pick_multiple clock. (\<forall>i. now \<le> clock i \<and> clock i \<le> fin) \<and> st' = swim_step (EvCheck pick_multiple now clock) st)"

section \<open>The fading of a silent peer\<close>

definition not_alive :: "string \<Rightarrow> PeerManager \<Rightarrow> bool" where
  "not_alive p pm \<longleftrightarrow> (\<forall>x. peer_of pm p = Some x \<longrightarrow> pi_state x \<noteq> Alive)"

definition fading :: "SwimConfig \<Rightarrow> string \<Rightarrow> instant \<Rightarrow> instant \<Rightarrow> swim_state \<Rightarrow> bool" where
  "fading cfg p T hi st \<longleftrightarrow> pm_wf (fst st) \<and> sw_config (snd st) = cfg
     \<and> (\<forall>x \<in> set (pending_pings (snd st)). target_id x = p \<longrightarrow> sent_at x \<le> T)
     \<and> ((\<exists>x \<in> set (pending_pings (snd st)). target_id x = p) \<or> not_alive p (fst st))
     \<and> (\<forall>x. peer_of (fst st) p = Some x \<longrightarrow> pi_last_seen x \<le> hi)"

definition all_indirect :: "string \<Rightarrow> swim_state \<Rightarrow> bool" where
  "all_indirect p st \<longleftrightarrow> (\<forall>x \<in> set (pending_pings (snd st)). target_id x = p \<longrightarrow> indirect_sent x)"

definition no_pending :: "string \<Rightarrow> swim_state \<Rightarrow> bool" where
  "no_pending p st \<longleftrightarrow> (\<forall>x \<in> set (pending_pings (snd st)). target_id x \<noteq> p)"

definition seen_by :: "string \<Rightarrow> instant \<Rightarrow> swim_state \<Rightarrow> bool" where
  "seen_by p L st \<longleftrightarrow> (\<forall>x. peer_of (fst st) p = Some x \<longrightarrow> pi_last_seen x \<le> L)"

definition dead_or_gone :: "string \<Rightarrow> swim_state \<Rightarrow> bool" where
  "dead_or_gone p st \<longleftrightarrow> (\<forall>x. peer_of (fst st) p = Some x \<longrightarrow> pi_state x = Dead)"

text \<open>The stages of a pass, from the point of view of one peer.\<close>

definition pass_stages ::
    "SwimConfig \<Rightarrow> string \<Rightarrow> instant \<Rightarrow> instant \<Rightarrow> PeerInfo option \<Rightarrow> PeerInfo option \<Rightarrow> bool" where
  "pass_stages cfg p now fin e1 e3 \<longleftrightarrow>
     (\<exists>e2. (case e1 of
         Some x \<Rightarrow> if pi_state x = Suspect \<and> suspect_timeout cfg \<le> elapsed_since now (pi_last_seen x)
           then \<exists>t. now \<le> t \<and> t \<le> fin \<and> e2 = Some (marked Dead t x) else e2 = e1
       | None \<Rightarrow> e2 = None)
     \<and> e3 = (case e2 of
         Some x \<Rightarrow> if pi_state x = Dead \<and> dead_timeout cfg \<le> elapsed_since now (pi_last_seen x) then None else e2
       | None \<Rightarrow> None))"

lemma check_timeouts_stages:
  assumes "pm_wf pm" and clk: "\<forall>i. now \<le> clock i \<and> clock i \<le> fin"
  shows "\<exists>kept pm1 actions pm3.
    snd (check_timeouts pick_multiple now clock pm sw) = (pm3, sw\<lparr>pending_pings := kept\<rparr>)
    \<and> check_pings sw pick_multiple now clock (pending_pings sw) pm [] = (kept, pm1, actions)
    \<and> pm_wf pm3 \<and> pass_stages (sw_config sw) p now fin (peer_of pm1 p) (peer_of pm3 p)"
proof -
  obtain kept pm1 actions where 1: "check_pings sw pick_multiple now clock (pending_pings sw) pm [] = (kept, pm1, actions)"
    by (metis prod_cases3)
  obtain pm2 actions2 where 2: "check_suspects (sw_config sw) now clock (peers_in Suspect pm1) pm1 actions = (pm2, actions2)"
    by fastforce
  obtain pm3 actions3 where 3: "check_dead (sw_config sw) now (peers_in Dead pm2) pm2 actions2 = (pm3, actions3)"
    by fastforce
  have wf: "pm_wf pm1" "pm_wf pm2" "pm_wf pm3"
    using assms(1) check_pings_effect [OF 1] check_suspects_effect [OF 2] check_dead_effect [OF 3] by blast+
  have sus: "(\<exists>q \<in> set (peers_in Suspect pm1). pi_node_id q = p \<and> P q) \<longleftrightarrow>
      (\<exists>x. peer_of pm1 p = Some x \<and> pi_state x = Suspect \<and> P x)" for P
    using peers_in_iff [OF wf(1)] by blast
  have dead: "(\<exists>q \<in> set (peers_in Dead pm2). pi_node_id q = p \<and> P q) \<longleftrightarrow>
      (\<exists>x. peer_of pm2 p = Some x \<and> pi_state x = Dead \<and> P x)" for P
    using peers_in_iff [OF wf(2)] by blast
  have "pass_stages (sw_config sw) p now fin (peer_of pm1 p) (peer_of pm3 p)"
    unfolding pass_stages_def
    using clk check_suspects_effect [OF 2, of p, unfolded sus] check_dead_effect [OF 3, of p, unfolded dead]
    by (intro exI [of _ "peer_of pm2 p"]) (auto split: option.splits if_splits)
  then show ?thesis using 1 2 3 wf(3) by (simp add: check_timeouts_def)
qed

lemma check_pings_untouched:
  assumes "check_pings sw pick_multiple now clock pend pm actions = (kept, pm', actions')" "\<forall>x \<in> set pend. target_id x \<noteq> p"
  shows "peer_of pm' p = peer_of pm p"
  using assms
proof (induction pend arbitrary: pm actions kept)
  case (Cons x pend)
  let ?go = "\<lambda>pm actions. check_pings sw pick_multiple now clock pend pm actions"
  from Cons.prems(1) consider
      (sus) acts where "?go (update_peer_state (clock (length actions)) (target_id x) Suspect pm) acts = (kept, pm', actions')"
    | (keep) acts kept' where "?go pm acts = (kept', pm', actions')"
    by (auto simp: Let_def split: if_splits prod.splits)
  then show ?case using Cons.prems(2) by cases (auto dest: Cons.IH)
qed simp

lemma elapsed_ge: "t + int d \<le> now \<Longrightarrow> d \<le> elapsed_since now t"
  by (simp add: elapsed_since_def)

text \<open>A pass that begins after all that is known of \<open>p\<close> keeps \<open>p\<close> fading.\<close>

lemma check_pass_cases:
  assumes "check_pass now fin st st'" "pm_wf (fst st)" "sw_config (snd st) = cfg"
  obtains e1 where
    "pass_stages cfg p now fin e1 (peer_of (fst st') p)" "pm_wf (fst st')" "sw_config (snd st') = cfg"
    "(e1 = peer_of (fst st) p
        \<and> ((\<exists>x \<in> set (pending_pings (snd st)). target_id x = p) \<longrightarrow> (\<exists>x \<in> set (pending_pings (snd st')). target_id x = p)))
      \<or> \<not> no_pending p st \<and> (\<exists>t. now \<le> t \<and> t \<le> fin \<and> e1 = map_option (marked Suspect t) (peer_of (fst st) p))"
    "\<And>x. x \<in> set (pending_pings (snd st')) \<Longrightarrow>
      \<exists>y \<in> set (pending_pings (snd st)). target_id x = target_id y \<and> sent_at x = sent_at y
      \<and> (indirect_sent y \<or> elapsed_since now (sent_at y) \<ge> ping_timeout cfg \<longrightarrow> indirect_sent x)
      \<and> \<not> (indirect_sent y \<and> elapsed_since now (sent_at y) \<ge> ping_timeout cfg * 2)"
proof -
  obtain pm sw where st: "st = (pm, sw)" by fastforce
  obtain pick_multiple clock where clk: "\<forall>i. now \<le> clock i \<and> clock i \<le> fin"
    and s: "st' = swim_step (EvCheck pick_multiple now clock) st"
    using assms(1) by (auto simp: check_pass_def)
  have cfg: "sw_config sw = cfg" using assms(3) st by simp
  have "pm_wf pm" using assms(2) st by simp
  from check_timeouts_stages [OF this clk, of pick_multiple sw p] obtain kept pm1 acts pm3 where
    st3: "snd (check_timeouts pick_multiple now clock pm sw) = (pm3, sw\<lparr>pending_pings := kept\<rparr>)"
    and run: "check_pings sw pick_multiple now clock (pending_pings sw) pm [] = (kept, pm1, acts)"
    and wf: "pm_wf pm3" and "pass_stages cfg p now fin (peer_of pm1 p) (peer_of pm3 p)"
    unfolding cfg by blast
  have st': "st' = (pm3, sw\<lparr>pending_pings := kept\<rparr>)" using s st st3 by simp
  note \<open>pass_stages _ _ _ _ _ _\<close>
  moreover note check_pings_effect [OF run, of p] check_pings_untouched [OF run, of p] check_pings_kept [OF run]
  ultimately show thesis using that [of "peer_of pm1 p"] clk wf cfg
    by (auto simp: st st' no_pending_def)
qed

lemma pass_stages_seen:
  assumes "pass_stages cfg p now fin e1 (Some y)" "\<And>x. e1 = Some x \<Longrightarrow> pi_last_seen x \<le> fin"
  shows "pi_last_seen y \<le> fin"
  using assms by (cases e1) (auto simp: pass_stages_def split: option.splits if_splits)

lemma pass_stages_not_alive:
  assumes "pass_stages cfg p now fin e1 (Some y)" "\<And>x. e1 = Some x \<Longrightarrow> pi_state x \<noteq> Alive"
  shows "pi_state y \<noteq> Alive"
  using assms by (cases e1) (auto simp: pass_stages_def split: option.splits if_splits)

lemma pass_stages_dead:
  assumes "pass_stages cfg p now fin e1 (Some y)"
    and "\<And>x. e1 = Some x \<Longrightarrow> pi_state x = Dead \<or> pi_state x = Suspect \<and> suspect_timeout cfg \<le> elapsed_since now (pi_last_seen x)"
  shows "pi_state y = Dead"
proof (cases e1)
  case (Some x)
  then show ?thesis using assms(1) assms(2) [OF Some] by (auto simp: pass_stages_def split: option.splits if_splits)
qed (use assms(1) in \<open>simp add: pass_stages_def\<close>)

lemma pass_stages_gone:
  assumes "pass_stages cfg p now fin e1 e3"
    and "\<And>x. e1 = Some x \<Longrightarrow> pi_state x = Dead \<and> dead_timeout cfg \<le> elapsed_since now (pi_last_seen x)"
  shows "e3 = None"
proof (cases e1)
  case (Some x)
  then show ?thesis using assms(1) assms(2) [OF Some] by (simp add: pass_stages_def)
qed (use assms(1) in \<open>simp add: pass_stages_def\<close>)

lemma check_pass_fading:
  assumes pass: "check_pass now fin st st'" and fade: "fading cfg p T lo st" and lo: "lo \<le> fin"
  shows "fading cfg p T fin st'"
proof -
  have wf: "pm_wf (fst st)" "sw_config (snd st) = cfg" using fade by (simp_all add: fading_def)
  obtain e1 where e1: "pass_stages cfg p now fin e1 (peer_of (fst st') p)" "pm_wf (fst st')" "sw_config (snd st') = cfg"
    "(e1 = peer_of (fst st) p
        \<and> ((\<exists>x \<in> set (pending_pings (snd st)). target_id x = p) \<longrightarrow> (\<exists>x \<in> set (pending_pings (snd st')). target_id x = p)))
      \<or> \<not> no_pending p st \<and> (\<exists>t. now \<le> t \<and> t \<le> fin \<and> e1 = map_option (marked Suspect t) (peer_of (fst st) p))"
    and kept: "\<And>x. x \<in> set (pending_pings (snd st')) \<Longrightarrow>
      \<exists>y \<in> set (pending_pings (snd st)). target_id x = target_id y \<and> sent_at x = sent_at y"
    by (rule check_pass_cases [OF pass wf, of p]) blast
  have "\<And>x. peer_of (fst st) p = Some x \<Longrightarrow> pi_last_seen x \<le> fin" using fade lo by (force simp: fading_def)
  then have "pi_last_seen x \<le> fin" if "e1 = Some x" for x
    using e1(4) that by (cases "peer_of (fst st) p") auto
  then have seen: "pi_last_seen y \<le> fin" if "peer_of (fst st') p = Some y" for y
    using pass_stages_seen e1(1) that by metis
  have "(\<exists>x \<in> set (pending_pings (snd st')). target_id x = p) \<or> (\<forall>x. e1 = Some x \<longrightarrow> pi_state x \<noteq> Alive)"
    using e1(4)
  proof (elim disjE conjE exE)
    assume "e1 = peer_of (fst st) p"
      "(\<exists>x \<in> set (pending_pings (snd st)). target_id x = p) \<longrightarrow> (\<exists>x \<in> set (pending_pings (snd st')). target_id x = p)"
    then show ?thesis using fade by (auto simp: fading_def not_alive_def)
  qed auto
  then have "(\<exists>x \<in> set (pending_pings (snd st')). target_id x = p) \<or> not_alive p (fst st')"
    using pass_stages_not_alive e1(1) unfolding not_alive_def by metis
  then show ?thesis using e1(2,3) seen kept fade unfolding fading_def by fastforce
qed

lemma check_pass_moves:
  assumes pass: "check_pass now fin st st'" and fade: "fading cfg p T hi st" and quiet: "no_pending p st"
  shows "no_pending p st'"
    and "dead_or_gone p st \<Longrightarrow> peer_of (fst st') p = None \<or> peer_of (fst st') p = peer_of (fst st) p"
    and "dead_or_gone p st' \<or> peer_of (fst st') p = peer_of (fst st) p"
    and "seen_by p L st \<Longrightarrow> L + int (suspect_timeout cfg) \<le> now \<Longrightarrow> dead_or_gone p st'"
    and "dead_or_gone p st \<Longrightarrow> seen_by p L st \<Longrightarrow> L + int (dead_timeout cfg) \<le> now \<Longrightarrow> peer_of (fst st') p = None"
proof -
  have wf: "pm_wf (fst st)" "sw_config (snd st) = cfg" using fade by (simp_all add: fading_def)
  have na: "pi_state x \<noteq> Alive" if "peer_of (fst st) p = Some x" for x
    using fade quiet that by (auto simp: fading_def no_pending_def not_alive_def)
  have timed: "d \<le> elapsed_since now (pi_last_seen x)"
    if "seen_by p L st" "peer_of (fst st) p = Some x" "L + int d \<le> now" for x d
    using that by (intro elapsed_ge) (fastforce simp: seen_by_def)
  obtain e1 where "pass_stages cfg p now fin e1 (peer_of (fst st') p)" "e1 = peer_of (fst st) p"
    and kept: "\<And>x. x \<in> set (pending_pings (snd st')) \<Longrightarrow> \<exists>y \<in> set (pending_pings (snd st)). target_id x = target_id y"
    using quiet by (rule_tac check_pass_cases [OF pass wf, of p]) blast
  then have stages: "pass_stages cfg p now fin (peer_of (fst st) p) (peer_of (fst st') p)" by simp
  show "no_pending p st'" using kept quiet unfolding no_pending_def by metis
  show "dead_or_gone p st \<Longrightarrow> peer_of (fst st') p = None \<or> peer_of (fst st') p = peer_of (fst st) p"
    using stages by (cases "peer_of (fst st) p") (auto simp: pass_stages_def dead_or_gone_def)
  show "dead_or_gone p st' \<or> peer_of (fst st') p = peer_of (fst st) p"
    using stages by (cases "peer_of (fst st) p") (auto simp: pass_stages_def dead_or_gone_def split: if_splits)
  show "dead_or_gone p st'" if "seen_by p L st" "L + int (suspect_timeout cfg) \<le> now"
  proof -
    have "pi_state x = Dead \<or> pi_state x = Suspect \<and> suspect_timeout cfg \<le> elapsed_since now (pi_last_seen x)"
      if "peer_of (fst st) p = Some x" for x
      using timed [OF \<open>seen_by p L st\<close> that \<open>L + _ \<le> _\<close>] na [OF that] by (cases "pi_state x") auto
    then show ?thesis using pass_stages_dead stages unfolding dead_or_gone_def by metis
  qed
  show "peer_of (fst st') p = None" if "dead_or_gone p st" "seen_by p L st" "L + int (dead_timeout cfg) \<le> now"
    using that timed [OF that(2) _ that(3)] by (intro pass_stages_gone [OF stages]) (auto simp: dead_or_gone_def)
qed

lemma check_pass_indirect:
  assumes "check_pass now fin st st'" "fading cfg p T lo st"
  shows "all_indirect p st \<or> T + int (ping_timeout cfg) \<le> now \<Longrightarrow> all_indirect p st'"
    and "all_indirect p st \<Longrightarrow> T + int (ping_timeout cfg * 2) \<le> now \<Longrightarrow> no_pending p st'"
proof -
  have wf: "pm_wf (fst st)" "sw_config (snd st) = cfg" using assms(2) by (simp_all add: fading_def)
  have sent: "sent_at y \<le> T" if "y \<in> set (pending_pings (snd st))" "target_id y = p" for y
    using assms(2) that by (simp add: fading_def)
  have timed: "d \<le> elapsed_since now (sent_at y)"
    if "y \<in> set (pending_pings (snd st))" "target_id y = p" "T + int d \<le> now" for y d
    using sent [OF that(1,2)] that(3) by (intro elapsed_ge) simp
  have kept: "\<exists>y \<in> set (pending_pings (snd st)). target_id x = target_id y \<and> sent_at x = sent_at y
      \<and> (indirect_sent y \<or> elapsed_since now (sent_at y) \<ge> ping_timeout cfg \<longrightarrow> indirect_sent x)
      \<and> \<not> (indirect_sent y \<and> elapsed_since now (sent_at y) \<ge> ping_timeout cfg * 2)"
    if "x \<in> set (pending_pings (snd st'))" for x
    by (rule check_pass_cases [OF assms(1) wf, of p]) (use that in blast)
  show "all_indirect p st'" if "all_indirect p st \<or> T + int (ping_timeout cfg) \<le> now"
    using that kept timed [of _ "ping_timeout cfg"] unfolding all_indirect_def by metis
  show "no_pending p st'" if "all_indirect p st" "T + int (ping_timeout cfg * 2) \<le> now"
    using that kept timed [of _ "ping_timeout cfg * 2"] unfolding all_indirect_def no_pending_def by metis
qed

text \<open>The stages a silent peer goes through, and that quiet events leave them.\<close>

definition suspected :: "string \<Rightarrow> instant \<Rightarrow> swim_state \<Rightarrow> bool" where
  "suspected p L st \<longleftrightarrow> no_pending p st \<and> (dead_or_gone p st \<or> seen_by p L st)"

definition buried :: "string \<Rightarrow> instant \<Rightarrow> swim_state \<Rightarrow> bool" where
  "buried p L st \<longleftrightarrow> no_pending p st \<and> dead_or_gone p st \<and> seen_by p L st"

lemma quiet_check:
  assumes "check_pass now hi st st'" "fading cfg p T hi st"
  shows "fading cfg p T hi st'" "all_indirect p st \<Longrightarrow> all_indirect p st'"
    "suspected p L st \<Longrightarrow> suspected p L st'" "buried p L st \<Longrightarrow> buried p L st'"
proof -
  show "fading cfg p T hi st'" by (rule check_pass_fading [OF assms order_refl])
  show "all_indirect p st \<Longrightarrow> all_indirect p st'" using check_pass_indirect(1) [OF assms] by blast
  note moves = check_pass_moves [OF assms]
  show "suspected p L st'" if "suspected p L st"
    using that moves(1-3) by (auto simp: suspected_def dead_or_gone_def seen_by_def)
  show "buried p L st'" if "buried p L st"
    using that moves(1,2) by (auto simp: buried_def dead_or_gone_def seen_by_def)
qed

lemma quiet_other:
  assumes "quiet_event p lo hi st ev" "\<And>f n c. ev \<noteq> EvCheck f n c" "pm_wf (fst st)"
  shows "peer_of (fst (swim_step ev st)) p = peer_of (fst st) p" "pm_wf (fst (swim_step ev st))"
    "sw_config (snd (swim_step ev st)) = sw_config (snd st)"
    "filter (\<lambda>x. target_id x = p) (pending_pings (snd (swim_step ev st))) = filter (\<lambda>x. target_id x = p) (pending_pings (snd st))"
  using assms
  by (cases st; cases ev; force simp: handle_pong_def select_probe_target_def Let_def intro: filter_cong)+

lemma same_view:
  assumes "peer_of (fst st') p = peer_of (fst st) p"
    "filter (\<lambda>x. target_id x = p) (pending_pings (snd st')) = filter (\<lambda>x. target_id x = p) (pending_pings (snd st))"
  shows "pm_wf (fst st') \<Longrightarrow> sw_config (snd st') = sw_config (snd st) \<Longrightarrow> fading cfg p T hi st \<Longrightarrow> fading cfg p T hi st'"
    "all_indirect p st' \<longleftrightarrow> all_indirect p st" "suspected p L st' \<longleftrightarrow> suspected p L st" "buried p L st' \<longleftrightarrow> buried p L st"
proof -
  have mem: "x \<in> set (pending_pings (snd st')) \<and> target_id x = p \<longleftrightarrow> x \<in> set (pending_pings (snd st)) \<and> target_id x = p" for x
    using arg_cong [OF assms(2), of set] by (auto simp: set_eq_iff)
  have np: "no_pending p st' \<longleftrightarrow> no_pending p st" using mem unfolding no_pending_def by metis
  show "all_indirect p st' \<longleftrightarrow> all_indirect p st" using mem unfolding all_indirect_def by metis
  show "suspected p L st' \<longleftrightarrow> suspected p L st" "buried p L st' \<longleftrightarrow> buried p L st"
    using np assms(1) by (simp_all add: suspected_def buried_def dead_or_gone_def seen_by_def)
  show "pm_wf (fst st') \<Longrightarrow> sw_config (snd st') = sw_config (snd st) \<Longrightarrow> fading cfg p T hi st \<Longrightarrow> fading cfg p T hi st'"
    using mem assms(1) unfolding fading_def not_alive_def by metis
qed

lemma quiet_step:
  assumes "quiet_event p lo hi st ev" "fading cfg p T hi st"
  shows "fading cfg p T hi (swim_step ev st) \<and> (all_indirect p st \<longrightarrow> all_indirect p (swim_step ev st))
    \<and> (suspected p L st \<longrightarrow> suspected p L (swim_step ev st)) \<and> (buried p L st \<longrightarrow> buried p L (swim_step ev st))"
proof (cases "\<exists>f n c. ev = EvCheck f n c")
  case True
  then obtain f n c where ev: "ev = EvCheck f n c" by blast
  then have "check_pass n hi st (swim_step ev st)" using assms(1) unfolding check_pass_def by auto
  from quiet_check [OF this assms(2)] show ?thesis by blast
next
  case False
  have "pm_wf (fst st)" using assms(2) by (simp add: fading_def)
  note other = quiet_other [OF assms(1) _ this]
  show ?thesis using same_view [OF other(1,4)] other(2,3) assms(2) False by blast
qed

lemma silent_run_keeps:
  assumes "silent_run p lo hi st st'" "fading cfg p T hi st"
  shows "fading cfg p T hi st' \<and> (all_indirect p st \<longrightarrow> all_indirect p st')
    \<and> (suspected p L st \<longrightarrow> suspected p L st') \<and> (buried p L st \<longrightarrow> buried p L st')"
  using assms by induction (use quiet_step in blast)+

lemma fading_mono: "fading cfg p T lo st \<Longrightarrow> lo \<le> hi \<Longrightarrow> fading cfg p T hi st"
  by (force simp: fading_def)

lemma check_pass_time: "check_pass now fin st st' \<Longrightarrow> now \<le> fin"
  unfolding check_pass_def using order_trans by blast

text \<open>A silent run followed by a pass.\<close>

lemma silent_then_pass:
  assumes "fading cfg p T lo st" "lo \<le> now" "silent_run p lo now st st1" "check_pass now fin st1 st'"
  shows "fading cfg p T fin st'"
    and "T + int (ping_timeout cfg) \<le> now \<Longrightarrow> all_indirect p st'"
    and "all_indirect p st \<Longrightarrow> T + int (ping_timeout cfg * 2) \<le> now \<Longrightarrow> suspected p fin st'"
    and "suspected p L st \<Longrightarrow> L + int (suspect_timeout cfg) \<le> now \<Longrightarrow> buried p fin st'"
    and "buried p L st \<Longrightarrow> L + int (dead_timeout cfg) \<le> now \<Longrightarrow> peer_of (fst st') p = None"
proof -
  note keep = silent_run_keeps [OF assms(3) fading_mono [OF assms(1,2)]]
  then have fade1: "fading cfg p T now st1" by blast
  show fade': "fading cfg p T fin st'" by (rule check_pass_fading [OF assms(4) fade1 check_pass_time [OF assms(4)]])
  then have seen: "seen_by p fin st'" by (simp add: fading_def seen_by_def)
  show "T + int (ping_timeout cfg) \<le> now \<Longrightarrow> all_indirect p st'"
    using check_pass_indirect(1) [OF assms(4) fade1] by blast
  show "all_indirect p st \<Longrightarrow> T + int (ping_timeout cfg * 2) \<le> now \<Longrightarrow> suspected p fin st'"
    using check_pass_indirect(2) [OF assms(4) fade1] keep seen by (simp add: suspected_def)
  show "buried p fin st'" if "suspected p L st" "L + int (suspect_timeout cfg) \<le> now"
  proof -
    have "suspected p L st1" using keep that(1) by blast
    then show ?thesis using check_pass_moves [OF assms(4) fade1] that(2) seen
      by (auto simp: suspected_def buried_def dead_or_gone_def)
  qed
  show "buried p L st \<Longrightarrow> L + int (dead_timeout cfg) \<le> now \<Longrightarrow> peer_of (fst st') p = None"
    using check_pass_moves(5) [OF assms(4) fade1] keep by (metis buried_def)
qed


definition ex_swim :: swim_state where
  "ex_swim = (add_peer (peer_new 0 ''p'' (IpV4 1, 9000) ''fp'') (add_peer (peer_new 0 ''q'' (IpV4 2, 9000) ''fq'') pm_new),
     (swim_new ''n'' \<lparr>ping_interval = 1, ping_timeout = 5, ping_req_fanout = 3, suspect_timeout = 10, dead_timeout = 20\<rparr>)
       \<lparr>pending_pings := [\<lparr>target_id = ''p'', sent_at = 0, indirect_sent = False\<rparr>]\<rparr>)"

definition ex_check :: "instant \<Rightarrow> swim_state \<Rightarrow> swim_state" where
  "ex_check now = swim_step (EvCheck (\<lambda>_ xs k. take k xs) now (\<lambda>_. now))"


end
