(* ===== verification/Anti_Poison.thy ===== *)
theory Anti_Poison
  imports Prelude
begin

text \<open>
  The guards of \<open>hiveguard-core/src/anti_poison.rs\<close> against a peer that floods the
  cluster: a sliding-window rate limiter per key, the quarantine test and the
  median it is compared with. \<open>Utc::now()\<close> is an argument: \<open>check_and_record\<close> takes
  the time it reads first, and the one that its call of \<open>cleanup\<close> reads.
\<close>

record RateLimiter =
  max_per_window :: nat
  rl_window :: int
  rl_entries :: "(string, instant list) hmap"
  max_keys :: nat

definition DEFAULT_MAX_KEYS :: nat where
  "DEFAULT_MAX_KEYS = 10000"

definition rl_new :: "nat \<Rightarrow> int \<Rightarrow> RateLimiter" where
  "rl_new m w = \<lparr>max_per_window = m, rl_window = w, rl_entries = [], max_keys = DEFAULT_MAX_KEYS\<rparr>"

definition cleanup :: "instant \<Rightarrow> RateLimiter \<Rightarrow> RateLimiter" where
  "cleanup now rl =
     (let cutoff = now - rl_window rl;
          swept = List.map (\<lambda>(k, timestamps). (k, filter (\<lambda>t. t > cutoff) timestamps)) (rl_entries rl)
      in rl\<lparr>rl_entries := hm_retain (\<lambda>_ timestamps. timestamps \<noteq> []) swept\<rparr>)"

definition check_and_record ::
    "instant \<Rightarrow> instant \<Rightarrow> string \<Rightarrow> RateLimiter \<Rightarrow> bool \<times> RateLimiter" where
  "check_and_record now now_cleanup key rl =
     (let cutoff = now - rl_window rl;
          at_capacity = (\<lambda>r. length (rl_entries r) \<ge> max_keys r);
          fresh = (\<not> hm_contains (rl_entries rl) key \<and> at_capacity rl);
          rl' = (if fresh then cleanup now_cleanup rl else rl)
      in if fresh \<and> at_capacity rl' then (False, rl')
         else
           let timestamps = filter (\<lambda>t. t > cutoff) (hm_get_or [] (rl_entries rl') key)
           in if length timestamps \<ge> max_per_window rl'
              then (False, rl'\<lparr>rl_entries := hm_insert key timestamps (rl_entries rl')\<rparr>)
              else (True, rl'\<lparr>rl_entries := hm_insert key (timestamps @ [now]) (rl_entries rl')\<rparr>))"

definition would_allow :: "instant \<Rightarrow> string \<Rightarrow> RateLimiter \<Rightarrow> bool" where
  "would_allow now key rl =
     (let cutoff = now - rl_window rl in
      case hm_get (rl_entries rl) key of
        Some timestamps \<Rightarrow> length (filter (\<lambda>t. t > cutoff) timestamps) < max_per_window rl
      | None \<Rightarrow> True)"

definition current_count :: "instant \<Rightarrow> string \<Rightarrow> RateLimiter \<Rightarrow> nat" where
  "current_count now key rl =
     (let cutoff = now - rl_window rl in
      case hm_get (rl_entries rl) key of
        Some ts \<Rightarrow> length (filter (\<lambda>t. t > cutoff) ts)
      | None \<Rightarrow> 0)"

definition check_quarantine :: "u64 \<Rightarrow> u64 \<Rightarrow> bool" where
  "check_quarantine node_ban_count median_ban_count =
     (let threshold = (if median_ban_count = 0 then 10 else median_ban_count * 10)
      in node_ban_count > threshold)"

definition median :: "u64 list \<Rightarrow> u64" where
  "median values =
     (if values = [] then 0
      else
        let sorted = sort values; mid = length sorted div 2
        in if length sorted mod 2 = 0 then (sorted ! (mid - 1) + sorted ! mid) div 2
           else sorted ! mid)"

section \<open>What the limiter remembers\<close>

abbreviation seen :: "RateLimiter \<Rightarrow> string \<Rightarrow> instant list" where
  "seen rl k \<equiv> hm_get_or [] (rl_entries rl) k"

lemma cleanup_params [simp]:
  "max_per_window (cleanup t rl) = max_per_window rl" "rl_window (cleanup t rl) = rl_window rl"
  "max_keys (cleanup t rl) = max_keys rl"
  by (simp_all add: cleanup_def Let_def)

lemma rl_cleanup_wf: "hm_wf (rl_entries rl) \<Longrightarrow> hm_wf (rl_entries (cleanup t rl))"
  by (simp add: cleanup_def Let_def)

lemma cleanup_seen:
  assumes "hm_wf (rl_entries rl)"
  shows "seen (cleanup t rl) k = filter (\<lambda>x. x > t - rl_window rl) (seen rl k)"
  using assms by (simp add: cleanup_def Let_def hm_get_or_def hm_get_retain split: option.splits)

lemma cleanup_length: "length (rl_entries (cleanup t rl)) \<le> length (rl_entries rl)"
  by (simp add: cleanup_def Let_def hm_retain_def length_filter_le order_trans [OF length_filter_le])

lemma check_and_record_params [simp]:
  "max_per_window (snd (check_and_record a b k rl)) = max_per_window rl"
  "rl_window (snd (check_and_record a b k rl)) = rl_window rl"
  "max_keys (snd (check_and_record a b k rl)) = max_keys rl"
  by (simp_all add: check_and_record_def Let_def)

lemma check_and_record_wf:
  "hm_wf (rl_entries rl) \<Longrightarrow> hm_wf (rl_entries (snd (check_and_record a b k rl)))"
  by (simp add: check_and_record_def Let_def rl_cleanup_wf hm_wf_insert)

lemma check_and_record_length:
  assumes "hm_wf (rl_entries rl)" "length (rl_entries rl) \<le> max_keys rl"
  shows "length (rl_entries (snd (check_and_record a b k rl))) \<le> max_keys rl"
  using assms cleanup_length [of b rl] rl_cleanup_wf [OF assms(1), of b]
  by (auto simp: check_and_record_def Let_def hm_length_insert)

text \<open>
  The key step: what is recorded for the key that is asked for, inside its window,
  is what was recorded before, extended by the current time when the call accepts.
\<close>

lemma check_and_record_seen:
  assumes "hm_wf (rl_entries rl)" "a \<le> b" and r_def: "r = check_and_record a b k rl"
  shows "filter (\<lambda>x. x > b - rl_window rl) (seen (snd r) j) =
    filter (\<lambda>x. x > b - rl_window rl) (seen rl j @ (if fst r \<and> j = k then [a] else []))"
proof -
  have sub: "x > a - rl_window rl" if "x > b - rl_window rl" for x
    using that assms(2) by simp
  have none: "seen rl k = []" if "\<not> hm_contains (rl_entries rl) k"
    using that by (simp add: hm_get_or_def split: option.splits)
  show ?thesis
    using sub none
    by (auto simp: r_def check_and_record_def Let_def cleanup_seen [OF assms(1)] intro!: filter_cong)
qed

lemma check_and_record_accepts:
  assumes "hm_wf (rl_entries rl)" "fst (check_and_record a b k rl)"
  shows "length (filter (\<lambda>x. x > a - rl_window rl) (seen rl k)) < max_per_window rl"
proof -
  have none: "seen rl k = []" if "\<not> hm_contains (rl_entries rl) k"
    using that by (simp add: hm_get_or_def split: option.splits)
  show ?thesis
    using assms(2) none
    by (auto simp: check_and_record_def Let_def cleanup_seen [OF assms(1)] split: if_splits)
qed

section \<open>Runs\<close>

text \<open>
  A run of the limiter: each call reads the clock for itself and for its clean-up;
  the accepted calls are collected with their times. \<open>clock_ok\<close> says that the readings
  do not decrease.
\<close>

fun rl_step :: "instant \<times> instant \<times> string \<Rightarrow> (instant \<times> string) list \<times> RateLimiter
    \<Rightarrow> (instant \<times> string) list \<times> RateLimiter" where
  "rl_step (now, now_cleanup, key) (acc, rl) =
     (case check_and_record now now_cleanup key rl of
        (ok, rl') \<Rightarrow> (if ok then acc @ [(now, key)] else acc, rl'))"

fun clock_ok :: "instant \<Rightarrow> (instant \<times> instant \<times> string) list \<Rightarrow> bool" where
  "clock_ok t [] = True"
| "clock_ok t ((a, b, key) # es) = (t \<le> a \<and> a \<le> b \<and> clock_ok b es)"

definition accepted_for :: "string \<Rightarrow> (instant \<times> string) list \<Rightarrow> instant list" where
  "accepted_for k acc = List.map fst (filter (\<lambda>p. snd p = k) acc)"

definition in_window :: "instant \<Rightarrow> int \<Rightarrow> instant list \<Rightarrow> nat" where
  "in_window t w ts = length (filter (\<lambda>x. t - w < x \<and> x \<le> t) ts)"

definition rl_inv :: "instant \<Rightarrow> (instant \<times> string) list \<times> RateLimiter \<Rightarrow> bool" where
  "rl_inv T s \<longleftrightarrow> (case s of (acc, rl) \<Rightarrow>
     hm_wf (rl_entries rl) \<and> length (rl_entries rl) \<le> max_keys rl
     \<and> (\<forall>k. (\<forall>x \<in> set (accepted_for k acc). x \<le> T)
          \<and> filter (\<lambda>x. x > T - rl_window rl) (seen rl k)
            = filter (\<lambda>x. x > T - rl_window rl) (accepted_for k acc)
          \<and> (\<forall>t. in_window t (rl_window rl) (accepted_for k acc) \<le> max_per_window rl)))"

lemma accepted_for_snoc [simp]:
  "accepted_for k (acc @ [(a, j)]) = accepted_for k acc @ (if j = k then [a] else [])"
  by (simp add: accepted_for_def)

lemma in_window_snoc [simp]:
  "in_window t w (ts @ [a]) = in_window t w ts + (if t - w < a \<and> a \<le> t then 1 else 0)"
  by (simp add: in_window_def)

lemma filter_later: "T \<le> b \<Longrightarrow> filter (\<lambda>x. x > T - w) xs = filter (\<lambda>x. x > T - w) ys \<Longrightarrow>
   filter (\<lambda>x. x > b - (w::int)) xs = filter (\<lambda>x. x > b - w) ys"
proof -
  assume "T \<le> b" and eq: "filter (\<lambda>x. x > T - w) xs = filter (\<lambda>x. x > T - w) ys"
  then have "filter (\<lambda>x. x > b - w) (filter (\<lambda>x. x > T - w) zs) = filter (\<lambda>x. x > b - w) zs" for zs
    by (auto intro: filter_cong)
  then show ?thesis using eq by metis
qed

lemma in_window_le: "a \<le> t \<Longrightarrow> in_window t w xs \<le> length (filter (\<lambda>x. x > a - w) xs)"
  unfolding in_window_def by (induction xs) auto

lemma rl_step_inv:
  assumes inv: "rl_inv T s" and ord: "T \<le> a" "a \<le> b"
  shows "rl_inv b (rl_step (a, b, key) s)"
proof -
  obtain acc rl where s: "s = (acc, rl)" by (cases s)
  obtain ok rl' where c: "check_and_record a b key rl = (ok, rl')" by fastforce
  let ?w = "rl_window rl" and ?acc = "if ok then acc @ [(a, key)] else acc"
  have wf: "hm_wf (rl_entries rl)" and len: "length (rl_entries rl) \<le> max_keys rl"
    and le: "\<And>k x. x \<in> set (accepted_for k acc) \<Longrightarrow> x \<le> T"
    and seen: "\<And>k. filter (\<lambda>x. x > T - ?w) (seen rl k) = filter (\<lambda>x. x > T - ?w) (accepted_for k acc)"
    and win: "\<And>k t. in_window t ?w (accepted_for k acc) \<le> max_per_window rl"
    using inv by (auto simp: rl_inv_def s)
  have par: "rl_window rl' = ?w" "max_per_window rl' = max_per_window rl" "max_keys rl' = max_keys rl"
    using check_and_record_params [of a b key rl] by (simp_all add: c)
  have "filter (\<lambda>x. x > b - ?w) (seen rl' k) = filter (\<lambda>x. x > b - ?w) (accepted_for k ?acc)" for k
    using check_and_record_seen [OF wf ord(2) c [symmetric], of k] filter_later [OF _ seen, of b k] ord
    by auto
  moreover have "in_window t ?w (accepted_for k ?acc) \<le> max_per_window rl" for k t
  proof (cases "ok \<and> key = k \<and> a \<le> t")
    case True
    then have "fst (check_and_record a b k rl)" using c by auto
    then have "in_window t ?w (accepted_for k acc) < max_per_window rl"
      using in_window_le [of a t ?w "accepted_for k acc"] filter_later [OF ord(1) seen, of k]
        check_and_record_accepts [OF wf, of a b k] True by simp
    then show ?thesis using True by simp
  next
    case False
    then show ?thesis using win by auto
  qed
  moreover have "x \<le> b" if "x \<in> set (accepted_for k ?acc)" for k x
    using that le [of x k] ord by (auto split: if_splits)
  ultimately show ?thesis
    using check_and_record_wf [OF wf, of a b key] check_and_record_length [OF wf len, of a b key]
    by (simp add: rl_inv_def s c par)
qed

lemma rl_run_inv: "rl_inv T s \<Longrightarrow> clock_ok T es \<Longrightarrow> \<exists>T'. rl_inv T' (fold rl_step es s)"
proof (induction es arbitrary: T s)
  case (Cons e es)
  obtain a b k where e: "e = (a, b, k)" by (cases e)
  show ?case using Cons rl_step_inv [of T s a b k] by (auto simp: e simp del: rl_step.simps)
qed auto

text \<open>
  C14: the rate limiter keeps its promise on every window, not only on those that end
  at a call: along any run whose clock does not go back, at most \<open>max_per_window\<close>
  calls of a key are accepted in any interval of the window's length, and the number
  of tracked keys never exceeds the capacity, so evicting old keys forgets nothing
  that still counts.
\<close>

theorem rate_limit_every_window:
  assumes "clock_ok T es" "fold rl_step es ([], rl_new m w) = (acc, rl)"
  shows "in_window t w (accepted_for k acc) \<le> m \<and> length (rl_entries rl) \<le> DEFAULT_MAX_KEYS"
proof -
  have params: "rl_window (snd (fold rl_step xs s)) = rl_window (snd s) \<and>
      max_per_window (snd (fold rl_step xs s)) = max_per_window (snd s) \<and>
      max_keys (snd (fold rl_step xs s)) = max_keys (snd s)" for xs s
  proof (induction xs arbitrary: s)
    case (Cons x xs)
    obtain a b j acc' r where [simp]: "x = (a, b, j)" "s = (acc', r)" by (cases x, cases s)
    show ?case
      using Cons.IH [of "rl_step x s"] check_and_record_params [of a b j r]
      by (simp add: case_prod_beta)
  qed simp
  have "rl_inv T ([], rl_new m w)"
    by (simp add: rl_inv_def rl_new_def accepted_for_def in_window_def hm_get_or_def)
  then obtain T' where "rl_inv T' (acc, rl)" using rl_run_inv [OF _ assms(1)] assms(2) by metis
  moreover have "rl_window rl = w" "max_per_window rl = m" "max_keys rl = DEFAULT_MAX_KEYS"
    using params [of es "([], rl_new m w)"] assms(2) by (simp_all add: rl_new_def)
  ultimately show ?thesis by (auto simp: rl_inv_def)
qed

theorem rate_limit_every_window_witness:
  "in_window 5 10 (accepted_for ''p'' [(1, ''p''), (3, ''p'')]) \<le> 2"
proof -
  have run: "fold rl_step [(1, 1, ''p''), (3, 3, ''p''), (5, 6, ''p'')] ([], rl_new 2 10)
    = ([(1, ''p''), (3, ''p'')], \<lparr>max_per_window = 2, rl_window = 10,
         rl_entries = [(''p'', [1, 3])], max_keys = DEFAULT_MAX_KEYS\<rparr>)"
    by code_simp
  show ?thesis using rate_limit_every_window [OF _ run, of 0 5 "''p''"] by simp
qed

section \<open>Quarantine\<close>

lemma word_avg_between:
  fixes x y :: u64
  assumes "x \<le> y" "y < 2 ^ 63"
  shows "x \<le> (x + y) div 2" "(x + y) div 2 \<le> y"
proof -
  have "unat x \<le> unat y" "unat y < 2 ^ 63"
    using assms by (simp_all add: word_le_nat_alt word_less_nat_alt)
  then show "x \<le> (x + y) div 2" "(x + y) div 2 \<le> y"
    by (simp_all add: word_le_nat_alt unat_div unat_word_ariths)
qed

text \<open>
  The median that the quarantine test compares with lies between the smallest and
  the largest ban count of the nodes, for counts below \<open>2 ^ 63\<close>, where the sum of the
  two middle elements does not wrap.
\<close>

lemma median_between:
  assumes "values \<noteq> []" "\<forall>v \<in> set values. v < 2 ^ 63"
  shows "Min (set values) \<le> median values \<and> median values \<le> Max (set values)"
proof -
  let ?s = "sort values" and ?m = "length values div 2"
  have len: "0 < length values" using assms(1) by simp
  have mem: "?s ! i \<in> set values" if "i < length values" for i
    using nth_mem [of i ?s] that by simp
  have bounds: "Min (set values) \<le> ?s ! i" "?s ! i \<le> Max (set values)" if "i < length values" for i
    using mem [OF that] by simp_all
  show ?thesis
  proof (cases "length values mod 2 = 0")
    case True
    then have m: "0 < ?m" using len by presburger
    have le: "?s ! (?m - 1) \<le> ?s ! ?m" using m len by (intro sorted_nth_mono) auto
    have lt: "?s ! ?m < 2 ^ 63" using mem [of ?m] len assms(2) by simp
    have "?m - 1 < length values" "?m < length values" using len by linarith+
    then have "Min (set values) \<le> (?s ! (?m - 1) + ?s ! ?m) div 2"
      "(?s ! (?m - 1) + ?s ! ?m) div 2 \<le> Max (set values)"
      using word_avg_between [OF le lt] bounds by (blast intro: order_trans)+
    then show ?thesis using True assms(1) by (simp add: median_def Let_def)
  next
    case False
    then show ?thesis using bounds [of ?m] len assms(1) by (simp add: median_def Let_def)
  qed
qed

end
