(* ===== verification/Gossip.thy ===== *)
theory Gossip
  imports Trust Signed_Record Peers Anti_Poison "HOL-Library.Option_ord" "HOL-Library.Multiset"
begin

text \<open>
  The gossip engine, \<open>hiveguard-net/src/gossip.rs\<close>: digests and anti-entropy, propagation,
  and the security filter on received ban records.

  The environment \<open>gossip_env\<close> holds the crates: signatures and hashing (\<open>sign_env\<close>), the
  \<open>bincode\<close> encodings of a record's version fields and of a signed record, and the
  rendering of a network. Clock readings are arguments; those of the rate limiter and of
  the local policy are indexed by the position of the record in the batch.
\<close>

record GossipConfig =
  gc_fanout :: nat
  gc_pow_difficulty :: u8

definition gossip_config_default :: GossipConfig where
  "gossip_config_default = \<lparr>gc_fanout = 3, gc_pow_difficulty = 16\<rparr>"

datatype GossipAction =
    SendBanSync "string list" "SignedBanRecord list"
  | SendDigestExchange string "byte list"
  | SendDiffRequest string "string list"
  | ApplyBans "BanRecord list"

type_synonym votes = "(string, BanRecord) hmap"

record GossipEngine =
  ge_config :: GossipConfig
  ge_local_node_id :: string
  ge_reports :: "(string, votes) hmap"
  ge_accepted :: "(byte list, instant) hmap"

type_synonym version_fields = "ip_net \<times> instant \<times> instant option \<times> u8 \<times> string \<times> byte list"

record gossip_env =
  ge_sign :: sign_env
  ge_encode_version :: "version_fields \<Rightarrow> byte list option"
  ge_encode_signed :: "SignedBanRecord \<Rightarrow> byte list option"
  ge_hex :: "byte list \<Rightarrow> string"
  ge_show_net :: "ip_net \<Rightarrow> string"

abbreviation ge_blake3 :: "gossip_env \<Rightarrow> byte list \<Rightarrow> byte list" where
  "ge_blake3 E \<equiv> si_blake3 (ge_sign E)"

definition gossip_new :: "string \<Rightarrow> GossipConfig \<Rightarrow> GossipEngine" where
  "gossip_new local_node_id config =
     \<lparr>ge_config = config, ge_local_node_id = local_node_id, ge_reports = hm_empty, ge_accepted = hm_empty\<rparr>"

definition version_of :: "BanRecord \<Rightarrow> version_fields" where
  "version_of r = (br_subject r, br_created_at r, br_expires_at r, br_severity r, br_reason r, br_evidence_hash r)"

definition record_key :: "gossip_env \<Rightarrow> BanRecord \<Rightarrow> string" where
  "record_key E r =
     ge_show_net E (br_subject r) @ ''#'' @ ge_hex E (ge_blake3 E (the (ge_encode_version E (version_of r))))"

definition compute_digest :: "gossip_env \<Rightarrow> BanRecord list \<Rightarrow> byte list" where
  "compute_digest E bans = ge_blake3 E (str_bytes (str_join '','' (sort (List.map (record_key E) bans))))"

definition select_gossip_targets ::
    "(PeerInfo list \<Rightarrow> nat \<Rightarrow> PeerInfo list) \<Rightarrow> PeerManager \<Rightarrow> GossipEngine \<Rightarrow> string list" where
  "select_gossip_targets pick_multiple pm g =
     (let alive = get_alive_peers pm
      in if alive = [] then []
         else List.map pi_node_id (pick_multiple alive (min (gc_fanout (ge_config g)) (length alive))))"

definition propagate_bans ::
    "(PeerInfo list \<Rightarrow> nat \<Rightarrow> PeerInfo list) \<Rightarrow> SignedBanRecord list \<Rightarrow> PeerManager \<Rightarrow> GossipEngine \<Rightarrow> GossipAction option" where
  "propagate_bans pick_multiple records pm g =
     (if records = [] then None
      else let targets = select_gossip_targets pick_multiple pm g
           in if targets = [] then None else Some (SendBanSync targets records))"

text \<open>The keys within the inventory limit of 2 MiB, as \<open>take_while\<close> yields them.\<close>

definition INVENTORY_BYTES :: nat where
  "INVENTORY_BYTES = 2 * 1024 * 1024"

fun take_inventory :: "nat \<Rightarrow> string list \<Rightarrow> string list" where
  "take_inventory bytes [] = []"
| "take_inventory bytes (key # keys) =
     (let bytes = bytes + (length key + 8)
      in if bytes \<le> INVENTORY_BYTES then key # take_inventory bytes keys else [])"

definition handle_digest_exchange ::
    "gossip_env \<Rightarrow> byte list \<Rightarrow> BanRecord list \<Rightarrow> string \<Rightarrow> GossipAction option" where
  "handle_digest_exchange E remote_digest local_bans sender =
     (if compute_digest E local_bans = remote_digest then None
      else Some (SendDiffRequest sender (take_inventory 0 (List.map (record_key E) local_bans))))"

definition handle_diff_request :: "gossip_env \<Rightarrow> string list \<Rightarrow> BanRecord list \<Rightarrow> BanRecord list" where
  "handle_diff_request E peer_keys local_bans =
     filter (\<lambda>b. record_key E b \<notin> set peer_keys \<and> ge_show_net E (br_subject b) \<notin> set peer_keys) local_bans"

definition handle_ban_sync :: "SignedBanRecord list \<Rightarrow> GossipAction option" where
  "handle_ban_sync records = (if records = [] then None else Some (ApplyBans (List.map sb_record records)))"

section \<open>The security filter\<close>

fun is_cluster_peer :: "BanSource \<Rightarrow> bool" where
  "is_cluster_peer (ClusterPeer _) = True"
| "is_cluster_peer _ = False"

definition expired_at :: "instant \<Rightarrow> BanRecord \<Rightarrow> bool" where
  "expired_at now r = (case br_expires_at r of Some e \<Rightarrow> e \<le> now | None \<Rightarrow> False)"

definition list_min :: "'a :: linorder list \<Rightarrow> 'a option" where
  "list_min xs = (if xs = [] then None else Some (Min (set xs)))"

text \<open>The decision that all counted reporters support.\<close>

definition merge_votes :: "votes \<Rightarrow> string \<Rightarrow> BanRecord \<Rightarrow> BanRecord" where
  "merge_votes votes signer r =
     r\<lparr>br_created_at := (case list_min (List.map br_created_at (hm_values votes)) of Some t \<Rightarrow> t | None \<Rightarrow> br_created_at r),
       br_expires_at := list_min (List.map_filter br_expires_at (hm_values votes)),
       br_severity := (case list_min (List.map br_severity (hm_values votes)) of Some s \<Rightarrow> s | None \<Rightarrow> br_severity r),
       br_source := ClusterPeer signer\<rparr>"

text \<open>\<open>iter().min_by_key(expiry)\<close>: the first entry with the least expiry.\<close>

fun oldest_entry :: "(byte list, instant) hmap \<Rightarrow> (byte list \<times> instant) option" where
  "oldest_entry [] = None"
| "oldest_entry ((k, t) # m) =
     (case oldest_entry m of Some (k', t') \<Rightarrow> if t' < t then Some (k', t') else Some (k, t) | None \<Rightarrow> Some (k, t))"

definition remember_decision :: "byte list \<Rightarrow> instant \<Rightarrow> (byte list, instant) hmap \<Rightarrow> (byte list, instant) hmap" where
  "remember_decision key now acc =
     (let acc = (if length acc \<ge> 8192
        then (case oldest_entry acc of Some (oldest, _) \<Rightarrow> hm_remove oldest acc | None \<Rightarrow> acc) else acc)
      in hm_insert key (now + int (secs 5)) acc)"

record sync_state =
  ss_reports :: "(string, votes) hmap"
  ss_report_count :: nat
  ss_seen :: "(byte list, instant) hmap"
  ss_batch_seen :: "byte list set"
  ss_limiter :: RateLimiter
  ss_accepted :: "BanRecord list"

record sync_call =
  sy_sender :: string
  sy_trust :: TrustManager
  sy_keys :: "(string, byte list) hmap"
  sy_eligible :: "nat \<Rightarrow> BanRecord \<Rightarrow> bool"
  sy_now :: instant
  sy_limiter_clock :: "nat \<Rightarrow> instant \<times> instant"

text \<open>A decision that reaches the quorum: local policy, rate limit, and then it is accepted.\<close>

definition accept_decision :: "sync_call \<Rightarrow> nat \<Rightarrow> byte list \<Rightarrow> BanRecord \<Rightarrow> sync_state \<Rightarrow> sync_state" where
  "accept_decision c i key r ss =
     (if \<not> sy_eligible c i r then ss
      else case check_and_record (fst (sy_limiter_clock c i)) (snd (sy_limiter_clock c i)) (sy_sender c) (ss_limiter ss) of
        (False, limiter) \<Rightarrow> ss\<lparr>ss_limiter := limiter\<rparr>
      | (True, limiter) \<Rightarrow>
          ss\<lparr>ss_limiter := limiter, ss_seen := remember_decision key (sy_now c) (ss_seen ss),
             ss_accepted := ss_accepted ss @ [r]\<rparr>)"

text \<open>The vote replaces the signer's earlier one, and the quorum is tested.\<close>

definition cast_vote ::
    "sync_call \<Rightarrow> nat \<Rightarrow> byte list \<Rightarrow> SignedBanRecord \<Rightarrow> string \<Rightarrow> votes \<Rightarrow> sync_state \<Rightarrow> sync_state" where
  "cast_vote c i key s subject votes ss =
     (let votes = hm_insert (sb_signer_id s) (sb_record s) votes;
          ss = ss\<lparr>ss_reports := hm_insert subject votes (ss_reports ss)\<rparr>
      in if \<not> should_enforce (sy_trust c) (hm_keys votes) then ss
         else accept_decision c i key (merge_votes votes (sb_signer_id s) (sb_record s)) ss)"

text \<open>A verified observation becomes a vote of its signer for the subject.\<close>

definition count_vote :: "gossip_env \<Rightarrow> sync_call \<Rightarrow> nat \<Rightarrow> byte list \<Rightarrow> SignedBanRecord \<Rightarrow> sync_state \<Rightarrow> sync_state" where
  "count_vote E c i key s ss =
     (let r = sb_record s; signer = sb_signer_id s; subject = ge_show_net E (br_subject r)
      in if \<not> hm_contains (ss_reports ss) subject \<and> length (ss_reports ss) \<ge> 8192 then ss
         else
           let reports = or_insert subject hm_empty (ss_reports ss);
               votes = hm_get_or hm_empty reports subject;
               fresh = (\<not> hm_contains votes signer)
           in if fresh \<and> (ss_report_count ss \<ge> 8192 \<or> length votes \<ge> 64) then ss\<lparr>ss_reports := reports\<rparr>
              else
                let ss = ss\<lparr>ss_reports := reports, ss_report_count := ss_report_count ss + (if fresh then 1 else 0)\<rparr>
                in if (case hm_get votes signer of
                         Some old \<Rightarrow> (br_created_at old, br_expires_at old) > (br_created_at r, br_expires_at r)
                       | None \<Rightarrow> False) then ss
                   else cast_vote c i key s subject votes ss)"

definition sync_record :: "gossip_env \<Rightarrow> sync_call \<Rightarrow> nat \<Rightarrow> SignedBanRecord \<Rightarrow> sync_state \<Rightarrow> sync_state" where
  "sync_record E c i s ss =
     (if is_cluster_peer (br_source (sb_record s)) \<or> expired_at (sy_now c) (sb_record s) then ss
      else case ge_encode_signed E s of
        None \<Rightarrow> ss
      | Some encoded \<Rightarrow>
          if length encoded > 16 * 1024 then ss
          else
            let key = ge_blake3 E encoded
            in if hm_contains (ss_seen ss) key \<or> key \<in> ss_batch_seen ss then ss
               else
                 let ss = ss\<lparr>ss_batch_seen := insert key (ss_batch_seen ss)\<rparr>
                 in case hm_get (sy_keys c) (sb_signer_id s) of
                      None \<Rightarrow> ss
                    | Some pub_key \<Rightarrow>
                        (case verify_record (ge_sign E) pub_key s of
                           Inl _ \<Rightarrow> ss
                         | Inr _ \<Rightarrow> count_vote E c i key s ss))"

fun sync_loop :: "gossip_env \<Rightarrow> sync_call \<Rightarrow> nat \<Rightarrow> SignedBanRecord list \<Rightarrow> sync_state \<Rightarrow> sync_state" where
  "sync_loop E c i [] ss = ss"
| "sync_loop E c i (s # records) ss = sync_loop E c (Suc i) records (sync_record E c i s ss)"

definition prune_reports :: "instant \<Rightarrow> (string, votes) hmap \<Rightarrow> (string, votes) hmap" where
  "prune_reports now reports =
     hm_retain (\<lambda>_ votes. votes \<noteq> [])
       (List.map (\<lambda>(k, votes). (k, hm_retain (\<lambda>_ r. case br_expires_at r of None \<Rightarrow> True | Some e \<Rightarrow> e > now) votes)) reports)"

definition quarantined :: "string \<Rightarrow> nat \<Rightarrow> (string, u64) hmap \<Rightarrow> bool" where
  "quarantined sender n ban_counts =
     (let counts = List.map snd (filter (\<lambda>(k, _). k \<noteq> sender) ban_counts);
          sender_count = hm_get_or 0 ban_counts sender
      in counts \<noteq> [] \<and> check_quarantine (sender_count + of_nat n) (median counts))"

text \<open>The state before the loop: votes and decisions that have expired are gone.\<close>

definition sync_start :: "instant \<Rightarrow> RateLimiter \<Rightarrow> GossipEngine \<Rightarrow> sync_state" where
  "sync_start now limiter g =
     (let reports = prune_reports now (ge_reports g)
      in \<lparr>ss_reports = reports, ss_report_count = sum_list (List.map length (hm_values reports)),
          ss_seen = hm_retain (\<lambda>_ expiry. expiry > now) (ge_accepted g), ss_batch_seen = {},
          ss_limiter = limiter, ss_accepted = []\<rparr>)"

definition handle_ban_sync_filtered_with_policy ::
    "gossip_env \<Rightarrow> sync_call \<Rightarrow> SignedBanRecord list \<Rightarrow> (string, u64) hmap \<Rightarrow> RateLimiter \<Rightarrow> GossipEngine
     \<Rightarrow> GossipAction option \<times> RateLimiter \<times> GossipEngine" where
  "handle_ban_sync_filtered_with_policy E c records ban_counts limiter g =
     (if records = [] then (None, limiter, g)
      else if quarantined (sy_sender c) (length records) ban_counts then (None, limiter, g)
      else
        let ss = sync_loop E c 0 records (sync_start (sy_now c) limiter g);
            g = g\<lparr>ge_reports := ss_reports ss, ge_accepted := ss_seen ss\<rparr>
        in (if ss_accepted ss = [] then None else Some (ApplyBans (ss_accepted ss)), ss_limiter ss, g))"

definition handle_ban_sync_filtered ::
    "gossip_env \<Rightarrow> sync_call \<Rightarrow> SignedBanRecord list \<Rightarrow> (string, u64) hmap \<Rightarrow> RateLimiter \<Rightarrow> GossipEngine
     \<Rightarrow> GossipAction option \<times> RateLimiter \<times> GossipEngine" where
  "handle_ban_sync_filtered E c = handle_ban_sync_filtered_with_policy E (c\<lparr>sy_eligible := \<lambda>_ _. True\<rparr>)"

section \<open>What stands behind a decision\<close>

text \<open>
  \<open>B subject signer r\<close> stands for: \<open>r\<close> was received with a valid signature of \<open>signer\<close>.
  The table of votes holds such records only, one per signer and at most 64 per subject.
\<close>

definition votes_ok :: "(string \<Rightarrow> BanRecord \<Rightarrow> bool) \<Rightarrow> votes \<Rightarrow> bool" where
  "votes_ok B votes \<longleftrightarrow> hm_wf votes \<and> length votes \<le> 64 \<and> (\<forall>n r. hm_get votes n = Some r \<longrightarrow> B n r)"

definition reports_ok :: "(string \<Rightarrow> string \<Rightarrow> BanRecord \<Rightarrow> bool) \<Rightarrow> (string, votes) hmap \<Rightarrow> bool" where
  "reports_ok B reports \<longleftrightarrow>
     hm_wf reports \<and> (\<forall>subject votes. hm_get reports subject = Some votes \<longrightarrow> votes_ok (B subject) votes)"

text \<open>The record \<open>d\<close> claims no more than the vote \<open>r\<close> does.\<close>

definition supports :: "BanRecord \<Rightarrow> BanRecord \<Rightarrow> bool" where
  "supports r d \<longleftrightarrow> br_created_at d \<le> br_created_at r \<and> br_severity d \<le> br_severity r
     \<and> (\<forall>e. br_expires_at r = Some e \<longrightarrow> (\<exists>e'. br_expires_at d = Some e' \<and> e' \<le> e))"

definition decision_ok ::
    "gossip_env \<Rightarrow> (string \<Rightarrow> string \<Rightarrow> BanRecord \<Rightarrow> bool) \<Rightarrow> sync_call \<Rightarrow> BanRecord \<Rightarrow> bool" where
  "decision_ok E B c d \<longleftrightarrow> (\<exists>i. sy_eligible c i d) \<and>
     (\<exists>votes. votes_ok (B (ge_show_net E (br_subject d))) votes \<and> should_enforce (sy_trust c) (hm_keys votes)
        \<and> (\<forall>n r. hm_get votes n = Some r \<longrightarrow> supports r d))"

definition sync_inv ::
    "gossip_env \<Rightarrow> (string \<Rightarrow> string \<Rightarrow> BanRecord \<Rightarrow> bool) \<Rightarrow> sync_call \<Rightarrow> sync_state \<Rightarrow> bool" where
  "sync_inv E B c ss \<longleftrightarrow> reports_ok B (ss_reports ss) \<and> (\<forall>d \<in> set (ss_accepted ss). decision_ok E B c d)"

lemma list_min_le: "x \<in> set xs \<Longrightarrow> \<exists>y. list_min xs = Some y \<and> y \<le> x"
  by (auto simp: list_min_def)

lemma merge_votes_supports:
  assumes "hm_wf votes" "hm_get votes n = Some r'"
  shows "supports r' (merge_votes votes signer r)"
proof -
  have r': "r' \<in> set (hm_values votes)" using assms hm_set_values by fastforce
  obtain t where t: "list_min (List.map br_created_at (hm_values votes)) = Some t" "t \<le> br_created_at r'"
    using list_min_le [of "br_created_at r'" "List.map br_created_at (hm_values votes)"] r' by auto
  obtain v where v: "list_min (List.map br_severity (hm_values votes)) = Some v" "v \<le> br_severity r'"
    using list_min_le [of "br_severity r'" "List.map br_severity (hm_values votes)"] r' by auto
  have "\<exists>e'. list_min (List.map_filter br_expires_at (hm_values votes)) = Some e' \<and> e' \<le> e"
    if "br_expires_at r' = Some e" for e
    using list_min_le [of e "List.map_filter br_expires_at (hm_values votes)"] r' that
    by (force simp: List.map_filter_def)
  then show ?thesis using t v by (simp add: supports_def merge_votes_def)
qed

lemma merge_votes_subject [simp]: "br_subject (merge_votes votes signer r) = br_subject r"
  by (simp add: merge_votes_def)

lemma votes_ok_insert:
  assumes "votes_ok B votes" "B n r" "hm_contains votes n \<or> length votes < 64"
  shows "votes_ok B (hm_insert n r votes)"
  using assms by (auto simp: votes_ok_def hm_length_insert)

lemma votes_ok_empty [simp]: "votes_ok B []"
  by (simp add: votes_ok_def)

lemma reports_ok_insert: "reports_ok B m \<Longrightarrow> votes_ok (B k) votes \<Longrightarrow> reports_ok B (hm_insert k votes m)"
  by (simp add: reports_ok_def)

lemma reports_ok_or_insert: "reports_ok B m \<Longrightarrow> reports_ok B (or_insert k [] m)"
  by (simp add: or_insert_def reports_ok_insert)

lemma reports_ok_get: "reports_ok B m \<Longrightarrow> votes_ok (B k) (hm_get_or [] m k)"
  by (auto simp: reports_ok_def hm_get_or_def split: option.splits)

lemma reports_ok_prune:
  assumes "reports_ok B m"
  shows "reports_ok B (prune_reports now m)"
proof -
  have "votes_ok C votes \<Longrightarrow> votes_ok C (hm_retain P votes)" for C P votes
    by (auto simp: votes_ok_def hm_get_retain split: option.splits if_splits)
       (simp add: hm_retain_def order_trans [OF length_filter_le])
  then show ?thesis using assms
    by (auto simp: reports_ok_def prune_reports_def hm_get_retain split: option.splits if_splits)
qed

lemma accept_decision_inv:
  assumes "sync_inv E B c ss" "votes_ok (B (ge_show_net E (br_subject d))) votes"
    "should_enforce (sy_trust c) (hm_keys votes)" "\<And>n r. hm_get votes n = Some r \<Longrightarrow> supports r d"
  shows "sync_inv E B c (accept_decision c i key d ss)"
proof -
  have "decision_ok E B c d" if "sy_eligible c i d" using assms that by (auto simp: decision_ok_def)
  then show ?thesis using assms(1) by (auto simp: sync_inv_def accept_decision_def split: prod.splits bool.splits)
qed

lemma cast_vote_inv:
  assumes inv: "sync_inv E B c ss" and v: "votes_ok (B k) v"
    and k: "k = ge_show_net E (br_subject (sb_record s))"
    and B: "B k (sb_signer_id s) (sb_record s)" "hm_contains v (sb_signer_id s) \<or> length v < 64"
  shows "sync_inv E B c (cast_vote c i key s k v ss)"
proof -
  let ?w = "hm_insert (sb_signer_id s) (sb_record s) v"
  have w: "votes_ok (B k) ?w" by (rule votes_ok_insert [OF v B])
  then have wf: "hm_wf ?w" by (simp add: votes_ok_def)
  have inv': "sync_inv E B c (ss\<lparr>ss_reports := hm_insert k ?w (ss_reports ss)\<rparr>)"
    using inv reports_ok_insert [where B = B and k = k, OF _ w] by (simp add: sync_inv_def)
  show ?thesis
  proof (cases "should_enforce (sy_trust c) (hm_keys ?w)")
    case True
    have "sync_inv E B c (accept_decision c i key (merge_votes ?w (sb_signer_id s) (sb_record s))
        (ss\<lparr>ss_reports := hm_insert k ?w (ss_reports ss)\<rparr>))"
      by (rule accept_decision_inv [OF inv' _ True]) (use w k merge_votes_supports [OF wf] in auto)
    then show ?thesis using True by (simp add: cast_vote_def Let_def)
  qed (use inv' in \<open>simp add: cast_vote_def Let_def\<close>)
qed

lemma count_vote_inv:
  assumes inv: "sync_inv E B c ss"
    and B: "B (ge_show_net E (br_subject (sb_record s))) (sb_signer_id s) (sb_record s)"
  shows "sync_inv E B c (count_vote E c i key s ss)"
proof -
  define k where "k = ge_show_net E (br_subject (sb_record s))"
  define m where "m = or_insert k [] (ss_reports ss)"
  define v where "v = hm_get_or [] m k"
  have m: "reports_ok B m" using inv by (simp add: sync_inv_def reports_ok_or_insert m_def)
  have inv': "sync_inv E B c (ss\<lparr>ss_reports := m\<rparr>)" "sync_inv E B c (ss\<lparr>ss_reports := m, ss_report_count := q\<rparr>)"
    for q using inv m by (simp_all add: sync_inv_def)
  have v: "votes_ok (B k) v" using reports_ok_get [OF m] by (simp add: v_def)
  have "sync_inv E B c (cast_vote c i key s k v ss')"
    if "sync_inv E B c ss'" "hm_contains v (sb_signer_id s) \<or> length v < 64" for ss'
    using cast_vote_inv [OF that(1) v k_def _ that(2)] B by (simp add: k_def)
  then show ?thesis
    unfolding count_vote_def Let_def k_def [symmetric] m_def [symmetric] v_def [symmetric]
    using inv inv' by (simp split: option.split)
qed

lemma sync_record_inv:
  assumes inv: "sync_inv E B c ss"
    and B: "\<And>pk. \<not> is_cluster_peer (br_source (sb_record s)) \<Longrightarrow> hm_get (sy_keys c) (sb_signer_id s) = Some pk \<Longrightarrow>
      verify_record (ge_sign E) pk s = Inr () \<Longrightarrow>
      B (ge_show_net E (br_subject (sb_record s))) (sb_signer_id s) (sb_record s)"
  shows "sync_inv E B c (sync_record E c i s ss)"
proof -
  have inv': "sync_inv E B c (ss\<lparr>ss_batch_seen := q\<rparr>)" for q using inv by (simp add: sync_inv_def)
  have "sync_inv E B c (count_vote E c i key s (ss\<lparr>ss_batch_seen := q\<rparr>))"
    if "\<not> is_cluster_peer (br_source (sb_record s))" "hm_get (sy_keys c) (sb_signer_id s) = Some pk"
      "verify_record (ge_sign E) pk s = Inr u" for key pk u q
    by (rule count_vote_inv [OF inv']) (use B that in simp)
  then show ?thesis using inv inv' by (simp add: sync_record_def Let_def split: option.split sum.split)
qed

text \<open>The history of an engine: the calls it has processed, each with its records.\<close>

record gossip_call =
  gl_call :: sync_call
  gl_records :: "SignedBanRecord list"
  gl_ban_counts :: "(string, u64) hmap"
  gl_limiter :: RateLimiter

definition gossip_handle :: "gossip_env \<Rightarrow> gossip_call \<Rightarrow> GossipEngine \<Rightarrow> GossipAction option \<times> RateLimiter \<times> GossipEngine" where
  "gossip_handle E q g =
     handle_ban_sync_filtered_with_policy E (gl_call q) (gl_records q) (gl_ban_counts q) (gl_limiter q) g"

definition gossip_run :: "gossip_env \<Rightarrow> gossip_call list \<Rightarrow> GossipEngine \<Rightarrow> GossipEngine" where
  "gossip_run E qs g = foldl (\<lambda>g q. snd (snd (gossip_handle E q g))) g qs"

text \<open>A call of the history brought the record, first hand and with a signature that verifies.\<close>

definition signed_by :: "gossip_env \<Rightarrow> gossip_call list \<Rightarrow> string \<Rightarrow> string \<Rightarrow> BanRecord \<Rightarrow> bool" where
  "signed_by E qs subject n r \<longleftrightarrow> ge_show_net E (br_subject r) = subject \<and> \<not> is_cluster_peer (br_source r) \<and>
     (\<exists>q \<in> set qs. \<exists>s \<in> set (gl_records q). \<exists>pk. sb_signer_id s = n \<and> sb_record s = r
        \<and> hm_get (sy_keys (gl_call q)) n = Some pk \<and> verify_record (ge_sign E) pk s = Inr ())"

lemma sync_loop_inv:
  assumes "sync_inv E (signed_by E qs) c ss" "q \<in> set qs" "gl_call q = c" "set records \<subseteq> set (gl_records q)"
  shows "sync_inv E (signed_by E qs) c (sync_loop E c i records ss)"
  using assms
proof (induction records arbitrary: i ss)
  case (Cons s records)
  have "sync_inv E (signed_by E qs) c (sync_record E c i s ss)"
    by (rule sync_record_inv [OF Cons.prems(1)]) (use Cons.prems in \<open>auto simp: signed_by_def\<close>)
  then show ?case using Cons by simp
qed simp

lemma reports_ok_mono: "reports_ok B m \<Longrightarrow> (\<And>k n r. B k n r \<Longrightarrow> B' k n r) \<Longrightarrow> reports_ok B' m"
  by (auto simp: reports_ok_def votes_ok_def)

lemma signed_by_mono: "signed_by E qs k n r \<Longrightarrow> signed_by E (qs @ [q]) k n r"
  by (auto simp: signed_by_def)

lemma gossip_handle_sound:
  assumes "reports_ok (signed_by E qs) (ge_reports g)"
  shows "reports_ok (signed_by E (qs @ [q])) (ge_reports (snd (snd (gossip_handle E q g)))) \<and>
    (\<forall>ds. fst (gossip_handle E q g) = Some (ApplyBans ds) \<longrightarrow>
       (\<forall>d \<in> set ds. decision_ok E (signed_by E (qs @ [q])) (gl_call q) d))"
proof -
  let ?c = "gl_call q"
  have ok: "reports_ok (signed_by E (qs @ [q])) (ge_reports g)"
    by (rule reports_ok_mono [OF assms signed_by_mono])
  have "sync_inv E (signed_by E (qs @ [q])) ?c (sync_loop E ?c 0 (gl_records q) (sync_start (sy_now ?c) l g))" for l
    by (rule sync_loop_inv [where q = q]) (use reports_ok_prune [OF ok] in \<open>auto simp: sync_inv_def sync_start_def Let_def\<close>)
  then show ?thesis using ok
    by (auto simp: gossip_handle_def handle_ban_sync_filtered_with_policy_def Let_def sync_inv_def split: if_splits)
qed

lemma gossip_run_ok: "reports_ok (signed_by E qs) (ge_reports (gossip_run E qs (gossip_new node cfg)))"
proof (induction qs rule: rev_induct)
  case Nil
  then show ?case by (simp add: gossip_run_def gossip_new_def reports_ok_def)
next
  case (snoc q qs)
  then show ?case using gossip_handle_sound [OF snoc, of q] by (simp add: gossip_run_def)
qed

text \<open>A decision is on a subject of the packet, and there is at most one for each of its records.\<close>

definition one_decision :: "BanRecord \<Rightarrow> sync_state \<Rightarrow> sync_state \<Rightarrow> bool" where
  "one_decision r ss ss' \<longleftrightarrow> ss_accepted ss' = ss_accepted ss \<or>
     (\<exists>d. br_subject d = br_subject r \<and> ss_accepted ss' = ss_accepted ss @ [d])"

lemma one_decision_same: "ss_accepted ss' = ss_accepted ss \<Longrightarrow> one_decision r ss ss'"
  by (simp add: one_decision_def)

lemma one_decision_accept:
  "ss_accepted ss1 = ss_accepted ss \<Longrightarrow> br_subject d = br_subject r \<Longrightarrow> one_decision r ss (accept_decision c i key d ss1)"
  by (auto simp: accept_decision_def one_decision_def split: prod.split bool.split)

lemma one_decision_cast:
  "ss_accepted ss1 = ss_accepted ss \<Longrightarrow> one_decision (sb_record s) ss (cast_vote c i key s k v ss1)"
  by (simp add: cast_vote_def Let_def one_decision_same one_decision_accept)

lemma one_decision_count:
  "ss_accepted ss1 = ss_accepted ss \<Longrightarrow> one_decision (sb_record s) ss (count_vote E c i key s ss1)"
  by (simp add: count_vote_def Let_def one_decision_same one_decision_cast split: option.split)

lemma one_decision_record: "one_decision (sb_record s) ss (sync_record E c i s ss)"
  by (simp add: sync_record_def Let_def one_decision_same one_decision_count split: option.split sum.split)

lemma sync_loop_accepted:
  "length (ss_accepted (sync_loop E c i records ss)) \<le> length (ss_accepted ss) + length records \<and>
   (\<forall>d \<in> set (ss_accepted (sync_loop E c i records ss)) - set (ss_accepted ss).
      \<exists>s \<in> set records. br_subject d = br_subject (sb_record s))"
proof (induction records arbitrary: i ss)
  case (Cons s records)
  let ?ss = "sync_record E c i s ss"
  have IH: "length (ss_accepted (sync_loop E c (Suc i) records ?ss)) \<le> length (ss_accepted ?ss) + length records"
    "\<forall>d \<in> set (ss_accepted (sync_loop E c (Suc i) records ?ss)) - set (ss_accepted ?ss).
      \<exists>s \<in> set records. br_subject d = br_subject (sb_record s)"
    using Cons.IH [of "Suc i" ?ss] by simp_all
  consider "ss_accepted ?ss = ss_accepted ss"
    | d where "br_subject d = br_subject (sb_record s)" "ss_accepted ?ss = ss_accepted ss @ [d]"
    using one_decision_record [of s ss E c i] by (auto simp: one_decision_def)
  then show ?case by cases (use IH in auto)
qed simp

lemma gossip_handle_subjects:
  assumes "fst (gossip_handle E q g) = Some (ApplyBans ds)"
  shows "length ds \<le> length (gl_records q) \<and>
    (\<forall>d \<in> set ds. \<exists>s \<in> set (gl_records q). br_subject d = br_subject (sb_record s))"
proof -
  let ?ss = "sync_start (sy_now (gl_call q)) (gl_limiter q) g"
  have "ds = ss_accepted (sync_loop E (gl_call q) 0 (gl_records q) ?ss)"
    using assms by (simp add: gossip_handle_def handle_ban_sync_filtered_with_policy_def Let_def split: if_splits)
  moreover have "ss_accepted ?ss = []" by (simp add: sync_start_def Let_def)
  ultimately show ?thesis using sync_loop_accepted [of E "gl_call q" 0 "gl_records q" ?ss] by simp
qed

lemma gossip_decision_quorum:
  assumes "sy_trust (gl_call q) = fold trust_step ops (tm_new t)"
    and "fst (gossip_handle E q (gossip_run E qs (gossip_new node cfg))) = Some (ApplyBans ds)"
    and "d \<in> set ds"
  shows "(\<exists>i. sy_eligible (gl_call q) i d) \<and>
    (\<exists>V. finite V \<and> t \<le> real (card V) \<and>
       (\<forall>n \<in> V. hm_contains (trust_scores (sy_trust (gl_call q))) n \<and>
          (\<exists>r. signed_by E (qs @ [q]) (ge_show_net E (br_subject d)) n r \<and> supports r d)))"
proof -
  let ?tm = "sy_trust (gl_call q)"
  have d: "decision_ok E (signed_by E (qs @ [q])) (gl_call q) d"
    using gossip_handle_sound [OF gossip_run_ok, of E qs q] assms(2,3) by blast
  then obtain votes where v: "votes_ok (signed_by E (qs @ [q]) (ge_show_net E (br_subject d))) votes"
      "should_enforce ?tm (hm_keys votes)" "\<And>n r. hm_get votes n = Some r \<Longrightarrow> supports r d"
    by (auto simp: decision_ok_def)
  let ?V = "{n \<in> set (hm_keys votes). hm_contains (trust_scores ?tm) n}"
  have "length (hm_keys votes) < 2 ^ 53" "distinct (hm_keys votes)"
    using v(1) by (simp_all add: votes_ok_def hm_keys_def hm_wf_def)
  then have "t \<le> real (card ?V)"
    using should_enforce_quorum [OF _ v(2)] trust_run_inv [of t ops] assms(1) by simp
  moreover have "finite ?V" by (simp add: hm_keys_def)
  moreover have "\<exists>r. signed_by E (qs @ [q]) (ge_show_net E (br_subject d)) n r \<and> supports r d" if "n \<in> ?V" for n
    using that v(1,3) by (auto simp: votes_ok_def) blast
  ultimately have "\<exists>V. finite V \<and> t \<le> real (card V) \<and> (\<forall>n \<in> V. hm_contains (trust_scores ?tm) n \<and>
      (\<exists>r. signed_by E (qs @ [q]) (ge_show_net E (br_subject d)) n r \<and> supports r d))"
    by (intro exI [of _ ?V]) blast
  then show ?thesis using d by (auto simp: decision_ok_def)
qed

text \<open>
  C12: A quorum stands behind every ban that the gossip engine hands to the daemon. Take
  any history of packets since the engine was created, and any trust table built by the
  operations of the trust manager with threshold \<open>t\<close>. If the next packet makes the
  engine apply a ban, there are at least \<open>t\<close> distinct registered nodes, each of which
  signed an observation of that same subject: it came first hand (not relayed as a
  cluster decision), in some packet of the history or in this one, its signature
  verified under the key then known for the signer, and the ban is no longer and no more
  severe than that observation says. The local policy also admitted the ban.
\<close>

theorem gossip_quorum:
  assumes "sy_trust (gl_call q) = fold trust_step ops (tm_new t)"
    and "fst (gossip_handle E q (gossip_run E qs (gossip_new node cfg))) = Some (ApplyBans ds)"
    and "d \<in> set ds"
  shows "(\<exists>i. sy_eligible (gl_call q) i d) \<and>
    (\<exists>V. finite V \<and> t \<le> real (card V) \<and>
       (\<forall>n \<in> V. hm_contains (trust_scores (sy_trust (gl_call q))) n \<and>
          (\<exists>r. signed_by E (qs @ [q]) (ge_show_net E (br_subject d)) n r \<and> supports r d)))"
  using assms by (rule gossip_decision_quorum)

definition ex_trust :: TrustManager where
  "ex_trust = fold trust_step [TFounder 0 ''a'', TFounder 0 ''b''] (tm_new 2)"

definition ex_signed :: "string \<Rightarrow> SignedBanRecord" where
  "ex_signed n = \<lparr>sb_record = ex_remote_ban 1, sb_signer_id = n, sb_signature = [0],
     sb_pow = the (mine (si_blake3 ex_sign_env) [0] 16 (- 1))\<rparr>"

definition ex_gossip_env :: gossip_env where
  "ex_gossip_env = \<lparr>ge_sign = ex_sign_env, ge_encode_version = (\<lambda>_. Some []),
     ge_encode_signed = (\<lambda>s. Some (str_bytes (sb_signer_id s))), ge_hex = (\<lambda>_. []), ge_show_net = (\<lambda>_. ''1.1.1.1'')\<rparr>"

definition ex_gossip_call :: "string \<Rightarrow> gossip_call" where
  "ex_gossip_call n = \<lparr>gl_call = \<lparr>sy_sender = n, sy_trust = ex_trust, sy_keys = [(''a'', []), (''b'', [])],
     sy_eligible = (\<lambda>_ _. True), sy_now = 1, sy_limiter_clock = (\<lambda>_. (1, 1))\<rparr>,
     gl_records = [ex_signed n], gl_ban_counts = [], gl_limiter = rl_new 10 10\<rparr>"

lemma ex_enforce:
  "\<not> should_enforce ex_trust [''a'']" "should_enforce ex_trust [''a'', ''b'']"
proof -
  have "hm_get (trust_scores ex_trust) n = (if n \<in> {''a'', ''b''} then Some (ts_founder 0) else None)"
    "ban_threshold ex_trust = 2" for n
    by (simp_all add: ex_trust_def tm_new_def register_founder_node_def or_insert_def)
  then show "\<not> should_enforce ex_trust [''a'']" "should_enforce ex_trust [''a'', ''b'']"
    using f64_nat [of 1] f64_nat [of 2]
    by (simp_all add: should_enforce_def List.map_filter_def ts_founder_def f64_sum_def)
qed

lemma ex_verify: "verify_record ex_sign_env [] (ex_signed n) = Inr ()"
proof -
  have "isl (verify_record ex_sign_env [] (ex_signed ''a'')) = False" by code_simp
  then show ?thesis by (auto simp: verify_record_def ex_signed_def split: option.splits sum.splits if_splits)
qed

lemma ex_signed_sel [simp]:
  "sb_record (ex_signed n) = ex_remote_ban 1" "sb_signer_id (ex_signed n) = n"
  "br_source (ex_remote_ban 1) = LocalDetector []" "br_expires_at (ex_remote_ban 1) = Some 9"
  "br_created_at (ex_remote_ban 1) = 0" "br_severity (ex_remote_ban 1) = 150"
  by (simp_all add: ex_signed_def ex_remote_ban_def)

lemmas ex_gossip_simps = gossip_handle_def sync_start_def ex_gossip_call_def handle_ban_sync_filtered_with_policy_def
  quarantined_def sync_record_def count_vote_def cast_vote_def accept_decision_def Let_def ex_verify ex_enforce
  ex_gossip_env_def expired_at_def or_insert_def hm_get_or_def hm_values_def hm_keys_def hm_retain_def
  check_and_record_def rl_new_def prune_reports_def DEFAULT_MAX_KEYS_def str_bytes_def gossip_new_def

lemma ex_first_vote:
  "gossip_run ex_gossip_env [ex_gossip_call ''a''] (gossip_new ''n'' gossip_config_default) =
     (gossip_new ''n'' gossip_config_default)\<lparr>ge_reports := [(''1.1.1.1'', [(''a'', ex_remote_ban 1)])]\<rparr>"
  by (simp add: ex_gossip_simps gossip_run_def)

lemma ex_second_vote:
  "fst (gossip_handle ex_gossip_env (ex_gossip_call ''b'')
      (gossip_run ex_gossip_env [ex_gossip_call ''a''] (gossip_new ''n'' gossip_config_default))) =
     Some (ApplyBans [(ex_remote_ban 1)\<lparr>br_source := ClusterPeer ''b''\<rparr>])"
  unfolding ex_first_vote
  by (simp add: ex_gossip_simps merge_votes_def list_min_def List.map_filter_def)

theorem gossip_quorum_witness:
  "\<exists>V. finite V \<and> 2 \<le> real (card V) \<and>
     (\<forall>n \<in> V. hm_contains (trust_scores ex_trust) n \<and>
        (\<exists>r. signed_by ex_gossip_env [ex_gossip_call ''a'', ex_gossip_call ''b''] ''1.1.1.1'' n r
           \<and> supports r ((ex_remote_ban 1)\<lparr>br_source := ClusterPeer ''b''\<rparr>)))"
  using gossip_quorum [OF _ ex_second_vote, of "[TFounder 0 ''a'', TFounder 0 ''b'']" 2]
  by (simp add: ex_gossip_call_def ex_trust_def ex_gossip_env_def)

section \<open>Anti-entropy\<close>

lemma take_inventory_all:
  "b + sum_list (List.map (\<lambda>k. length k + 8) keys) \<le> INVENTORY_BYTES \<Longrightarrow> take_inventory b keys = keys"
  by (induction b keys rule: take_inventory.induct) (auto simp: Let_def)

lemma take_inventory_subset: "set (take_inventory b keys) \<subseteq> set keys"
  by (induction b keys rule: take_inventory.induct) (auto simp: Let_def)

lemma joined_keys_eq:
  assumes "str_join '','' (sort xs) = str_join '','' (sort ys)"
    and "\<forall>s \<in> set xs \<union> set ys. CHR '','' \<notin> set s \<and> s \<noteq> []"
  shows "mset xs = mset ys"
proof -
  have ne: "str_join '','' us \<noteq> []" if "us \<noteq> []" "[] \<notin> set us" for us :: "string list"
    using that by (cases "('','', us)" rule: str_join.cases) auto
  show ?thesis
  proof (cases "sort xs = [] \<or> sort ys = []")
    case True
    then have "sort xs = sort ys"
      using ne [of "sort xs"] ne [of "sort ys"] assms by (metis UnI1 UnI2 set_sort str_join.simps(1))
    then show ?thesis by (metis mset_sort)
  next
    case False
    then have "sort xs = sort ys" using str_join_inj [OF assms(1)] assms(2) by simp
    then show ?thesis by (metis mset_sort)
  qed
qed

text \<open>
  C13: The anti-entropy exchange finds every difference. Let node \<open>B\<close> receive the digest
  of node \<open>A\<close>. \<open>B\<close> is content exactly when both hold the same versions of the same bans,
  with the same multiplicity. Otherwise it sends \<open>A\<close> its inventory, and \<open>A\<close>'s answer
  contains every record of which \<open>B\<close> lacks the version; it contains nothing else when
  the inventory fits the 2 MiB limit. Needed: no hash collision between the two joined
  key lists, and that neither the rendering of a network nor a hash in hexadecimal
  contains a separator.
\<close>

theorem anti_entropy_exact:
  assumes "\<forall>n. CHR '','' \<notin> set (ge_show_net E n) \<and> CHR ''#'' \<notin> set (ge_show_net E n)"
    and "\<forall>h. CHR '','' \<notin> set (ge_hex E h)"
    and "inj_on (ge_blake3 E) ((\<lambda>bans. str_bytes (str_join '','' (sort (List.map (record_key E) bans)))) ` {A, B})"
  shows "(handle_digest_exchange E (compute_digest E A) B peer = None \<longleftrightarrow>
      mset (List.map (record_key E) A) = mset (List.map (record_key E) B)) \<and>
    (\<forall>act. handle_digest_exchange E (compute_digest E A) B peer = Some act \<longrightarrow>
       (\<exists>keys. act = SendDiffRequest peer keys \<and>
          {r \<in> set A. record_key E r \<notin> record_key E ` set B} \<subseteq> set (handle_diff_request E keys A) \<and>
          (sum_list (List.map (\<lambda>r. length (record_key E r) + 8) B) \<le> INVENTORY_BYTES \<longrightarrow>
             set (handle_diff_request E keys A) = {r \<in> set A. record_key E r \<notin> record_key E ` set B})))"
proof (intro conjI allI impI)
  let ?ks = "List.map (record_key E)"
  have sep: "CHR '','' \<notin> set (record_key E r) \<and> record_key E r \<noteq> []" for r
    using assms(1,2) by (simp add: record_key_def)
  have hash: "CHR ''#'' \<in> set (record_key E r)" for r by (simp add: record_key_def)
  let ?joined = "\<lambda>bans. str_join '','' (sort (?ks bans))"
  have "compute_digest E B = compute_digest E A \<longleftrightarrow> str_bytes (?joined B) = str_bytes (?joined A)"
    unfolding compute_digest_def by (rule inj_on_eq_iff [OF assms(3)]) simp_all
  moreover have "?joined A = ?joined B \<longleftrightarrow> mset (?ks A) = mset (?ks B)"
  proof
    show "mset (?ks A) = mset (?ks B)" if "?joined A = ?joined B"
      by (rule joined_keys_eq [OF that]) (use sep in auto)
    assume "mset (?ks A) = mset (?ks B)"
    then have "sort (?ks A) = sort (?ks B)" by (intro properties_for_sort) simp_all
    then show "?joined A = ?joined B" by simp
  qed
  ultimately show "handle_digest_exchange E (compute_digest E A) B peer = None \<longleftrightarrow> mset (?ks A) = mset (?ks B)"
    unfolding handle_digest_exchange_def str_bytes_inject by auto
  fix act assume act: "handle_digest_exchange E (compute_digest E A) B peer = Some act"
  define keys where "keys = take_inventory 0 (?ks B)"
  have keys: "set keys \<subseteq> record_key E ` set B" using take_inventory_subset [of 0 "?ks B"] by (auto simp: keys_def)
  then have "ge_show_net E n \<notin> set keys" for n using hash assms(1) by (metis image_iff subsetD)
  then have diff: "set (handle_diff_request E keys A) = {r \<in> set A. record_key E r \<notin> set keys}"
    by (auto simp: handle_diff_request_def)
  have "act = SendDiffRequest peer keys"
    using act by (simp add: handle_digest_exchange_def keys_def split: if_splits)
  moreover have "keys = ?ks B" if "sum_list (List.map (\<lambda>r. length (record_key E r) + 8) B) \<le> INVENTORY_BYTES"
    using that unfolding keys_def by (intro take_inventory_all) (simp add: comp_def)
  ultimately show "\<exists>keys. act = SendDiffRequest peer keys \<and>
          {r \<in> set A. record_key E r \<notin> record_key E ` set B} \<subseteq> set (handle_diff_request E keys A) \<and>
          (sum_list (List.map (\<lambda>r. length (record_key E r) + 8) B) \<le> INVENTORY_BYTES \<longrightarrow>
             set (handle_diff_request E keys A) = {r \<in> set A. record_key E r \<notin> record_key E ` set B})"
    using keys diff by (intro exI [of _ keys]) (auto simp del: List.map_map)
qed

definition ex_version_env :: gossip_env where
  "ex_version_env = ex_gossip_env\<lparr>ge_sign := ex_sign_env\<lparr>si_blake3 := (\<lambda>b. b)\<rparr>,
     ge_show_net := (\<lambda>n. if n = NetV4 0x08080801 32 then ''8.8.8.1/32'' else ''8.8.8.2/32'')\<rparr>"

theorem anti_entropy_exact_witness:
  "\<exists>keys. handle_digest_exchange ex_version_env (compute_digest ex_version_env [ex_remote_ban 1, ex_remote_ban 2])
       [ex_remote_ban 2] ''a'' = Some (SendDiffRequest ''a'' keys)
     \<and> set (handle_diff_request ex_version_env keys [ex_remote_ban 1, ex_remote_ban 2]) = {ex_remote_ban 1}"
proof -
  let ?A = "[ex_remote_ban 1, ex_remote_ban 2]" and ?B = "[ex_remote_ban 2]"
  have k: "record_key ex_version_env (ex_remote_ban 1) = ''8.8.8.1/32#''"
    "record_key ex_version_env (ex_remote_ban 2) = ''8.8.8.2/32#''"
    by (simp_all add: record_key_def ex_version_env_def ex_gossip_env_def ex_remote_ban_def)
  have h: "\<forall>n. CHR '','' \<notin> set (ge_show_net ex_version_env n) \<and> CHR ''#'' \<notin> set (ge_show_net ex_version_env n)"
    "\<forall>h. CHR '','' \<notin> set (ge_hex ex_version_env h)"
    by (simp_all add: ex_version_env_def ex_gossip_env_def)
  have inj: "inj_on (ge_blake3 ex_version_env) X" for X by (simp add: ex_version_env_def inj_on_def)
  note exact = anti_entropy_exact [OF h inj, of ?A ?B "''a''"]
  have "mset (List.map (record_key ex_version_env) ?A) \<noteq> mset (List.map (record_key ex_version_env) ?B)"
    by (simp add: k)
  then obtain act where act: "handle_digest_exchange ex_version_env (compute_digest ex_version_env ?A) ?B ''a'' = Some act"
    using exact by blast
  have fits: "sum_list (List.map (\<lambda>r. length (record_key ex_version_env r) + 8) ?B) \<le> INVENTORY_BYTES"
    by (simp add: k INVENTORY_BYTES_def)
  have lacks: "{r \<in> set ?A. record_key ex_version_env r \<notin> record_key ex_version_env ` set ?B} = {ex_remote_ban 1}"
    by (auto simp: k)
  from exact [THEN conjunct2, rule_format, OF act] fits show ?thesis unfolding lacks act by blast
qed

end
