(* ===== verification/Ban_Store.thy ===== *)
theory Ban_Store
  imports Models
begin

text \<open>
  The in-memory ban store of \<open>hiveguard-core/src/ban_store.rs\<close>: a hash map from
  networks to ban records, with one counter per prefix length so that a lookup
  probes only the prefix lengths in use.
\<close>

record InMemoryBanStore =
  bans :: "(ip_net, BanRecord) hmap"
  v4_prefix_counts :: "u32 list"
  v6_prefix_counts :: "u32 list"

definition store_new :: InMemoryBanStore where
  "store_new = \<lparr>bans = [], v4_prefix_counts = replicate 33 0, v6_prefix_counts = replicate 129 0\<rparr>"

fun inc_prefix :: "ip_net \<Rightarrow> InMemoryBanStore \<Rightarrow> InMemoryBanStore" where
  "inc_prefix (NetV4 a l) st =
     st\<lparr>v4_prefix_counts := (v4_prefix_counts st)[unat l := v4_prefix_counts st ! unat l + 1]\<rparr>"
| "inc_prefix (NetV6 a l) st =
     st\<lparr>v6_prefix_counts := (v6_prefix_counts st)[unat l := v6_prefix_counts st ! unat l + 1]\<rparr>"

definition saturating_dec :: "u32 \<Rightarrow> u32" where
  "saturating_dec c = (if c = 0 then 0 else c - 1)"

fun dec_prefix :: "ip_net \<Rightarrow> InMemoryBanStore \<Rightarrow> InMemoryBanStore" where
  "dec_prefix (NetV4 a l) st =
     st\<lparr>v4_prefix_counts :=
         (v4_prefix_counts st)[unat l := saturating_dec (v4_prefix_counts st ! unat l)]\<rparr>"
| "dec_prefix (NetV6 a l) st =
     st\<lparr>v6_prefix_counts :=
         (v6_prefix_counts st)[unat l := saturating_dec (v6_prefix_counts st ! unat l)]\<rparr>"

definition covering_bans :: "ipnet_ops \<Rightarrow> ip_net \<Rightarrow> InMemoryBanStore \<Rightarrow> BanRecord list" where
  "covering_bans N subject st =
     (let counts = (case subject of NetV4 _ _ \<Rightarrow> v4_prefix_counts st
                                  | NetV6 _ _ \<Rightarrow> v6_prefix_counts st);
          lens = filter (\<lambda>len. counts ! len > 0) [0 ..< Suc (unat (prefix_len subject))];
          nets = List.map_filter (\<lambda>len. net_new N (net_addr subject) (of_nat len)) lens
      in List.map_filter (\<lambda>net. hm_get (bans st) (net_trunc N net)) nets)"

definition rebuild_prefix_counts :: "InMemoryBanStore \<Rightarrow> InMemoryBanStore" where
  "rebuild_prefix_counts st =
     fold inc_prefix (hm_keys (bans st))
       (st\<lparr>v4_prefix_counts := replicate 33 0, v6_prefix_counts := replicate 129 0\<rparr>)"

definition add_ban :: "BanRecord \<Rightarrow> InMemoryBanStore \<Rightarrow> InMemoryBanStore" where
  "add_ban record st =
     (let net = br_subject record; st' = st\<lparr>bans := hm_insert net record (bans st)\<rparr> in
      case hm_get (bans st) net of
        Some _ \<Rightarrow> st'
      | None \<Rightarrow> inc_prefix net st')"

definition remove_ban :: "ip_net \<Rightarrow> InMemoryBanStore \<Rightarrow> bool \<times> InMemoryBanStore" where
  "remove_ban subject st =
     (case hm_get (bans st) subject of
        Some _ \<Rightarrow> (True, dec_prefix subject (st\<lparr>bans := hm_remove subject (bans st)\<rparr>))
      | None \<Rightarrow> (False, st))"

text \<open>The lookup loop, from the longest prefix to the shortest.\<close>

fun probe :: "(ip_net, BanRecord) hmap \<Rightarrow> u32 list \<Rightarrow> (nat \<Rightarrow> ip_net option) \<Rightarrow> nat list
    \<Rightarrow> BanRecord option" where
  "probe m counts cidr [] = None"
| "probe m counts cidr (len # lens) =
     (if counts ! len = 0 then probe m counts cidr lens
      else case cidr len of
        None \<Rightarrow> probe m counts cidr lens
      | Some net \<Rightarrow>
          (case hm_get m net of Some record \<Rightarrow> Some record | None \<Rightarrow> probe m counts cidr lens))"

fun is_banned :: "ipnet_ops \<Rightarrow> InMemoryBanStore \<Rightarrow> ip_addr \<Rightarrow> BanRecord option" where
  "is_banned N st (IpV4 ip_val) =
     probe (bans st) (v4_prefix_counts st)
       (\<lambda>len. net_new N (IpV4 (ip_val AND prefix_mask len)) (of_nat len)) (rev [0 ..< 33])"
| "is_banned N st (IpV6 ip_val) =
     probe (bans st) (v6_prefix_counts st)
       (\<lambda>len. net_new N (IpV6 (ip_val AND prefix_mask len)) (of_nat len)) (rev [0 ..< 129])"

definition get_all_bans :: "InMemoryBanStore \<Rightarrow> BanRecord list" where
  "get_all_bans st = hm_values (bans st)"

definition cleanup_expired :: "instant \<Rightarrow> InMemoryBanStore \<Rightarrow> nat \<times> InMemoryBanStore" where
  "cleanup_expired now st =
     (let before = length (bans st);
          kept = hm_retain (\<lambda>_ record. case br_expires_at record of Some expiry \<Rightarrow> expiry > now | None \<Rightarrow> True)
                   (bans st);
          removed = before - length kept;
          st' = st\<lparr>bans := kept\<rparr>
      in (removed, if removed > 0 then rebuild_prefix_counts st' else st'))"

section \<open>The invariant of the prefix counters\<close>

fun is_v6 :: "ip_net \<Rightarrow> bool" where
  "is_v6 (NetV4 _ _) = False"
| "is_v6 (NetV6 _ _) = True"

definition key_count :: "bool \<Rightarrow> nat \<Rightarrow> ip_net list \<Rightarrow> nat" where
  "key_count v6 l ks = length (filter (\<lambda>k. is_v6 k = v6 \<and> unat (prefix_len k) = l) ks)"

definition counts_ok :: "ip_net list \<Rightarrow> u32 list \<Rightarrow> u32 list \<Rightarrow> bool" where
  "counts_ok ks v4 v6 \<longleftrightarrow> length v4 = 33 \<and> length v6 = 129
     \<and> (\<forall>l < 33. v4 ! l = of_nat (key_count False l ks))
     \<and> (\<forall>l < 129. v6 ! l = of_nat (key_count True l ks))"

definition store_wf :: "InMemoryBanStore \<Rightarrow> bool" where
  "store_wf st \<longleftrightarrow> hm_wf (bans st)
     \<and> (\<forall>(k, r) \<in> set (bans st). net_ok k \<and> br_subject r = k)
     \<and> length (bans st) < 2 ^ 32
     \<and> counts_ok (hm_keys (bans st)) (v4_prefix_counts st) (v6_prefix_counts st)"

lemma key_count_append [simp]: "key_count v l (xs @ ys) = key_count v l xs + key_count v l ys"
  by (simp add: key_count_def)

lemma key_count_Nil [simp]: "key_count v l [] = 0"
  by (simp add: key_count_def)

lemma key_count_Cons [simp]:
  "key_count v l (k # ks) = (if is_v6 k = v \<and> unat (prefix_len k) = l then 1 else 0) + key_count v l ks"
  by (simp add: key_count_def)

lemma key_count_le: "key_count v l ks \<le> length ks"
  by (simp add: key_count_def)

lemma key_count_removeAll:
  "distinct ks \<Longrightarrow> k \<in> set ks \<Longrightarrow>
   key_count v l ks = (if is_v6 k = v \<and> unat (prefix_len k) = l then 1 else 0)
     + key_count v l (removeAll k ks)"
proof (induction ks)
  case (Cons j ks)
  then show ?case by (cases "k = j") simp_all
qed simp

lemma counts_ok_inc:
  assumes "counts_ok ks (v4_prefix_counts st) (v6_prefix_counts st)" "net_ok k"
  shows "counts_ok (ks @ [k]) (v4_prefix_counts (inc_prefix k st)) (v6_prefix_counts (inc_prefix k st))"
proof (cases k)
  case (NetV4 a l)
  with assms show ?thesis by (simp add: counts_ok_def nth_list_update)
next
  case (NetV6 a l)
  with assms show ?thesis by (simp add: counts_ok_def nth_list_update)
qed

lemma of_nat_u32_zero: "n < 2 ^ 32 \<Longrightarrow> (of_nat n :: u32) = 0 \<longleftrightarrow> n = 0"
  by (auto simp: word_of_nat_eq_0_iff dest: dvd_imp_le)

lemma of_nat_saturating_dec:
  "Suc n < 2 ^ 32 \<Longrightarrow> saturating_dec (1 + of_nat n) = of_nat n"
  using of_nat_u32_zero [of "Suc n"] by (simp add: saturating_dec_def)

lemma counts_ok_dec:
  assumes "counts_ok ks (v4_prefix_counts st) (v6_prefix_counts st)" "net_ok k"
    "distinct ks" "k \<in> set ks" "length ks < 2 ^ 32"
  shows "counts_ok (removeAll k ks) (v4_prefix_counts (dec_prefix k st)) (v6_prefix_counts (dec_prefix k st))"
proof -
  let ?v = "is_v6 k" and ?l = "unat (prefix_len k)"
  have "Suc (key_count ?v ?l (removeAll k ks)) < 2 ^ 32"
    using key_count_removeAll [OF assms(3,4), of ?v ?l] key_count_le [of ?v ?l ks] assms(5) by simp
  note sat = of_nat_saturating_dec [OF this]
  show ?thesis
  proof (cases k)
    case (NetV4 a l)
    with assms(1,2) sat show ?thesis
      by (simp add: counts_ok_def nth_list_update key_count_removeAll [OF assms(3,4)])
  next
    case (NetV6 a l)
    with assms(1,2) sat show ?thesis
      by (simp add: counts_ok_def nth_list_update key_count_removeAll [OF assms(3,4)])
  qed
qed

lemma fold_inc_prefix_bans: "bans (fold inc_prefix ks st) = bans st"
proof (induction ks arbitrary: st)
  case (Cons k ks)
  then show ?case by (cases k) auto
qed simp

lemma counts_ok_fold_inc:
  "counts_ok js (v4_prefix_counts st) (v6_prefix_counts st) \<Longrightarrow> \<forall>k \<in> set ks. net_ok k \<Longrightarrow>
   counts_ok (js @ ks) (v4_prefix_counts (fold inc_prefix ks st)) (v6_prefix_counts (fold inc_prefix ks st))"
proof (induction ks arbitrary: js st)
  case (Cons k ks)
  then show ?case using Cons.IH [of "js @ [k]" "inc_prefix k st"] by (simp add: counts_ok_inc)
qed simp

lemma counts_ok_empty: "counts_ok [] (replicate 33 0) (replicate 129 0)"
  by (simp add: counts_ok_def)

section \<open>Every operation keeps the invariant\<close>

lemma bans_inc [simp]: "bans (inc_prefix k st) = bans st"
  by (cases k) auto

lemma bans_dec [simp]: "bans (dec_prefix k st) = bans st"
  by (cases k) auto

lemma store_new_wf: "store_wf store_new"
  by (simp add: store_wf_def store_new_def counts_ok_empty hm_keys_def)

lemma add_ban_get:
  "hm_get (bans (add_ban r st)) k = (if k = br_subject r then Some r else hm_get (bans st) k)"
  by (auto simp: add_ban_def Let_def split: option.splits)

lemma remove_ban_get:
  "hm_get (bans (snd (remove_ban s st))) k = (if k = s then None else hm_get (bans st) k)"
  by (auto simp: remove_ban_def split: option.splits)

lemma remove_ban_result: "fst (remove_ban s st) \<longleftrightarrow> hm_contains (bans st) s"
  by (auto simp: remove_ban_def split: option.splits)

lemma hm_keys_insert:
  "hm_keys (hm_insert k v m) = (if hm_contains m k then hm_keys m else hm_keys m @ [k])"
  by (simp add: hm_keys_def update_keys map_of_eq_None_iff)

lemma hm_keys_remove: "hm_keys (hm_remove k m) = removeAll k (hm_keys m)"
  by (simp add: hm_keys_def delete_keys)

lemma add_ban_wf:
  assumes "store_wf st" "net_ok (br_subject r)" "Suc (length (bans st)) < 2 ^ 32"
  shows "store_wf (add_ban r st)"
proof -
  let ?m = "hm_insert (br_subject r) r (bans st)"
  have m: "bans (add_ban r st) = ?m"
    by (auto simp: add_ban_def Let_def split: option.splits)
  have len: "length ?m < 2 ^ 32"
    using assms(3) hm_length_insert_le [of "br_subject r" r "bans st"] by linarith
  have wf: "hm_wf ?m" using assms(1) by (simp add: store_wf_def)
  have entries: "\<forall>(k, q) \<in> set ?m. net_ok k \<and> br_subject q = k"
    using assms(1,2) by (auto simp: store_wf_def hm_set_insert)
  have "counts_ok (hm_keys ?m) (v4_prefix_counts (add_ban r st)) (v6_prefix_counts (add_ban r st))"
  proof (cases "hm_get (bans st) (br_subject r)")
    case None
    then show ?thesis
      using assms(1,2) counts_ok_inc [of "hm_keys (bans st)" "st\<lparr>bans := ?m\<rparr>"]
      by (simp add: add_ban_def Let_def hm_keys_insert store_wf_def)
  next
    case (Some q)
    then show ?thesis
      using assms(1) by (simp add: add_ban_def Let_def hm_keys_insert store_wf_def)
  qed
  then show ?thesis using len wf entries by (simp add: store_wf_def m)
qed

lemma remove_ban_wf:
  assumes "store_wf st"
  shows "store_wf (snd (remove_ban s st))"
proof (cases "hm_get (bans st) s")
  case None
  with assms show ?thesis by (simp add: remove_ban_def)
next
  case (Some r)
  let ?m = "hm_remove s (bans st)" and ?ks = "hm_keys (bans st)"
  from Some have mem: "(s, r) \<in> set (bans st)" by (rule map_of_SomeD)
  have ks: "s \<in> set ?ks" "distinct ?ks" "length ?ks < 2 ^ 32" "net_ok s"
    using mem assms by (force simp: hm_keys_def store_wf_def hm_wf_def)+
  have "counts_ok (removeAll s ?ks) (v4_prefix_counts (dec_prefix s (st\<lparr>bans := ?m\<rparr>)))
      (v6_prefix_counts (dec_prefix s (st\<lparr>bans := ?m\<rparr>)))"
    using assms ks by (intro counts_ok_dec) (simp_all add: store_wf_def)
  moreover have "length ?m < 2 ^ 32"
    using assms hm_length_remove_le [of s "bans st"] by (simp add: store_wf_def)
  moreover have "\<forall>(k, q) \<in> set ?m. net_ok k \<and> br_subject q = k" "hm_wf ?m"
    using assms by (auto simp: store_wf_def hm_set_remove)
  ultimately show ?thesis
    using Some by (simp add: store_wf_def remove_ban_def hm_keys_remove)
qed

lemma rebuild_counts:
  "\<forall>k \<in> set (hm_keys (bans st)). net_ok k \<Longrightarrow>
   counts_ok (hm_keys (bans st)) (v4_prefix_counts (rebuild_prefix_counts st))
     (v6_prefix_counts (rebuild_prefix_counts st))"
  using counts_ok_fold_inc [of "[]" "st\<lparr>v4_prefix_counts := replicate 33 0, v6_prefix_counts := replicate 129 0\<rparr>"
      "hm_keys (bans st)"]
  by (simp add: rebuild_prefix_counts_def counts_ok_empty)

lemma cleanup_bans:
  "bans (snd (cleanup_expired now st)) = hm_retain (\<lambda>_ r. ban_active now r) (bans st)"
  by (simp add: cleanup_expired_def Let_def rebuild_prefix_counts_def fold_inc_prefix_bans
      ban_active_def [abs_def])

lemma cleanup_removed:
  "fst (cleanup_expired now st) = length (bans st) - length (hm_retain (\<lambda>_ r. ban_active now r) (bans st))"
  by (simp add: cleanup_expired_def Let_def ban_active_def [abs_def])

lemma cleanup_wf:
  assumes "store_wf st"
  shows "store_wf (snd (cleanup_expired now st))"
proof -
  let ?P = "\<lambda>_ r. ban_active now r"
  let ?kept = "hm_retain ?P (bans st)"
  let ?st = "st\<lparr>bans := ?kept\<rparr>"
  have sub: "set ?kept \<subseteq> set (bans st)" and len: "length ?kept \<le> length (bans st)"
    by (auto simp: hm_retain_def)
  have entries: "\<forall>(k, r) \<in> set ?kept. net_ok k \<and> br_subject r = k"
    using assms sub by (auto simp: store_wf_def)
  have eq: "snd (cleanup_expired now st) =
      (if length (bans st) - length ?kept > 0 then rebuild_prefix_counts ?st else ?st)"
    by (simp add: cleanup_expired_def Let_def ban_active_def [abs_def])
  show ?thesis
  proof (cases "length (bans st) - length ?kept > 0")
    case True
    have "counts_ok (hm_keys (bans ?st)) (v4_prefix_counts (rebuild_prefix_counts ?st))
        (v6_prefix_counts (rebuild_prefix_counts ?st))"
      using entries by (intro rebuild_counts) (force simp: hm_keys_def)
    moreover have "bans (rebuild_prefix_counts ?st) = ?kept"
      by (simp add: rebuild_prefix_counts_def fold_inc_prefix_bans)
    ultimately show ?thesis
      using True assms entries len by (simp add: store_wf_def eq)
  next
    case False
    then have "length ?kept = length (bans st)" using len by simp
    then have "?kept = bans st" by (rule hm_retain_all)
    then show ?thesis using False assms by (simp add: eq store_wf_def)
  qed
qed

text \<open>Runs of the store's mutators from the empty store.\<close>

datatype store_op = OpAdd BanRecord | OpRemove ip_net | OpCleanup instant

fun store_step :: "store_op \<Rightarrow> InMemoryBanStore \<Rightarrow> InMemoryBanStore" where
  "store_step (OpAdd r) st = add_ban r st"
| "store_step (OpRemove s) st = snd (remove_ban s st)"
| "store_step (OpCleanup now) st = snd (cleanup_expired now st)"

fun op_ok :: "store_op \<Rightarrow> bool" where
  "op_ok (OpAdd r) = net_ok (br_subject r)"
| "op_ok _ = True"

lemma store_step_length: "length (bans (store_step op st)) \<le> Suc (length (bans st))"
proof (cases op)
  case (OpAdd r)
  then show ?thesis
    using hm_length_insert_le [of "br_subject r" r "bans st"]
    by (auto simp: add_ban_def Let_def split: option.splits)
next
  case (OpRemove s)
  then show ?thesis
    using hm_length_remove_le [of s "bans st"] by (auto simp: remove_ban_def split: option.splits)
next
  case (OpCleanup now)
  then show ?thesis by (simp add: cleanup_bans hm_retain_def le_SucI)
qed

lemma store_step_wf:
  "store_wf st \<Longrightarrow> op_ok op \<Longrightarrow> Suc (length (bans st)) < 2 ^ 32 \<Longrightarrow> store_wf (store_step op st)"
  by (cases op) (simp_all add: add_ban_wf remove_ban_wf cleanup_wf)

lemma store_run_wf_from:
  "store_wf st \<Longrightarrow> list_all op_ok ops \<Longrightarrow> length (bans st) + length ops < 2 ^ 32 \<Longrightarrow>
   store_wf (fold store_step ops st)"
proof (induction ops arbitrary: st)
  case (Cons op ops)
  have "store_wf (store_step op st)" using Cons.prems by (intro store_step_wf) simp_all
  moreover have "length (bans (store_step op st)) + length ops < 2 ^ 32"
    using Cons.prems(3) store_step_length [of op st] by simp
  ultimately show ?case using Cons.IH Cons.prems by simp
qed simp

text \<open>
  C30: the prefix counters never drift. After any sequence of additions (including
  overwrites), removals (including of absent subjects) and expiry clean-ups from
  the empty store, every counter equals the number of stored networks with that
  prefix length, each record is stored under its own subject, and no subject is
  stored twice.
\<close>

theorem store_run_wf:
  assumes "list_all op_ok ops" "length ops < 2 ^ 32"
  shows "store_wf (fold store_step ops store_new)"
  using store_run_wf_from [OF store_new_wf assms(1)] assms(2) by (simp add: store_new_def)

definition ex_ban :: "ip_net \<Rightarrow> instant option \<Rightarrow> BanRecord" where
  "ex_ban n e = \<lparr>br_subject = n, br_created_at = 0, br_expires_at = e, br_severity = 5,
     br_reason = ''test ban'', br_evidence_hash = [], br_source = LocalDetector ''test'',
     br_geo_info = None\<rparr>"

theorem store_run_wf_witness:
  "store_wf (fold store_step
     [OpAdd (ex_ban (NetV4 0x08080800 24) None), OpRemove (NetV4 0 8), OpCleanup 7] store_new)"
  by (rule store_run_wf) (simp_all add: ex_ban_def)

section \<open>Lookup\<close>

text \<open>The truncated network of an address at a prefix length.\<close>

fun net_at :: "ip_addr \<Rightarrow> nat \<Rightarrow> ip_net" where
  "net_at (IpV4 v) l = NetV4 (v AND prefix_mask l) (of_nat l)"
| "net_at (IpV6 v) l = NetV6 (v AND prefix_mask l) (of_nat l)"

fun ip_bits :: "ip_addr \<Rightarrow> nat" where
  "ip_bits (IpV4 v) = 32"
| "ip_bits (IpV6 v) = 128"

fun counts_for :: "InMemoryBanStore \<Rightarrow> ip_addr \<Rightarrow> u32 list" where
  "counts_for st (IpV4 v) = v4_prefix_counts st"
| "counts_for st (IpV6 v) = v6_prefix_counts st"

lemma unat_of_nat_u8: "l < 256 \<Longrightarrow> unat (of_nat l :: u8) = l"
  by (simp add: unat_of_nat)

lemma net_at_in_net: "l \<le> ip_bits ip \<Longrightarrow> in_net (net_at ip l) ip"
  by (cases ip) (simp_all add: unat_of_nat_u8)

lemma net_at_prefix: "l \<le> ip_bits ip \<Longrightarrow> unat (prefix_len (net_at ip l)) = l"
  by (cases ip) (simp_all add: unat_of_nat_u8)

lemma net_at_eq:
  "truncated n \<Longrightarrow> in_net n ip \<Longrightarrow> net_at ip (unat (prefix_len n)) = n"
  by (cases n; cases ip) (auto simp: truncated_def)

lemma in_net_prefix_le: "net_ok n \<Longrightarrow> in_net n ip \<Longrightarrow> unat (prefix_len n) \<le> ip_bits ip"
  by (cases n; cases ip) auto

text \<open>A stored network has a positive counter.\<close>

lemma key_count_pos:
  "k \<in> set ks \<Longrightarrow> is_v6 k = v \<Longrightarrow> unat (prefix_len k) = l \<Longrightarrow> 0 < key_count v l ks"
  by (force simp: key_count_def filter_empty_conv)

lemma count_nonzero:
  assumes "store_wf st" "hm_get (bans st) (net_at ip l) = Some r" "l \<le> ip_bits ip"
  shows "counts_for st ip ! l \<noteq> 0"
proof -
  let ?ks = "hm_keys (bans st)" and ?k = "net_at ip l"
  have mem: "?k \<in> set ?ks" using assms(2) by (simp add: dom_def)
  have "key_count v l ?ks < 2 ^ 32" for v
    using assms(1) key_count_le [of v l ?ks] by (simp add: store_wf_def hm_keys_def)
  moreover have "0 < key_count (is_v6 ?k) l ?ks"
    using key_count_pos [OF mem refl] net_at_prefix [OF assms(3)] by simp
  ultimately have "(of_nat (key_count (is_v6 ?k) l ?ks) :: u32) \<noteq> 0"
    by (simp add: of_nat_u32_zero)
  then show ?thesis
    using assms(1,3) by (cases ip) (simp_all add: store_wf_def counts_ok_def)
qed

lemma probe_None:
  assumes "\<forall>l \<in> set ls. cidr l = Some (key l) \<and> (hm_contains m (key l) \<longrightarrow> counts ! l \<noteq> 0)"
  shows "probe m counts cidr ls = None \<longleftrightarrow> (\<forall>l \<in> set ls. hm_get m (key l) = None)"
  using assms by (induction ls) (auto split: option.splits)

lemma probe_Some:
  assumes "\<forall>l \<in> set ls. cidr l = Some (key l) \<and> (hm_contains m (key l) \<longrightarrow> counts ! l \<noteq> 0)"
    and "sorted_wrt (>) ls" "probe m counts cidr ls = Some r"
  shows "\<exists>l \<in> set ls. hm_get m (key l) = Some r \<and> (\<forall>k \<in> set ls. l < k \<longrightarrow> hm_get m (key k) = None)"
  using assms
proof (induction ls)
  case (Cons l ls)
  show ?case
  proof (cases "hm_get m (key l)")
    case None
    then have "probe m counts cidr ls = Some r" using Cons.prems by (auto split: if_splits)
    then show ?thesis using Cons None by auto
  next
    case (Some q)
    then show ?thesis using Cons.prems by fastforce
  qed
qed simp

text \<open>The bans whose network contains an address.\<close>

definition bans_covering :: "InMemoryBanStore \<Rightarrow> ip_addr \<Rightarrow> BanRecord set" where
  "bans_covering st ip = {r \<in> set (get_all_bans st). in_net (br_subject r) ip}"

definition keys_truncated :: "InMemoryBanStore \<Rightarrow> bool" where
  "keys_truncated st \<longleftrightarrow> (\<forall>k \<in> set (hm_keys (bans st)). truncated k)"

lemma bans_covering_iff:
  assumes "store_wf st" "keys_truncated st"
  shows "r \<in> bans_covering st ip \<longleftrightarrow>
    (\<exists>l \<le> ip_bits ip. hm_get (bans st) (net_at ip l) = Some r \<and> l = unat (prefix_len (br_subject r)))"
proof
  assume "r \<in> bans_covering st ip"
  then obtain k where k: "(k, r) \<in> set (bans st)" "in_net (br_subject r) ip"
    by (auto simp: bans_covering_def get_all_bans_def hm_values_def)
  then have *: "br_subject r = k" "net_ok k" "truncated k" "hm_get (bans st) k = Some r"
    using assms by (auto simp: store_wf_def keys_truncated_def hm_keys_def hm_get_eq_Some)
  then show "\<exists>l \<le> ip_bits ip. hm_get (bans st) (net_at ip l) = Some r \<and> l = unat (prefix_len (br_subject r))"
    using k net_at_eq in_net_prefix_le by auto
next
  assume "\<exists>l \<le> ip_bits ip. hm_get (bans st) (net_at ip l) = Some r \<and> l = unat (prefix_len (br_subject r))"
  then obtain l where l: "l \<le> ip_bits ip" "(net_at ip l, r) \<in> set (bans st)"
    using map_of_SomeD by fastforce
  then have "br_subject r = net_at ip l" using assms by (auto simp: store_wf_def)
  then show "r \<in> bans_covering st ip"
    using l net_at_in_net [of l ip] by (force simp: bans_covering_def get_all_bans_def hm_values_def)
qed

lemma set_map_filter_iff: "y \<in> set (List.map_filter f xs) \<longleftrightarrow> (\<exists>x \<in> set xs. f x = Some y)"
  by (force simp: List.map_filter_def)

context ipnet_spec
begin

lemma is_banned_probe:
  "is_banned N st ip = probe (bans st) (counts_for st ip)
     (\<lambda>l. net_new N (case ip of IpV4 v \<Rightarrow> IpV4 (v AND prefix_mask l) | IpV6 v \<Rightarrow> IpV6 (v AND prefix_mask l))
        (of_nat l)) (rev [0 ..< Suc (ip_bits ip)])"
  by (cases ip) simp_all

lemma probe_conditions:
  assumes "store_wf st"
  shows "\<forall>l \<in> set (rev [0 ..< Suc (ip_bits ip)]).
     net_new N (case ip of IpV4 v \<Rightarrow> IpV4 (v AND prefix_mask l) | IpV6 v \<Rightarrow> IpV6 (v AND prefix_mask l))
        (of_nat l) = Some (net_at ip l)
     \<and> (hm_contains (bans st) (net_at ip l) \<longrightarrow> counts_for st ip ! l \<noteq> 0)"
proof
  fix l assume "l \<in> set (rev [0 ..< Suc (ip_bits ip)])"
  then have l: "l \<le> ip_bits ip" by auto
  have "hm_contains (bans st) (net_at ip l) \<longrightarrow> counts_for st ip ! l \<noteq> 0"
    using count_nonzero [OF assms _ l] by auto
  then show "net_new N (case ip of IpV4 v \<Rightarrow> IpV4 (v AND prefix_mask l) | IpV6 v \<Rightarrow> IpV6 (v AND prefix_mask l))
        (of_nat l) = Some (net_at ip l)
     \<and> (hm_contains (bans st) (net_at ip l) \<longrightarrow> counts_for st ip ! l \<noteq> 0)"
    using l by (cases ip) (simp_all add: new_v4 new_v6 unat_of_nat_u8)
qed

lemma is_banned_longest:
  assumes "store_wf st" "keys_truncated st"
  shows "case is_banned N st ip of
      None \<Rightarrow> bans_covering st ip = {}
    | Some r \<Rightarrow> r \<in> bans_covering st ip
        \<and> (\<forall>q \<in> bans_covering st ip. prefix_len (br_subject q) \<le> prefix_len (br_subject r))"
proof (cases "is_banned N st ip")
  case None
  then have "\<forall>l \<in> set (rev [0 ..< Suc (ip_bits ip)]). hm_get (bans st) (net_at ip l) = None"
    using probe_None [OF probe_conditions [OF assms(1)]] by (simp only: is_banned_probe)
  then have "\<forall>l \<le> ip_bits ip. hm_get (bans st) (net_at ip l) = None"
    by (auto simp: le_less)
  then show ?thesis using None bans_covering_iff [OF assms] by auto
next
  case (Some r)
  have "sorted_wrt (>) (rev [0 ..< Suc (ip_bits ip)])"
    by (simp add: sorted_wrt_rev)
  from probe_Some [OF probe_conditions [OF assms(1)] this Some [unfolded is_banned_probe]]
  obtain l where l: "l \<le> ip_bits ip" "hm_get (bans st) (net_at ip l) = Some r"
    and longest: "\<forall>k \<le> ip_bits ip. l < k \<longrightarrow> hm_get (bans st) (net_at ip k) = None"
    by (metis atLeastLessThan_iff less_Suc_eq_le set_rev set_upt zero_le)
  have "(net_at ip l, r) \<in> set (bans st)" using l(2) by (rule map_of_SomeD)
  then have sub: "br_subject r = net_at ip l" using assms(1) by (auto simp: store_wf_def)
  have "r \<in> bans_covering st ip"
    using l sub net_at_prefix [OF l(1)] by (auto simp: bans_covering_iff [OF assms])
  moreover have "prefix_len (br_subject q) \<le> prefix_len (br_subject r)"
    if "q \<in> bans_covering st ip" for q
  proof (rule ccontr)
    assume "\<not> prefix_len (br_subject q) \<le> prefix_len (br_subject r)"
    then have "l < unat (prefix_len (br_subject q))"
      using sub net_at_prefix [OF l(1)] by (simp add: word_le_nat_alt)
    with that longest show False by (auto simp: bans_covering_iff [OF assms])
  qed
  ultimately show ?thesis using Some by simp
qed

lemma covering_bans_set:
  assumes "store_wf st" "keys_truncated st" "net_ok s"
  shows "set (covering_bans N s st) = {r \<in> set (get_all_bans st). net_covers (br_subject r) s}"
proof -
  let ?ip = "net_addr s"
  have le: "unat (prefix_len s) \<le> ip_bits ?ip" using assms(3) by (cases s) auto
  have counts: "(case s of NetV4 _ _ \<Rightarrow> v4_prefix_counts st | NetV6 _ _ \<Rightarrow> v6_prefix_counts st) = counts_for st ?ip"
    by (cases s) auto
  have new: "\<exists>n. net_new N ?ip (of_nat l) = Some n \<and> net_trunc N n = net_at ?ip l"
    if "l \<le> unat (prefix_len s)" for l
    using that assms(3) by (cases s) (auto simp: new_v4 new_v6 unat_of_nat_u8 trunc)
  have "r \<in> set (covering_bans N s st) \<longleftrightarrow>
     (\<exists>l \<le> unat (prefix_len s). hm_get (bans st) (net_at ?ip l) = Some r)" for r
  proof
    assume "r \<in> set (covering_bans N s st)"
    then obtain l n where l: "l \<le> unat (prefix_len s)" "net_new N ?ip (of_nat l) = Some n"
      "hm_get (bans st) (net_trunc N n) = Some r"
      by (auto simp: covering_bans_def counts set_map_filter_iff less_Suc_eq_le Let_def simp del: upt_Suc)
    then show "\<exists>l \<le> unat (prefix_len s). hm_get (bans st) (net_at ?ip l) = Some r"
      using new [OF l(1)] by auto
  next
    assume "\<exists>l \<le> unat (prefix_len s). hm_get (bans st) (net_at ?ip l) = Some r"
    then obtain l where l: "l \<le> unat (prefix_len s)" "hm_get (bans st) (net_at ?ip l) = Some r" by blast
    obtain n where n: "net_new N ?ip (of_nat l) = Some n" "net_trunc N n = net_at ?ip l"
      using new [OF l(1)] by blast
    have "counts_for st ?ip ! l > 0"
      using count_nonzero [OF assms(1) l(2)] l(1) le by (simp add: word_gt_0)
    then have "n \<in> set (List.map_filter (\<lambda>l. net_new N ?ip (of_nat l))
        (filter (\<lambda>l. counts_for st ?ip ! l > 0) [0 ..< Suc (unat (prefix_len s))]))"
      using n(1) l(1) unfolding set_map_filter_iff
      by (intro bexI [of _ l]) (simp_all del: upt_Suc add: less_Suc_eq_le)
    then show "r \<in> set (covering_bans N s st)"
      unfolding covering_bans_def counts Let_def set_map_filter_iff [where xs = "List.map_filter _ _"]
      using l(2) n(2) by (intro bexI [of _ n]) simp_all
  qed
  moreover have "(\<exists>l \<le> unat (prefix_len s). hm_get (bans st) (net_at ?ip l) = Some r) \<longleftrightarrow>
     r \<in> bans_covering st ?ip \<and> unat (prefix_len (br_subject r)) \<le> unat (prefix_len s)" for r
  proof
    assume "\<exists>l \<le> unat (prefix_len s). hm_get (bans st) (net_at ?ip l) = Some r"
    then obtain l where l: "l \<le> unat (prefix_len s)" "hm_get (bans st) (net_at ?ip l) = Some r" by blast
    then have "br_subject r = net_at ?ip l"
      using assms(1) map_of_SomeD [OF l(2)] by (auto simp: store_wf_def)
    then show "r \<in> bans_covering st ?ip \<and> unat (prefix_len (br_subject r)) \<le> unat (prefix_len s)"
      using l le net_at_prefix [of l ?ip] by (auto simp: bans_covering_iff [OF assms(1,2)])
  qed (auto simp: bans_covering_iff [OF assms(1,2)])
  ultimately show ?thesis by (auto simp: bans_covering_def net_covers_def)
qed

end

text \<open>
  C7: a lookup returns the most specific ban. For a store whose keys are
  truncated networks, \<open>is_banned\<close> answers \<open>None\<close> exactly when no stored network
  contains the address; otherwise it returns a stored ban that contains it, and
  none that contains it has a longer prefix. The skipping of prefix lengths by
  the counters never hides a ban.
\<close>

theorem is_banned_longest_match:
  assumes "ipnet_spec N" "store_wf st" "keys_truncated st"
  shows "case is_banned N st ip of
      None \<Rightarrow> bans_covering st ip = {}
    | Some r \<Rightarrow> r \<in> bans_covering st ip
        \<and> (\<forall>q \<in> bans_covering st ip. prefix_len (br_subject q) \<le> prefix_len (br_subject r))"
  using assms by (rule ipnet_spec.is_banned_longest)

definition ex_store :: InMemoryBanStore where
  "ex_store = fold store_step [OpAdd (ex_ban (NetV4 0x08080800 24) None),
     OpAdd (ex_ban (NetV4 0x08080808 32) (Some 9))] store_new"

lemma ex_store_wf: "store_wf ex_store" "keys_truncated ex_store"
proof -
  show "store_wf ex_store"
    unfolding ex_store_def
    by (intro store_run_wf_from store_new_wf) (simp_all add: ex_ban_def store_new_def)
  have "hm_keys (bans ex_store) = [NetV4 0x08080800 24, NetV4 0x08080808 32]"
    by (simp add: ex_store_def store_new_def add_ban_def ex_ban_def hm_keys_def Let_def)
  then show "keys_truncated ex_store"
    by (simp add: keys_truncated_def) code_simp
qed

theorem is_banned_longest_match_witness:
  "is_banned ipnet_ref ex_store (IpV4 0x08080808) = Some (ex_ban (NetV4 0x08080808 32) (Some 9))
   \<and> ex_ban (NetV4 0x08080808 32) (Some 9) \<in> bans_covering ex_store (IpV4 0x08080808)
   \<and> bans_covering ex_store (IpV4 0x08080908) = {}"
proof (intro conjI)
  show *: "is_banned ipnet_ref ex_store (IpV4 0x08080808) = Some (ex_ban (NetV4 0x08080808 32) (Some 9))"
    by code_simp
  show "ex_ban (NetV4 0x08080808 32) (Some 9) \<in> bans_covering ex_store (IpV4 0x08080808)"
    using is_banned_longest_match [OF ipref.ipnet_spec_axioms ex_store_wf, of "IpV4 0x08080808"] *
    by simp
  have "is_banned ipnet_ref ex_store (IpV4 0x08080908) = None" by code_simp
  then show "bans_covering ex_store (IpV4 0x08080908) = {}"
    using is_banned_longest_match [OF ipref.ipnet_spec_axioms ex_store_wf, of "IpV4 0x08080908"]
    by simp
qed

text \<open>
  \<open>covering_bans\<close> returns every ban whose network contains the whole subject,
  the subject itself included and expired bans too, and nothing else.
\<close>

lemma covering_bans_exact:
  assumes "ipnet_spec N" "store_wf st" "keys_truncated st" "net_ok s"
  shows "set (covering_bans N s st) =
     {r \<in> set (get_all_bans st). \<forall>ip. in_net s ip \<longrightarrow> in_net (br_subject r) ip}"
proof -
  have "net_ok (br_subject r)" if "r \<in> set (get_all_bans st)" for r
    using that assms(2) by (auto simp: get_all_bans_def hm_values_def store_wf_def)
  then show ?thesis
    using ipnet_spec.covering_bans_set [OF assms] net_covers_iff by blast
qed

text \<open>
  C31: expiry clean-up removes exactly the bans whose expiry is at or before the
  current time: the live bans (permanent ones included) stay, the result is the
  number of bans removed, and the prefix counters are right afterwards.
\<close>

theorem cleanup_expired_exact:
  assumes "store_wf st"
  shows "let (n, st') = cleanup_expired now st in
     (\<forall>k. hm_get (bans st') k = (case hm_get (bans st) k of
         Some r \<Rightarrow> if ban_active now r then Some r else None
       | None \<Rightarrow> None))
     \<and> n + length (bans st') = length (bans st) \<and> store_wf st'"
proof -
  have "length (hm_retain p (bans st)) \<le> length (bans st)" for p
    by (simp add: hm_retain_def)
  moreover have "hm_get (bans (snd (cleanup_expired now st))) k = (case hm_get (bans st) k of
         Some r \<Rightarrow> if ban_active now r then Some r else None
       | None \<Rightarrow> None)" for k
    using assms
    by (simp add: cleanup_bans hm_get_retain store_wf_def ban_active_def split: option.splits)
  ultimately show ?thesis
    using cleanup_wf [OF assms, of now]
    by (simp add: Let_def case_prod_beta cleanup_bans cleanup_removed)
qed

theorem cleanup_expired_exact_witness:
  "fst (cleanup_expired 9 ex_store) = 1
   \<and> (let (n, st') = cleanup_expired 9 ex_store in
     (\<forall>k. hm_get (bans st') k = (case hm_get (bans ex_store) k of
         Some r \<Rightarrow> if ban_active 9 r then Some r else None
       | None \<Rightarrow> None))
     \<and> n + length (bans st') = length (bans ex_store) \<and> store_wf st')"
proof
  show "fst (cleanup_expired 9 ex_store) = 1" by code_simp
qed (rule cleanup_expired_exact [OF ex_store_wf(1)])

end
