(* ===== verification/Whitelist.thy ===== *)
theory Whitelist
  imports Net_Types
begin

text \<open>
  The whitelist of \<open>hiveguard-core/src/whitelist.rs\<close>: hard-coded protected networks
  and configured entries. A \<open>HashSet\<close> is a list without duplicates, in iteration
  order. \<open>str::parse::<IpNet>\<close> is code of the crate \<open>ipnet\<close>, an argument of
  \<open>wl_new\<close>; the definitions that test containment take the crate's operations.
\<close>

definition IMMUTABLE_PROTECTED :: "string list" where
  "IMMUTABLE_PROTECTED =
     [''127.0.0.0/8'', ''::1/128'',
      ''10.0.0.0/8'', ''172.16.0.0/12'', ''192.168.0.0/16'',
      ''169.254.0.0/16'', ''fe80::/10'',
      ''192.0.2.0/24'', ''198.51.100.0/24'', ''203.0.113.0/24'',
      ''0.0.0.0/8'', ''::/128'',
      ''224.0.0.0/4'', ''ff00::/8'',
      ''fc00::/7'']"

record WhitelistManager =
  wl_entries :: "ip_net list"
  wl_immutable :: "ip_net list"

definition wl_new :: "(string \<Rightarrow> ip_net option) \<Rightarrow> WhitelistManager" where
  "wl_new parse = \<lparr>wl_entries = [], wl_immutable = List.map_filter parse IMMUTABLE_PROTECTED\<rparr>"

definition wl_add :: "ip_net \<Rightarrow> WhitelistManager \<Rightarrow> WhitelistManager" where
  "wl_add net wl =
     (if net \<in> set (wl_entries wl) then wl else wl\<lparr>wl_entries := wl_entries wl @ [net]\<rparr>)"

definition wl_remove :: "ip_net \<Rightarrow> WhitelistManager \<Rightarrow> bool \<times> WhitelistManager" where
  "wl_remove net wl =
     (net \<in> set (wl_entries wl), wl\<lparr>wl_entries := removeAll net (wl_entries wl)\<rparr>)"

definition is_immutably_protected :: "ipnet_ops \<Rightarrow> ip_addr \<Rightarrow> WhitelistManager \<Rightarrow> bool" where
  "is_immutably_protected N ip wl \<longleftrightarrow> list_ex (\<lambda>net. net_contains N net ip) (wl_immutable wl)"

definition is_whitelisted :: "ipnet_ops \<Rightarrow> ip_addr \<Rightarrow> WhitelistManager \<Rightarrow> bool" where
  "is_whitelisted N ip wl \<longleftrightarrow>
     is_immutably_protected N ip wl \<or> list_ex (\<lambda>net. net_contains N net ip) (wl_entries wl)"

definition nets_overlap :: "ipnet_ops \<Rightarrow> ip_net \<Rightarrow> ip_net \<Rightarrow> bool" where
  "nets_overlap N a b \<longleftrightarrow> net_contains N a (net_addr b) \<or> net_contains N b (net_addr a)"

definition overlaps :: "ipnet_ops \<Rightarrow> ip_net \<Rightarrow> WhitelistManager \<Rightarrow> bool" where
  "overlaps N net wl \<longleftrightarrow> list_ex (\<lambda>w. nets_overlap N w net) (wl_immutable wl @ wl_entries wl)"

definition covers :: "ipnet_ops \<Rightarrow> ip_net \<Rightarrow> WhitelistManager \<Rightarrow> bool" where
  "covers N net wl \<longleftrightarrow>
     list_ex (\<lambda>w. net_contains N w (net_addr net) \<and> prefix_len w \<le> prefix_len net)
       (wl_immutable wl @ wl_entries wl)"

section \<open>Well-formedness\<close>

definition wl_nets :: "WhitelistManager \<Rightarrow> ip_net list" where
  "wl_nets wl = wl_immutable wl @ wl_entries wl"

definition wl_wf :: "WhitelistManager \<Rightarrow> bool" where
  "wl_wf wl \<longleftrightarrow> list_all net_ok (wl_nets wl) \<and> distinct (wl_entries wl)"

lemma set_wl_add [simp]: "set (wl_entries (wl_add n wl)) = insert n (set (wl_entries wl))"
  by (auto simp: wl_add_def)

lemma set_wl_remove [simp]: "set (wl_entries (snd (wl_remove n wl))) = set (wl_entries wl) - {n}"
  by (auto simp: wl_remove_def)

lemma wl_immutable_add [simp]: "wl_immutable (wl_add n wl) = wl_immutable wl"
  by (simp add: wl_add_def)

lemma wl_immutable_remove [simp]: "wl_immutable (snd (wl_remove n wl)) = wl_immutable wl"
  by (simp add: wl_remove_def)

lemma wl_add_wf: "wl_wf wl \<Longrightarrow> net_ok n \<Longrightarrow> wl_wf (wl_add n wl)"
  by (auto simp: wl_wf_def wl_nets_def wl_add_def)

lemma wl_remove_wf: "wl_wf wl \<Longrightarrow> wl_wf (snd (wl_remove n wl))"
  by (auto simp: wl_wf_def wl_nets_def wl_remove_def list_all_iff distinct_removeAll)

text \<open>The networks that the literals of \<open>IMMUTABLE_PROTECTED\<close> denote, and that the crate's
  parser reads them so.\<close>

definition protected_nets :: "ip_net list" where
  "protected_nets =
     [NetV4 0x7F000000 8, NetV6 1 128,
      NetV4 0x0A000000 8, NetV4 0xAC100000 12, NetV4 0xC0A80000 16,
      NetV4 0xA9FE0000 16, NetV6 0xFE800000000000000000000000000000 10,
      NetV4 0xC0000200 24, NetV4 0xC6336400 24, NetV4 0xCB007100 24,
      NetV4 0 8, NetV6 0 128,
      NetV4 0xE0000000 4, NetV6 0xFF000000000000000000000000000000 8,
      NetV6 0xFC000000000000000000000000000000 7]"

definition parses_protected :: "(string \<Rightarrow> ip_net option) \<Rightarrow> bool" where
  "parses_protected parse \<longleftrightarrow> List.map parse IMMUTABLE_PROTECTED = List.map Some protected_nets"

definition parse_ref :: "string \<Rightarrow> ip_net option" where
  "parse_ref = map_of (zip IMMUTABLE_PROTECTED protected_nets)"

lemma parse_ref_ok: "parses_protected parse_ref"
  by code_simp

lemma wl_new_immutable:
  assumes "parses_protected parse"
  shows "wl_immutable (wl_new parse) = protected_nets"
proof -
  have "List.map_filter parse xs = ys" if "List.map parse xs = List.map Some ys" for xs ys
    using that by (induction xs arbitrary: ys) (auto simp: List.map_filter_def)
  then show ?thesis using assms by (simp add: wl_new_def parses_protected_def)
qed

lemma protected_nets_ok: "list_all net_ok protected_nets"
  by (simp add: protected_nets_def)

lemma wl_new_wf: "parses_protected parse \<Longrightarrow> wl_wf (wl_new parse)"
  using protected_nets_ok wl_new_immutable
  by (simp add: wl_wf_def wl_nets_def) (simp add: wl_new_def)

section \<open>The tests are exact\<close>

context ipnet_spec
begin

lemma is_whitelisted_iff:
  "wl_wf wl \<Longrightarrow> is_whitelisted N ip wl \<longleftrightarrow> (\<exists>w \<in> set (wl_nets wl). in_net w ip)"
  by (auto simp: is_whitelisted_def is_immutably_protected_def list_ex_iff wl_wf_def wl_nets_def
      list_all_iff contains)

lemma overlaps_iff:
  "wl_wf wl \<Longrightarrow> net_ok n \<Longrightarrow>
   overlaps N n wl \<longleftrightarrow> (\<exists>ip. in_net n ip \<and> is_whitelisted N ip wl)"
  using contains_share [of _ n]
  by (fastforce simp: overlaps_def nets_overlap_def list_ex_iff wl_wf_def wl_nets_def list_all_iff
      is_whitelisted_iff)

lemma covers_iff:
  "wl_wf wl \<Longrightarrow> covers N n wl \<longleftrightarrow> (\<exists>w \<in> set (wl_nets wl). \<forall>ip. in_net n ip \<longrightarrow> in_net w ip)"
  unfolding covers_def list_ex_iff wl_nets_def [symmetric]
  by (intro bex_cong refl)
    (auto simp: wl_wf_def list_all_iff contains net_covers_iff [symmetric] net_covers_def word_le_nat_alt)

end

text \<open>
  C33: the overlap test for ban subjects is exact, in both directions of containment:
  a network overlaps the whitelist exactly when it contains a whitelisted address.
  So a subject that passes the test bans no whitelisted address, and no other
  subject is rejected.
\<close>

theorem overlaps_exact:
  assumes "ipnet_spec N" "wl_wf wl" "net_ok n"
  shows "overlaps N n wl \<longleftrightarrow> (\<exists>ip. in_net n ip \<and> is_whitelisted N ip wl)"
  by (rule ipnet_spec.overlaps_iff [OF assms])

definition ex_whitelist :: WhitelistManager where
  "ex_whitelist = wl_add (NetV4 0x08080808 32) (wl_new parse_ref)"

lemma ex_whitelist_wf: "wl_wf ex_whitelist"
  by (simp add: ex_whitelist_def wl_add_wf wl_new_wf parse_ref_ok)

theorem overlaps_exact_witness:
  "overlaps ipnet_ref (NetV4 0x08080800 24) ex_whitelist
   \<and> \<not> is_whitelisted ipnet_ref (IpV4 0x08080800) ex_whitelist
   \<and> (\<exists>ip. in_net (NetV4 0x08080800 24) ip \<and> is_whitelisted ipnet_ref ip ex_whitelist)"
proof (intro conjI)
  show 1: "overlaps ipnet_ref (NetV4 0x08080800 24) ex_whitelist" by code_simp
  show "\<not> is_whitelisted ipnet_ref (IpV4 0x08080800) ex_whitelist" by code_simp
  show "\<exists>ip. in_net (NetV4 0x08080800 24) ip \<and> is_whitelisted ipnet_ref ip ex_whitelist"
    using 1 by (simp add: overlaps_exact [OF ipref.ipnet_spec_axioms ex_whitelist_wf])
qed

text \<open>
  The configuration test \<open>covers\<close> holds exactly when one entry contains the whole
  network, which is stronger than an overlap.
\<close>

lemma covers_exact:
  assumes "ipnet_spec N" "wl_wf wl"
  shows "covers N n wl \<longleftrightarrow> (\<exists>w \<in> set (wl_immutable wl @ wl_entries wl). \<forall>ip. in_net n ip \<longrightarrow> in_net w ip)"
  using ipnet_spec.covers_iff [OF assms] by (simp add: wl_nets_def)

section \<open>The immutable layer\<close>

datatype wl_op = WlAdd ip_net | WlRemove ip_net

fun wl_step :: "wl_op \<Rightarrow> WhitelistManager \<Rightarrow> WhitelistManager" where
  "wl_step (WlAdd n) wl = wl_add n wl"
| "wl_step (WlRemove n) wl = snd (wl_remove n wl)"

lemma wl_steps_immutable [simp]: "wl_immutable (fold wl_step ops wl) = wl_immutable wl"
proof (induction ops arbitrary: wl)
  case (Cons op ops)
  then show ?case by (cases op) simp_all
qed simp

text \<open>
  C32: the protected ranges cannot be overridden. After any sequence of additions and
  removals, including the removal of a protected network itself, every address of
  loopback, the private ranges, link-local, the documentation ranges, multicast and
  unique-local IPv6 is whitelisted, and every network that contains one overlaps.
\<close>

theorem protected_never_removed:
  assumes "ipnet_spec N" "parses_protected parse" "w \<in> set protected_nets" "in_net w ip"
  shows "is_whitelisted N ip (fold wl_step ops (wl_new parse))
    \<and> (net_ok n \<and> in_net n ip \<longrightarrow> overlaps N n (fold wl_step ops (wl_new parse)))"
proof -
  let ?wl = "fold wl_step ops (wl_new parse)"
  have mem: "w \<in> set (wl_immutable ?wl)" using assms(2,3) by (simp add: wl_new_immutable)
  have ok: "net_ok w" using protected_nets_ok assms(3) by (auto simp: list_all_iff)
  have "is_whitelisted N ip ?wl"
    using mem ipnet_spec.contains [OF assms(1) ok, of ip] assms(4)
    by (auto simp: is_whitelisted_def is_immutably_protected_def list_ex_iff)
  moreover have "overlaps N n ?wl" if "net_ok n" "in_net n ip"
    using mem ipnet_spec.contains_share [OF assms(1) ok that(1)] assms(4) that(2)
    by (auto simp: overlaps_def nets_overlap_def list_ex_iff)
  ultimately show ?thesis by blast
qed

theorem protected_never_removed_witness:
  "is_whitelisted ipnet_ref (IpV4 0x0A010203)
     (fold wl_step [WlRemove (NetV4 0x0A000000 8), WlAdd (NetV4 0x08080808 32)] (wl_new parse_ref))
   \<and> overlaps ipnet_ref (NetV4 0x08000000 6)
     (fold wl_step [WlRemove (NetV4 0x0A000000 8), WlAdd (NetV4 0x08080808 32)] (wl_new parse_ref))"
proof -
  have "NetV4 0x0A000000 8 \<in> set protected_nets" by (simp add: protected_nets_def)
  moreover have "in_net (NetV4 0x0A000000 8) (IpV4 0x0A010203)"
    "in_net (NetV4 0x08000000 6) (IpV4 0x0A010203)" by code_simp+
  ultimately show ?thesis
    using protected_never_removed [OF ipref.ipnet_spec_axioms parse_ref_ok,
        where w = "NetV4 0x0A000000 8" and ip = "IpV4 0x0A010203" and n = "NetV4 0x08000000 6"
          and ops = "[WlRemove (NetV4 0x0A000000 8), WlAdd (NetV4 0x08080808 32)]"]
    by simp
qed

end
