(* ===== verification/Hlc.thy ===== *)
theory Hlc
  imports Prelude
begin

text \<open>
  The hybrid logical clock of \<open>hiveguard-core/src/hlc.rs\<close>. The wall clock each
  operation reads is its argument \<open>now_ms\<close>. A clock operation returns the new
  timestamp, which is both the new state and the value the code returns.
\<close>

record HlcTimestamp =
  wall_time_ms :: u64
  counter :: u32
  node_id_hash :: u32

definition hlc_now :: "u64 \<Rightarrow> u32 \<Rightarrow> HlcTimestamp" where
  "hlc_now now_ms nid = \<lparr>wall_time_ms = now_ms, counter = 0, node_id_hash = nid\<rparr>"

definition hlc_new :: "u64 \<Rightarrow> u32 \<Rightarrow> u32 \<Rightarrow> HlcTimestamp" where
  "hlc_new w c n = \<lparr>wall_time_ms = w, counter = c, node_id_hash = n\<rparr>"

text \<open>\<open>u32::from_le_bytes\<close> of the first four bytes of \<open>blake3(node_id)\<close>; the hash is a parameter.\<close>

definition hash_node_id :: "(string \<Rightarrow> byte list) \<Rightarrow> string \<Rightarrow> u32" where
  "hash_node_id blake3 node_id =
     (let b = blake3 node_id in
      ucast (b ! 0) OR push_bit 8 (ucast (b ! 1)) OR push_bit 16 (ucast (b ! 2))
        OR push_bit 24 (ucast (b ! 3)))"

definition tick :: "u64 \<Rightarrow> HlcTimestamp \<Rightarrow> HlcTimestamp" where
  "tick now_ms s =
     (if now_ms > wall_time_ms s then s\<lparr>wall_time_ms := now_ms, counter := 0\<rparr>
      else s\<lparr>counter := counter s + 1\<rparr>)"

definition MAX_SKEW_MS :: u64 where
  "MAX_SKEW_MS = 5 * 60 * 1000"

definition remote_wall :: "u64 \<Rightarrow> HlcTimestamp \<Rightarrow> u64" where
  "remote_wall now_ms remote =
     (if wall_time_ms remote > now_ms + MAX_SKEW_MS then now_ms + MAX_SKEW_MS
      else wall_time_ms remote)"

definition update :: "u64 \<Rightarrow> HlcTimestamp \<Rightarrow> HlcTimestamp \<Rightarrow> HlcTimestamp" where
  "update now_ms remote s =
     (let rw = remote_wall now_ms remote in
      if now_ms > wall_time_ms s \<and> now_ms > rw then
        s\<lparr>wall_time_ms := now_ms, counter := 0\<rparr>
      else if wall_time_ms s = rw then
        s\<lparr>counter := max (counter s) (counter remote) + 1\<rparr>
      else if rw > wall_time_ms s then
        s\<lparr>wall_time_ms := rw, counter := counter remote + 1\<rparr>
      else s\<lparr>counter := counter s + 1\<rparr>)"

definition is_within_skew :: "u64 \<Rightarrow> HlcTimestamp \<Rightarrow> bool" where
  "is_within_skew now_ms s =
     (let diff = (if wall_time_ms s > now_ms then wall_time_ms s - now_ms
                  else now_ms - wall_time_ms s)
      in diff \<le> MAX_SKEW_MS)"

text \<open>\<open>Ord::cmp\<close>: lexicographic with \<open>Ordering::then_with\<close>.\<close>

datatype ordering = Less | Equal | Greater

definition cmp :: "'a::linorder \<Rightarrow> 'a \<Rightarrow> ordering" where
  "cmp a b = (if a < b then Less else if a = b then Equal else Greater)"

fun then_with :: "ordering \<Rightarrow> ordering \<Rightarrow> ordering" where
  "then_with Equal o2 = o2"
| "then_with o1 o2 = o1"

definition hlc_cmp :: "'a HlcTimestamp_scheme \<Rightarrow> 'a HlcTimestamp_scheme \<Rightarrow> ordering" where
  "hlc_cmp a b =
     then_with (cmp (wall_time_ms a) (wall_time_ms b))
       (then_with (cmp (counter a) (counter b)) (cmp (node_id_hash a) (node_id_hash b)))"

section \<open>The order of timestamps\<close>

instantiation HlcTimestamp_ext :: (linorder) linorder
begin

definition less_eq_HlcTimestamp_ext :: "'a HlcTimestamp_ext \<Rightarrow> 'a HlcTimestamp_ext \<Rightarrow> bool" where
  "a \<le> b \<longleftrightarrow> (wall_time_ms a, counter a, node_id_hash a, HlcTimestamp.more a)
    \<le> (wall_time_ms b, counter b, node_id_hash b, HlcTimestamp.more b)"

definition less_HlcTimestamp_ext :: "'a HlcTimestamp_ext \<Rightarrow> 'a HlcTimestamp_ext \<Rightarrow> bool" where
  "a < b \<longleftrightarrow> (wall_time_ms a, counter a, node_id_hash a, HlcTimestamp.more a)
    < (wall_time_ms b, counter b, node_id_hash b, HlcTimestamp.more b)"

instance
  by standard (auto simp: less_eq_HlcTimestamp_ext_def less_HlcTimestamp_ext_def)

end

lemma hlc_less:
  "a < (b :: HlcTimestamp) \<longleftrightarrow>
     wall_time_ms a < wall_time_ms b
   \<or> wall_time_ms a = wall_time_ms b \<and> (counter a < counter b
   \<or> counter a = counter b \<and> node_id_hash a < node_id_hash b)"
  by (auto simp: less_HlcTimestamp_ext_def)

lemma hlc_le:
  "a \<le> (b :: HlcTimestamp) \<longleftrightarrow>
     wall_time_ms a < wall_time_ms b
   \<or> wall_time_ms a = wall_time_ms b \<and> (counter a < counter b
   \<or> counter a = counter b \<and> node_id_hash a \<le> node_id_hash b)"
  by (auto simp: less_eq_HlcTimestamp_ext_def)

text \<open>
  C38: the comparison \<open>HlcTimestamp::cmp\<close> of the code is a total order on
  timestamps: it is \<open>Less\<close>, \<open>Equal\<close> and \<open>Greater\<close> exactly when the first timestamp
  is below, equal to or above the second in one linear order, so two distinct
  timestamps are never tied.
\<close>

theorem hlc_cmp_total_order:
  fixes a b :: HlcTimestamp
  shows "hlc_cmp a b = (if a < b then Less else if a = b then Equal else Greater)"
proof -
  have "a = b \<longleftrightarrow> wall_time_ms a = wall_time_ms b \<and> counter a = counter b
      \<and> node_id_hash a = node_id_hash b"
    by auto
  then show ?thesis by (auto simp: hlc_cmp_def cmp_def hlc_less)
qed

section \<open>Monotonicity\<close>

lemma counter_succ_less: "c \<noteq> - 1 \<Longrightarrow> (c :: u32) < c + 1"
  by unat_arith (auto simp: unsigned_minus_1_eq_mask mask_eq_exp_minus_1)

text \<open>
  A local event advances the clock: as long as the logical counter is not
  exhausted, \<open>tick\<close> returns a timestamp strictly above the clock's previous value,
  on both branches, whether or not the wall clock moved (even if it ran backwards).
\<close>

lemma tick_increases:
  assumes "now_ms > wall_time_ms s \<or> counter s \<noteq> - 1"
  shows "s < tick now_ms s"
  using assms by (auto simp: tick_def hlc_less counter_succ_less)



text \<open>
  C36: a peer cannot drag the local clock into the future: whatever timestamp it
  sends, \<open>update\<close> leaves the wall component at most five minutes above the local
  wall clock, or where it already was.
\<close>

theorem update_bounded_skew:
  assumes "unat now_ms + unat MAX_SKEW_MS < 2 ^ 64"
  shows "wall_time_ms (update now_ms remote s) \<le> max (wall_time_ms s) (now_ms + MAX_SKEW_MS)"
proof -
  have "now_ms \<le> now_ms + MAX_SKEW_MS"
    using assms by (simp add: no_olen_add_nat word_le_nat_alt unat_word_ariths)
  then show ?thesis
    by (auto simp: update_def remote_wall_def Let_def le_max_iff_disj)
qed

theorem update_bounded_skew_witness:
  "wall_time_ms (update 1000 (hlc_new 99999999 5 2) (hlc_new 900 0 1))
     \<le> max (wall_time_ms (hlc_new 900 0 1)) (1000 + MAX_SKEW_MS)"
  by (rule update_bounded_skew) (simp add: MAX_SKEW_MS_def)

text \<open>
  The side condition on the counter is needed: when the wall clock does not
  advance and the counter is exhausted, the release build wraps it to zero and the
  clock goes backwards.
\<close>

lemma tick_wraps_backwards:
  assumes "now_ms \<le> wall_time_ms s" "counter s = - 1"
  shows "tick now_ms s < s"
  using assms by (auto simp: tick_def hlc_less word_gt_0)

lemma update_wraps_backwards:
  "update 900 (hlc_new 1000 (- 1) 2) (hlc_new 1000 3 1) < hlc_new 1000 3 1"
  by (simp add: update_def remote_wall_def hlc_new_def MAX_SKEW_MS_def hlc_less)

end
