(* ===== verification/Crdt.thy ===== *)
theory Crdt
  imports Hlc Net_Types
begin

text \<open>
  The replicated ban record of \<open>hiveguard-core/src/crdt.rs\<close> and the way the state
  manager folds received records into its CRDT store (\<open>add_crdt_ban\<close> and the WAL
  replay share \<open>crdt_apply\<close>). \<open>now_ms\<close> is the wall clock read by \<open>hlc.tick()\<close>.
\<close>

record CrdtBanRecord =
  cr_subject :: ip_net
  cr_first_seen :: HlcTimestamp
  cr_ban_until :: HlcTimestamp
  cr_severity :: u8
  cr_reporters :: "string fset"
  cr_evidence_hash :: "byte list"
  cr_reason :: string
  cr_tombstone_reporters :: "string fset"
  cr_tombstone :: bool
  cr_last_modified :: HlcTimestamp

definition TOMBSTONE_QUORUM :: nat where
  "TOMBSTONE_QUORUM = 2"

text \<open>The clock is an in-out parameter: the result pairs the record with the ticked clock.\<close>

definition crdt_new ::
  "u64 \<Rightarrow> ip_net \<Rightarrow> u8 \<Rightarrow> string \<Rightarrow> byte list \<Rightarrow> string \<Rightarrow> HlcTimestamp
    \<Rightarrow> CrdtBanRecord \<times> HlcTimestamp" where
  "crdt_new now_ms subject severity reason evidence_hash reporter hlc =
     (let now = tick now_ms hlc in
      (\<lparr>cr_subject = subject,
        cr_first_seen = now,
        cr_ban_until = hlc_new (wall_time_ms now + 24 * 3600 * 1000) 0 (node_id_hash now),
        cr_severity = severity,
        cr_reporters = {|reporter|},
        cr_evidence_hash = evidence_hash,
        cr_reason = reason,
        cr_tombstone_reporters = {||},
        cr_tombstone = False,
        cr_last_modified = now\<rparr>, now))"

definition crdt_merge :: "CrdtBanRecord \<Rightarrow> CrdtBanRecord \<Rightarrow> CrdtBanRecord option" where
  "crdt_merge self other =
     (if cr_subject self \<noteq> cr_subject other then None
      else
        let reason = (if cr_last_modified other > cr_last_modified self
                      then cr_reason other else cr_reason self);
            evidence_hash = (if cr_last_modified other > cr_last_modified self
                      then cr_evidence_hash other else cr_evidence_hash self);
            merged_tombstone_reporters = cr_tombstone_reporters self |\<union>| cr_tombstone_reporters other;
            tombstone = (fcard merged_tombstone_reporters \<ge> TOMBSTONE_QUORUM)
        in Some
          \<lparr>cr_subject = cr_subject self,
           cr_first_seen = min (cr_first_seen self) (cr_first_seen other),
           cr_ban_until = max (cr_ban_until self) (cr_ban_until other),
           cr_severity = max (cr_severity self) (cr_severity other),
           cr_reporters = cr_reporters self |\<union>| cr_reporters other,
           cr_evidence_hash = evidence_hash,
           cr_reason = reason,
           cr_tombstone_reporters = merged_tombstone_reporters,
           cr_tombstone = tombstone,
           cr_last_modified = max (cr_last_modified self) (cr_last_modified other)\<rparr>)"

definition is_active :: "u64 \<Rightarrow> CrdtBanRecord \<Rightarrow> bool" where
  "is_active current_time_ms r \<longleftrightarrow>
     \<not> cr_tombstone r \<and> wall_time_ms (cr_ban_until r) > current_time_ms"

definition crdt_tombstone ::
  "u64 \<Rightarrow> string \<Rightarrow> HlcTimestamp \<Rightarrow> CrdtBanRecord \<Rightarrow> CrdtBanRecord \<times> HlcTimestamp" where
  "crdt_tombstone now_ms node_id hlc r =
     (let trs = finsert node_id (cr_tombstone_reporters r); now = tick now_ms hlc in
      (r\<lparr>cr_tombstone_reporters := trs,
         cr_tombstone := (fcard trs \<ge> TOMBSTONE_QUORUM),
         cr_last_modified := now\<rparr>, now))"

definition extend_ban ::
  "u64 \<Rightarrow> u64 \<Rightarrow> HlcTimestamp \<Rightarrow> CrdtBanRecord \<Rightarrow> CrdtBanRecord \<times> HlcTimestamp" where
  "extend_ban now_ms additional_ms hlc r =
     (let bu = cr_ban_until r; now = tick now_ms hlc in
      (r\<lparr>cr_ban_until := bu\<lparr>wall_time_ms := wall_time_ms bu + additional_ms\<rparr>,
         cr_last_modified := now\<rparr>, now))"

text \<open>Merge a received record into the store, or store it if its subject is new.\<close>

definition crdt_apply ::
  "(ip_net, CrdtBanRecord) hmap \<Rightarrow> CrdtBanRecord \<Rightarrow> (ip_net, CrdtBanRecord) hmap" where
  "crdt_apply store record =
     (case hm_get store (cr_subject record) of
        Some existing \<Rightarrow>
          (case crdt_merge existing record of
             Some merged \<Rightarrow> hm_insert (cr_subject record) merged store
           | None \<Rightarrow> store)
      | None \<Rightarrow> hm_insert (cr_subject record) record store)"

section \<open>Well-formed records\<close>

text \<open>The tombstone flag is the quorum test on the tombstone votes.\<close>

definition crdt_wf :: "CrdtBanRecord \<Rightarrow> bool" where
  "crdt_wf r \<longleftrightarrow> (cr_tombstone r \<longleftrightarrow> fcard (cr_tombstone_reporters r) \<ge> TOMBSTONE_QUORUM)"

lemma crdt_new_wf: "crdt_wf (fst (crdt_new now_ms s sev rsn ev rep hlc))"
  by (simp add: crdt_wf_def crdt_new_def Let_def TOMBSTONE_QUORUM_def fcard.rep_eq)

lemma crdt_merge_wf: "crdt_merge a b = Some m \<Longrightarrow> crdt_wf m"
  by (auto simp: crdt_wf_def crdt_merge_def Let_def split: if_splits)

lemma crdt_tombstone_wf: "crdt_wf (fst (crdt_tombstone now_ms nid hlc r))"
  by (simp add: crdt_wf_def crdt_tombstone_def Let_def)

lemma extend_ban_wf: "crdt_wf r \<Longrightarrow> crdt_wf (fst (extend_ban now_ms add hlc r))"
  by (simp add: crdt_wf_def extend_ban_def Let_def)

lemmas crdt_wf_intros = crdt_new_wf crdt_merge_wf crdt_tombstone_wf extend_ban_wf

section \<open>Merge is a join\<close>

text \<open>The record both sides agree on, for records about one subject.\<close>

definition crdt_join :: "CrdtBanRecord \<Rightarrow> CrdtBanRecord \<Rightarrow> CrdtBanRecord" where
  "crdt_join a b = (case crdt_merge a b of Some m \<Rightarrow> m | None \<Rightarrow> a)"

lemma crdt_merge_None: "crdt_merge a b = None \<longleftrightarrow> cr_subject a \<noteq> cr_subject b"
  by (simp add: crdt_merge_def Let_def)

lemma crdt_merge_Some: "cr_subject a = cr_subject b \<Longrightarrow> crdt_merge a b = Some (crdt_join a b)"
  by (simp add: crdt_merge_def crdt_join_def Let_def)

lemma crdt_join_fields [simp]:
  assumes "cr_subject a = cr_subject b"
  shows "cr_subject (crdt_join a b) = cr_subject b"
    and "cr_first_seen (crdt_join a b) = min (cr_first_seen a) (cr_first_seen b)"
    and "cr_ban_until (crdt_join a b) = max (cr_ban_until a) (cr_ban_until b)"
    and "cr_severity (crdt_join a b) = max (cr_severity a) (cr_severity b)"
    and "cr_reporters (crdt_join a b) = cr_reporters a |\<union>| cr_reporters b"
    and "cr_tombstone_reporters (crdt_join a b) =
           cr_tombstone_reporters a |\<union>| cr_tombstone_reporters b"
    and "cr_tombstone (crdt_join a b) \<longleftrightarrow>
           fcard (cr_tombstone_reporters a |\<union>| cr_tombstone_reporters b) \<ge> TOMBSTONE_QUORUM"
    and "cr_last_modified (crdt_join a b) = max (cr_last_modified a) (cr_last_modified b)"
    and "cr_reason (crdt_join a b) =
           (if cr_last_modified b > cr_last_modified a then cr_reason b else cr_reason a)"
    and "cr_evidence_hash (crdt_join a b) =
           (if cr_last_modified b > cr_last_modified a then cr_evidence_hash b else cr_evidence_hash a)"
  using assms by (simp_all add: crdt_merge_def crdt_join_def Let_def)

lemma crdt_eqI:
  fixes a b :: CrdtBanRecord
  assumes "cr_subject a = cr_subject b" "cr_first_seen a = cr_first_seen b"
    "cr_ban_until a = cr_ban_until b" "cr_severity a = cr_severity b"
    "cr_reporters a = cr_reporters b" "cr_evidence_hash a = cr_evidence_hash b"
    "cr_reason a = cr_reason b" "cr_tombstone_reporters a = cr_tombstone_reporters b"
    "cr_tombstone a = cr_tombstone b" "cr_last_modified a = cr_last_modified b"
  shows "a = b"
  using assms by (intro CrdtBanRecord.equality) simp_all

lemma latest_assoc:
  fixes x y z :: "'a::linorder"
  shows "(if max x y < z then rz else if x < y then ry else rx) =
         (if x < max y z then if y < z then rz else ry else rx)"
  by (cases "x < y"; cases "y < z"; cases "x < z") (auto simp: max_def)

lemma crdt_join_assoc:
  assumes "cr_subject a = cr_subject b" "cr_subject b = cr_subject c"
  shows "crdt_join (crdt_join a b) c = crdt_join a (crdt_join b c)"
  using assms
  by (intro crdt_eqI) (simp_all only: crdt_join_fields latest_assoc min.assoc max.assoc sup_assoc)

text \<open>
  Merging is associative on every field, reason and evidence included: when
  the three records are about one subject both groupings return the same record,
  and otherwise both refuse.
\<close>

lemma crdt_merge_assoc:
  "Option.bind (crdt_merge a b) (\<lambda>ab. crdt_merge ab c) =
   Option.bind (crdt_merge b c) (\<lambda>bc. crdt_merge a bc)"
proof (cases "cr_subject a = cr_subject b \<and> cr_subject b = cr_subject c")
  case True
  then show ?thesis by (simp add: crdt_merge_Some crdt_join_assoc)
next
  case False
  then show ?thesis
    by (cases "crdt_merge a b"; cases "crdt_merge b c")
      (auto simp: crdt_merge_def Let_def split: if_splits)
qed

lemma crdt_join_commute:
  assumes "cr_subject a = cr_subject b"
    and "cr_last_modified a = cr_last_modified b \<Longrightarrow>
      cr_reason a = cr_reason b \<and> cr_evidence_hash a = cr_evidence_hash b"
  shows "crdt_join a b = crdt_join b a"
proof -
  have "cr_last_modified a < cr_last_modified b \<or> cr_last_modified b < cr_last_modified a
      \<or> cr_last_modified a = cr_last_modified b"
    by (rule linorder_less_linear [THEN disjE]) auto
  then show ?thesis
    using assms by (intro crdt_eqI) (auto simp: min.commute max.commute sup_commute)
qed

lemma crdt_join_idem: "crdt_wf a \<Longrightarrow> crdt_join a a = a"
  by (intro crdt_eqI) (auto simp: crdt_wf_def)


text \<open>Two concrete records about one host, written by two nodes at one instant.\<close>

definition ex_net :: ip_net where
  "ex_net = NetV4 0x08080808 32"

definition ex_record :: "string \<Rightarrow> u32 \<Rightarrow> u8 \<Rightarrow> CrdtBanRecord" where
  "ex_record node nid sev = fst (crdt_new 2000 ex_net sev node [] node (hlc_new 1000 0 nid))"

lemma ex_record_simps [simp]:
  "cr_subject (ex_record node nid sev) = ex_net"
  "cr_last_modified (ex_record node nid sev) = hlc_new 2000 0 nid"
  "crdt_wf (ex_record node nid sev)"
  "cr_reason (ex_record node nid sev) = node"
  "cr_evidence_hash (ex_record node nid sev) = []"
  by (simp_all add: ex_record_def crdt_new_wf) (simp_all add: crdt_new_def tick_def hlc_new_def Let_def)


section \<open>Convergence\<close>

text \<open>
  The carrier of one subject: well-formed records whose reason and evidence are
  determined by the timestamp of their last write (\<open>f\<close>), which holds when clocks
  carry distinct node hashes and tick on every write.
\<close>

definition crdt_carrier ::
  "ip_net \<Rightarrow> (HlcTimestamp \<Rightarrow> string \<times> byte list) \<Rightarrow> CrdtBanRecord set" where
  "crdt_carrier s f =
     {r. cr_subject r = s \<and> crdt_wf r \<and> f (cr_last_modified r) = (cr_reason r, cr_evidence_hash r)}"

interpretation crdt_join: replica_join "crdt_carrier s f" crdt_join for s f
proof
  fix a b c
  assume a: "a \<in> crdt_carrier s f" and b: "b \<in> crdt_carrier s f"
  then have s: "cr_subject a = cr_subject b" by (simp add: crdt_carrier_def)
  show "crdt_join a b \<in> crdt_carrier s f"
    using a b s crdt_merge_wf [OF crdt_merge_Some [OF s]]
    by (auto simp: crdt_carrier_def max_def not_less split: if_splits)
  show "crdt_join a b = crdt_join b a"
    using a b s by (intro crdt_join_commute) (auto simp: crdt_carrier_def)
  show "crdt_join a a = a" using a by (simp add: crdt_carrier_def crdt_join_idem)
  assume "c \<in> crdt_carrier s f"
  then show "crdt_join (crdt_join a b) c = crdt_join a (crdt_join b c)"
    using b s by (intro crdt_join_assoc) (simp_all add: crdt_carrier_def)
qed

text \<open>What a store holds for one subject after a run of deliveries.\<close>

fun deliver_subject :: "CrdtBanRecord option \<Rightarrow> CrdtBanRecord list \<Rightarrow> CrdtBanRecord option" where
  "deliver_subject None [] = None"
| "deliver_subject None (r # rs) = Some (foldl crdt_join r rs)"
| "deliver_subject (Some e) rs = Some (foldl crdt_join e rs)"

lemma crdt_apply_get:
  "hm_get (crdt_apply st r) s =
   (if s = cr_subject r
    then Some (case hm_get st s of None \<Rightarrow> r | Some e \<Rightarrow> crdt_join e r)
    else hm_get st s)"
  by (auto simp: crdt_apply_def crdt_join_def split: option.splits)

lemma crdt_apply_foldl_get:
  "hm_get (foldl crdt_apply st rs) s =
   deliver_subject (hm_get st s) (filter (\<lambda>r. cr_subject r = s) rs)"
proof (induction rs arbitrary: st)
  case Nil
  then show ?case by (cases "hm_get st s") auto
next
  case (Cons r rs)
  then show ?case by (cases "hm_get st s") (auto simp: crdt_apply_get)
qed

lemma deliver_subject_converge:
  assumes "set xs \<subseteq> crdt_carrier s f" "set ys = set xs"
  shows "deliver_subject None xs = deliver_subject None ys"
proof (cases xs; cases ys)
  fix x xs' y ys'
  assume xy: "xs = x # xs'" "ys = y # ys'"
  with assms have "foldl crdt_join x xs' = foldl crdt_join y ys'"
    by (intro crdt_join.converge [of _ s f]) auto
  with xy show ?thesis by simp
qed (use assms in auto)



section \<open>What a merge can and cannot do\<close>

text \<open>
  A merge never weakens a ban: it keeps every reporter and every tombstone vote
  of both sides, does not shorten the ban, lower the severity or move the first
  sighting later, and it is inactive only when it expired or a quorum of distinct
  nodes voted for the tombstone.
\<close>

lemma crdt_merge_upper_bound:
  assumes "crdt_merge a b = Some m"
  shows "cr_reporters a |\<union>| cr_reporters b |\<subseteq>| cr_reporters m
    \<and> cr_tombstone_reporters a |\<union>| cr_tombstone_reporters b |\<subseteq>| cr_tombstone_reporters m
    \<and> cr_ban_until a \<le> cr_ban_until m \<and> cr_ban_until b \<le> cr_ban_until m
    \<and> cr_severity a \<le> cr_severity m \<and> cr_severity b \<le> cr_severity m
    \<and> cr_first_seen m \<le> cr_first_seen a \<and> cr_first_seen m \<le> cr_first_seen b
    \<and> (is_active t m \<longleftrightarrow>
         max (wall_time_ms (cr_ban_until a)) (wall_time_ms (cr_ban_until b)) > t
         \<and> fcard (cr_tombstone_reporters a |\<union>| cr_tombstone_reporters b) < 2)"
proof -
  have s: "cr_subject a = cr_subject b"
    using assms by (metis crdt_merge_None option.discI)
  then have m: "m = crdt_join a b" using assms by (simp add: crdt_merge_Some)
  have "wall_time_ms (max x y) = max (wall_time_ms x) (wall_time_ms y)" for x y :: HlcTimestamp
    by (auto simp: max_def hlc_le)
  then show ?thesis
    using s by (auto simp: m is_active_def TOMBSTONE_QUORUM_def)
qed

text \<open>
  Everything but the flag of one record is below that of another. Merging a record
  into one above it only recomputes the flag.
\<close>

definition crdt_le :: "CrdtBanRecord \<Rightarrow> CrdtBanRecord \<Rightarrow> bool" where
  "crdt_le r y \<longleftrightarrow> cr_subject r = cr_subject y \<and> cr_first_seen y \<le> cr_first_seen r
     \<and> cr_ban_until r \<le> cr_ban_until y \<and> cr_severity r \<le> cr_severity y
     \<and> cr_reporters r |\<subseteq>| cr_reporters y \<and> cr_tombstone_reporters r |\<subseteq>| cr_tombstone_reporters y
     \<and> cr_last_modified r \<le> cr_last_modified y"

definition crdt_quorum :: "CrdtBanRecord \<Rightarrow> bool" where
  "crdt_quorum r \<longleftrightarrow> fcard (cr_tombstone_reporters r) \<ge> TOMBSTONE_QUORUM"

lemma crdt_le_refl [simp]: "crdt_le r r"
  by (simp add: crdt_le_def)

lemma crdt_le_trans: "crdt_le a b \<Longrightarrow> crdt_le b c \<Longrightarrow> crdt_le a c"
  by (auto simp: crdt_le_def)

lemma crdt_le_flag [simp]:
  "crdt_le r (y\<lparr>cr_tombstone := b\<rparr>) = crdt_le r y" "crdt_le (r\<lparr>cr_tombstone := b\<rparr>) y = crdt_le r y"
  by (simp_all add: crdt_le_def)

lemma crdt_le_join:
  assumes "cr_subject a = cr_subject b"
  shows "crdt_le a (crdt_join a b)" "crdt_le b (crdt_join a b)"
  using assms by (auto simp: crdt_le_def)

lemma crdt_merge_absorb:
  assumes "crdt_le r y"
  shows "crdt_merge (y\<lparr>cr_tombstone := b\<rparr>) r = Some (y\<lparr>cr_tombstone := crdt_quorum y\<rparr>)"
proof -
  have s: "cr_subject (y\<lparr>cr_tombstone := b\<rparr>) = cr_subject r"
    and u: "cr_reporters y |\<union>| cr_reporters r = cr_reporters y"
      "cr_tombstone_reporters y |\<union>| cr_tombstone_reporters r = cr_tombstone_reporters y"
    using assms by (auto simp: crdt_le_def)
  have "crdt_join (y\<lparr>cr_tombstone := b\<rparr>) r = y\<lparr>cr_tombstone := crdt_quorum y\<rparr>"
    using assms s u by (intro crdt_eqI) (auto simp: crdt_le_def crdt_quorum_def min_def max_def)
  then show ?thesis using crdt_merge_Some [OF s] by simp
qed

text \<open>
  A flag set without votes does not survive replication: merging any record with
  fewer than two votes in total clears it. The state manager's
  \<open>tombstone_crdt_ban\<close> sets the flag in this way.
\<close>

lemma merge_drops_voteless_tombstone:
  assumes "cr_subject a = cr_subject b" "cr_tombstone_reporters a = {||}"
    "fcard (cr_tombstone_reporters b) < 2" "crdt_merge (a\<lparr>cr_tombstone := True\<rparr>) b = Some m"
  shows "\<not> cr_tombstone m"
proof -
  have "m = crdt_join (a\<lparr>cr_tombstone := True\<rparr>) b"
    using assms(1,4) crdt_merge_Some [of "a\<lparr>cr_tombstone := True\<rparr>" b] by simp
  then show ?thesis using assms(1-3) by (simp add: TOMBSTONE_QUORUM_def)
qed

end
