(* ===== verification/Wal.thy ===== *)
theory Wal
  imports Codec Models Crdt "HOL-Library.Sublist"
begin

text \<open>
  The write-ahead log of \<open>hiveguard-core/src/persistence/wal.rs\<close> down to the bytes of
  the file. \<open>postcard\<close> is the codec argument \<open>C\<close>, \<open>crc32fast::hash\<close> the argument \<open>crc\<close>.

  The outcome of the system calls of an append is an argument: \<open>IoOk\<close>, or \<open>IoFail n\<close>
  when an error was returned after \<open>n\<close> bytes of the record had been written (all of
  them when \<open>sync_data\<close> failed). \<open>wal_durable\<close> counts the leading bytes that a
  successful \<open>sync_data\<close> has put on stable storage: a power failure keeps at least
  these, and a prefix of the rest. Reads of the file deliver its bytes or end of
  file.
\<close>

datatype WalEntry =
    AddBan BanRecord
  | RemoveBan ip_net
  | AddWhitelist ip_net
  | RemoveWhitelist ip_net
  | AddCrdtBan CrdtBanRecord
  | TombstoneCrdtBan ip_net
  | RevokeBan ip_net instant

datatype WalSyncMode = Fdatasync | Sync | SyncNone

definition wal_sync_mode_from_str :: "string \<Rightarrow> WalSyncMode" where
  "wal_sync_mode_from_str s =
     (if s = ''sync'' then Sync else if s = ''none'' then SyncNone else Fdatasync)"

definition WAL_MAX_RECORD_SIZE :: nat where
  "WAL_MAX_RECORD_SIZE = 16 * 1024 * 1024"

record WalWriter =
  wal_file :: "byte list"
  wal_durable :: nat
  sync_mode :: WalSyncMode
  write_failed :: bool

datatype io_outcome = IoOk | IoFail nat

function replay_loop ::
    "'e codec \<Rightarrow> (byte list \<Rightarrow> u32) \<Rightarrow> byte list \<Rightarrow> 'e list \<Rightarrow> nat \<Rightarrow> 'e list \<times> nat" where
  "replay_loop C crc file entries valid_end =
     (case read_exact 4 file of
        None \<Rightarrow> (entries, valid_end)
      | Some (len_buf, file1) \<Rightarrow>
          (let len = unat (u32_from_le_bytes len_buf) in
           if len > WAL_MAX_RECORD_SIZE then (entries, valid_end)
           else case read_exact len file1 of
             None \<Rightarrow> (entries, valid_end)
           | Some (payload, file2) \<Rightarrow>
               (case read_exact 4 file2 of
                  None \<Rightarrow> (entries, valid_end)
                | Some (crc_buf, file3) \<Rightarrow>
                    if u32_from_le_bytes crc_buf \<noteq> crc payload then (entries, valid_end)
                    else case decode C payload of
                      Some (entry, []) \<Rightarrow>
                        replay_loop C crc file3 (entries @ [entry]) (valid_end + (4 + len + 4))
                    | Some (_, _ # _) \<Rightarrow> (entries, valid_end)
                    | None \<Rightarrow> (entries, valid_end))))"
  by pat_completeness auto
termination
  by (relation "measure (\<lambda>(C, crc, file, entries, valid_end). length file)")
    (auto dest!: read_exact_SomeD)

declare replay_loop.simps [simp del]

definition replay_with_offset ::
    "'e codec \<Rightarrow> (byte list \<Rightarrow> u32) \<Rightarrow> byte list option \<Rightarrow> 'e list \<times> nat" where
  "replay_with_offset C crc path =
     (case path of None \<Rightarrow> ([], 0) | Some file \<Rightarrow> replay_loop C crc file [] 0)"

definition wal_replay :: "'e codec \<Rightarrow> (byte list \<Rightarrow> u32) \<Rightarrow> byte list option \<Rightarrow> 'e list" where
  "wal_replay C crc path = fst (replay_with_offset C crc path)"

definition replay_strict ::
    "'e codec \<Rightarrow> (byte list \<Rightarrow> u32) \<Rightarrow> byte list option \<Rightarrow> 'e list result" where
  "replay_strict C crc path =
     (case path of
        None \<Rightarrow> Inl EIo
      | Some file \<Rightarrow>
          (let (entries, valid_end) = replay_with_offset C crc path
           in if valid_end \<noteq> length file then Inl EStorage else Inr entries))"

text \<open>\<open>disk\<close> is the file before the call with its durable length, \<open>None\<close> when it does not exist.\<close>

definition wal_open ::
    "'e codec \<Rightarrow> (byte list \<Rightarrow> u32) \<Rightarrow> (byte list \<times> nat) option \<Rightarrow> WalSyncMode \<Rightarrow> WalWriter" where
  "wal_open C crc disk mode =
     (let (file, durable) = (case disk of None \<Rightarrow> ([], 0) | Some d \<Rightarrow> d);
          (_, valid_end) = replay_with_offset C crc (Some file)
      in if length file \<noteq> valid_end
         then \<lparr>wal_file = take valid_end file, wal_durable = valid_end, sync_mode = mode,
               write_failed = False\<rparr>
         else \<lparr>wal_file = file, wal_durable = durable, sync_mode = mode, write_failed = False\<rparr>)"

definition wal_frame :: "(byte list \<Rightarrow> u32) \<Rightarrow> byte list \<Rightarrow> byte list" where
  "wal_frame crc payload =
     u32_to_le_bytes (of_nat (length payload)) @ payload @ u32_to_le_bytes (crc payload)"

definition wal_append ::
    "'e codec \<Rightarrow> (byte list \<Rightarrow> u32) \<Rightarrow> io_outcome \<Rightarrow> 'e \<Rightarrow> WalWriter \<Rightarrow> unit result \<times> WalWriter" where
  "wal_append C crc io entry w =
     (if write_failed w then (Inl EStorage, w)
      else case encode C entry of
        None \<Rightarrow> (Inl EStorage, w)
      | Some payload \<Rightarrow>
          if length payload > WAL_MAX_RECORD_SIZE then (Inl EStorage, w)
          else
            let record = wal_frame crc payload in
            case io of
              IoOk \<Rightarrow>
                let file = wal_file w @ record in
                (Inr (), w\<lparr>wal_file := file,
                           wal_durable := (if sync_mode w \<noteq> SyncNone then length file else wal_durable w)\<rparr>)
            | IoFail n \<Rightarrow>
                (Inl EIo, w\<lparr>wal_file := wal_file w @ take n record, write_failed := True\<rparr>))"

text \<open>The outcome of \<open>truncate\<close>: the open fails, the sync after it fails, or both succeed.\<close>

datatype trunc_outcome = TruncOk | TruncOpenFailed | TruncSyncFailed

definition wal_truncate :: "trunc_outcome \<Rightarrow> WalWriter \<Rightarrow> unit result \<times> WalWriter" where
  "wal_truncate io w =
     (case io of
        TruncOpenFailed \<Rightarrow> (Inl EIo, w)
      | TruncSyncFailed \<Rightarrow> (Inl EIo, w\<lparr>wal_file := [], wal_durable := 0\<rparr>)
      | TruncOk \<Rightarrow> (Inr (), w\<lparr>wal_file := [], wal_durable := 0, write_failed := False\<rparr>))"

definition wal_flush :: "bool \<Rightarrow> WalWriter \<Rightarrow> unit result \<times> WalWriter" where
  "wal_flush ok w =
     (if \<not> ok then (Inl EIo, w)
      else if sync_mode w \<noteq> SyncNone then (Inr (), w\<lparr>wal_durable := length (wal_file w)\<rparr>)
      else (Inr (), w))"

section \<open>Replaying a file\<close>

text \<open>One turn of the loop: the next whole record, with its length and the bytes after it.\<close>

definition next_record ::
    "'e codec \<Rightarrow> (byte list \<Rightarrow> u32) \<Rightarrow> byte list \<Rightarrow> ('e \<times> nat \<times> byte list) option" where
  "next_record C crc file =
     (case read_exact 4 file of
        None \<Rightarrow> None
      | Some (len_buf, file1) \<Rightarrow>
          (let len = unat (u32_from_le_bytes len_buf) in
           if len > WAL_MAX_RECORD_SIZE then None
           else case read_exact len file1 of
             None \<Rightarrow> None
           | Some (payload, file2) \<Rightarrow>
               (case read_exact 4 file2 of
                  None \<Rightarrow> None
                | Some (crc_buf, file3) \<Rightarrow>
                    if u32_from_le_bytes crc_buf \<noteq> crc payload then None
                    else case decode C payload of
                      Some (entry, []) \<Rightarrow> Some (entry, 4 + len + 4, file3)
                    | _ \<Rightarrow> None)))"

lemma replay_loop_next:
  "replay_loop C crc file entries v =
     (case next_record C crc file of
        None \<Rightarrow> (entries, v)
      | Some (e, n, rest) \<Rightarrow> replay_loop C crc rest (entries @ [e]) (v + n))"
  by (subst replay_loop.simps) (simp add: next_record_def Let_def split: option.splits list.splits)

lemma next_record_SomeD:
  assumes "next_record C crc file = Some (e, n, rest)"
  shows "\<exists>xs. file = xs @ rest \<and> length xs = n \<and> 0 < n
    \<and> (\<forall>ys. next_record C crc (xs @ ys) = Some (e, n, ys))
    \<and> (\<forall>k < n. next_record C crc (take k xs) = None)"
proof -
  obtain l f1 p f2 c where r: "read_exact 4 file = Some (l, f1)"
    "read_exact (unat (u32_from_le_bytes l)) f1 = Some (p, f2)" "read_exact 4 f2 = Some (c, rest)"
    and ok: "unat (u32_from_le_bytes l) \<le> WAL_MAX_RECORD_SIZE" "u32_from_le_bytes c = crc p"
      "decode C p = Some (e, [])" "n = 4 + unat (u32_from_le_bytes l) + 4"
    using assms by (auto simp: next_record_def Let_def split: option.splits if_splits list.splits)
  note d = read_exact_SomeD [OF r(1)] read_exact_SomeD [OF r(2)] read_exact_SomeD [OF r(3)]
  show ?thesis
  proof (intro exI conjI allI impI)
    show "file = (l @ p @ c) @ rest" "length (l @ p @ c) = n" "0 < n" using d ok by auto
    show "next_record C crc ((l @ p @ c) @ ys) = Some (e, n, ys)" for ys
      using d ok by (simp add: next_record_def Let_def)
    show "next_record C crc (take k (l @ p @ c)) = None" if "k < n" for k
      using d ok that
      by (auto simp: next_record_def Let_def read_exact_take split: option.splits if_splits)
        (auto simp: read_exact_def split: if_splits)
  qed
qed

lemma replay_loop_acc:
  "replay_loop C crc bytes acc v =
     (acc @ fst (replay_loop C crc bytes [] 0), v + snd (replay_loop C crc bytes [] 0))"
proof (induction "length bytes" arbitrary: bytes acc v rule: less_induct)
  case less
  show ?case
  proof (cases "next_record C crc bytes")
    case None
    then show ?thesis by (simp add: replay_loop_next [of C crc bytes])
  next
    case (Some r)
    obtain e n rest where r: "r = (e, n, rest)" by (cases r)
    have "length rest < length bytes" using next_record_SomeD [OF Some [unfolded r]] by fastforce
    from less [OF this, of "acc @ [e]" "v + n"] less [OF this, of "[e]" n]
    show ?thesis using Some r by (simp add: replay_loop_next [of C crc bytes])
  qed
qed

text \<open>
  \<open>wal_prefix C crc bs es\<close>: the bytes \<open>bs\<close> are whole records of the entries \<open>es\<close>, whatever
  follows them.
\<close>

definition wal_prefix :: "'e codec \<Rightarrow> (byte list \<Rightarrow> u32) \<Rightarrow> byte list \<Rightarrow> 'e list \<Rightarrow> bool" where
  "wal_prefix C crc bs es \<longleftrightarrow> (\<forall>rest acc v.
     replay_loop C crc (bs @ rest) acc v = replay_loop C crc rest (acc @ es) (v + length bs))"

lemma replay_loop_Nil [simp]: "replay_loop C crc [] acc v = (acc, v)"
  by (subst replay_loop.simps) (simp add: read_exact_def)

lemma wal_prefix_Nil [simp]: "wal_prefix C crc [] []"
  by (simp add: wal_prefix_def)

lemma wal_prefix_append:
  "wal_prefix C crc as es \<Longrightarrow> wal_prefix C crc bs fs \<Longrightarrow> wal_prefix C crc (as @ bs) (es @ fs)"
  by (simp add: wal_prefix_def add.assoc)

lemma wal_prefix_replay:
  assumes "wal_prefix C crc bs es"
  shows "replay_with_offset C crc (Some (bs @ rest)) =
    (es @ fst (replay_loop C crc rest [] 0), length bs + snd (replay_loop C crc rest [] 0))"
  using assms replay_loop_acc [of C crc rest es "length bs"]
  by (simp add: replay_with_offset_def wal_prefix_def)

lemma wal_prefix_record:
  assumes "next_record C crc (xs @ ys) = Some (e, n, ys)"
  shows "wal_prefix C crc xs [e]"
proof -
  have "length xs = n" "\<And>zs. next_record C crc (xs @ zs) = Some (e, n, zs)"
    using next_record_SomeD [OF assms] by auto
  then show ?thesis by (auto simp: wal_prefix_def replay_loop_next [of C crc "xs @ _"])
qed

text \<open>The loop reads whole records, and the offset it returns is where they end.\<close>

lemma replay_valid_prefix:
  assumes "replay_loop C crc bytes [] 0 = (es, v)"
  shows "v \<le> length bytes \<and> wal_prefix C crc (take v bytes) es \<and> next_record C crc (drop v bytes) = None"
  using assms
proof (induction "length bytes" arbitrary: bytes es v rule: less_induct)
  case less
  show ?case
  proof (cases "next_record C crc bytes")
    case None
    then show ?thesis using less.prems by (simp add: replay_loop_next [of C crc bytes])
  next
    case (Some r)
    obtain e n rest where r: "r = (e, n, rest)" by (cases r)
    obtain xs where xs: "bytes = xs @ rest" "length xs = n" "0 < n"
      using next_record_SomeD [OF Some [unfolded r]] by blast
    obtain es' v' where rec: "replay_loop C crc rest [] 0 = (es', v')" by fastforce
    have eq: "es = e # es'" "v = n + v'"
      using less.prems Some r rec replay_loop_acc [of C crc rest "[e]" n]
      by (simp_all add: replay_loop_next [of C crc bytes])
    have "wal_prefix C crc xs [e]"
      using wal_prefix_record [of C crc xs rest e n] Some r xs(1) by simp
    moreover have "v' \<le> length rest \<and> wal_prefix C crc (take v' rest) es'
        \<and> next_record C crc (drop v' rest) = None"
      using less.hyps [of rest es' v'] rec xs by simp
    ultimately show ?thesis
      using xs eq wal_prefix_append [of C crc xs "[e]" "take v' rest" es'] by simp
  qed
qed

text \<open>Cutting the file anywhere leaves a prefix of the entries.\<close>

lemma replay_append_prefix:
  "prefix (fst (replay_loop C crc bytes [] 0)) (fst (replay_loop C crc (bytes @ ys) [] 0))"
proof (induction "length bytes" arbitrary: bytes rule: less_induct)
  case less
  show ?case
  proof (cases "next_record C crc bytes")
    case None
    then show ?thesis by (simp add: replay_loop_next [of C crc bytes])
  next
    case (Some r)
    obtain e n rest where r: "r = (e, n, rest)" by (cases r)
    obtain xs where xs: "bytes = xs @ rest" "length xs = n" "0 < n"
      and nx: "\<And>ys. next_record C crc (xs @ ys) = Some (e, n, ys)"
      using next_record_SomeD [OF Some [unfolded r]] by blast
    have "prefix (fst (replay_loop C crc rest [] 0)) (fst (replay_loop C crc (rest @ ys) [] 0))"
      using less xs by simp
    then show ?thesis
      using replay_loop_acc [of C crc rest "[e]" n] replay_loop_acc [of C crc "rest @ ys" "[e]" n]
      by (simp add: xs(1) nx replay_loop_next [of C crc "xs @ rest"]
          replay_loop_next [of C crc "xs @ rest @ ys"])
  qed
qed

lemma replay_take_prefix:
  "prefix (fst (replay_loop C crc (take k bytes) [] 0)) (fst (replay_loop C crc bytes [] 0))"
  using replay_append_prefix [of C crc "take k bytes" "drop k bytes"] by simp

context codec_spec
begin

lemma wal_frame_next:
  assumes "encode C e = Some p" "length p \<le> WAL_MAX_RECORD_SIZE"
  shows "next_record C crc (wal_frame crc p @ ys) = Some (e, length (wal_frame crc p), ys)"
proof -
  have "unat (word_of_nat (length p) :: u32) = length p"
    using assms(2) by (simp add: unat_of_nat WAL_MAX_RECORD_SIZE_def)
  then show ?thesis
    using assms decode_whole [OF assms(1)] by (simp add: next_record_def wal_frame_def Let_def)
qed

lemma wal_frame_prefix:
  assumes "encode C e = Some p" "length p \<le> WAL_MAX_RECORD_SIZE"
  shows "wal_prefix C crc (wal_frame crc p) [e]"
  by (rule wal_prefix_record [OF wal_frame_next [OF assms]])

lemma torn_frame:
  assumes "encode C e = Some p" "length p \<le> WAL_MAX_RECORD_SIZE" "k < length (wal_frame crc p)"
  shows "replay_loop C crc (take k (wal_frame crc p)) [] 0 = ([], 0)"
proof -
  have "next_record C crc (take k (wal_frame crc p)) = None"
    using next_record_SomeD [OF wal_frame_next [OF assms(1,2), of crc "[]"]] assms(3) by auto
  then show ?thesis by (simp add: replay_loop_next)
qed

lemma torn_frame_replay:
  assumes "encode C e = Some p" "length p \<le> WAL_MAX_RECORD_SIZE"
  shows "fst (replay_loop C crc (take k (wal_frame crc p)) [] 0) \<in> {[], [e]}"
proof (cases "k < length (wal_frame crc p)")
  case True
  then show ?thesis by (simp add: torn_frame [OF assms])
next
  case False
  then show ?thesis
    using wal_prefix_replay [OF wal_frame_prefix [OF assms, of crc], of "[]"]
    by (simp add: replay_with_offset_def)
qed

end

section \<open>Crash safety\<close>

text \<open>
  Runs of a writer: appends and flushes with any outcome. The entries whose append
  returned \<open>Ok\<close> are collected.
\<close>

datatype 'e wal_op = WAppend 'e io_outcome | WFlush bool

fun wal_step :: "'e codec \<Rightarrow> (byte list \<Rightarrow> u32) \<Rightarrow> 'e wal_op \<Rightarrow> 'e list \<times> WalWriter \<Rightarrow> 'e list \<times> WalWriter" where
  "wal_step C crc (WAppend e io) (acked, w) =
     (case wal_append C crc io e w of
        (Inr _, w') \<Rightarrow> (acked @ [e], w')
      | (Inl _, w') \<Rightarrow> (acked, w'))"
| "wal_step C crc (WFlush ok) (acked, w) = (acked, snd (wal_flush ok w))"

text \<open>
  The file is the records of what was there before and of the acknowledged entries,
  followed by at most one partly written record whose append failed.
\<close>

definition failed_tail :: "'e codec \<Rightarrow> (byte list \<Rightarrow> u32) \<Rightarrow> 'e wal_op set \<Rightarrow> byte list \<Rightarrow> bool" where
  "failed_tail C crc S tail \<longleftrightarrow> (\<exists>e p k. WAppend e (IoFail k) \<in> S \<and> encode C e = Some p
     \<and> length p \<le> WAL_MAX_RECORD_SIZE \<and> tail = take k (wal_frame crc p))"

definition wal_inv :: "'e codec \<Rightarrow> (byte list \<Rightarrow> u32) \<Rightarrow> 'e wal_op set \<Rightarrow> WalSyncMode \<Rightarrow> 'e list
    \<Rightarrow> 'e list \<times> WalWriter \<Rightarrow> bool" where
  "wal_inv C crc S mode E0 s \<longleftrightarrow> (case s of (acked, w) \<Rightarrow>
     sync_mode w = mode \<and> (\<exists>base tail. wal_file w = base @ tail
       \<and> wal_prefix C crc base (E0 @ acked)
       \<and> (if write_failed w then failed_tail C crc S tail else tail = [])
       \<and> (mode \<noteq> SyncNone \<longrightarrow> length base \<le> wal_durable w)))"

lemma wal_invI:
  assumes "sync_mode w = mode" "wal_file w = base @ tail" "wal_prefix C crc base (E0 @ acked)"
    and "if write_failed w then failed_tail C crc S tail else tail = []"
    and "mode \<noteq> SyncNone \<Longrightarrow> length base \<le> wal_durable w"
  shows "wal_inv C crc S mode E0 (acked, w)"
  using assms unfolding wal_inv_def by blast

lemma wal_append_mode [simp]: "sync_mode (snd (wal_append C crc io e w)) = sync_mode w"
  by (auto simp: wal_append_def Let_def split: option.splits io_outcome.splits)

lemma wal_open_file:
  "wal_file (wal_open C crc (Some (bytes, d)) mode) = take (snd (replay_loop C crc bytes [] 0)) bytes"
  by (auto simp: wal_open_def replay_with_offset_def Let_def case_prod_beta)

lemma wal_open_replay:
  "wal_prefix C crc (wal_file (wal_open C crc (Some (bytes, d)) mode)) (wal_replay C crc (Some bytes))"
  using replay_valid_prefix [of C crc bytes "fst (replay_loop C crc bytes [] 0)"]
  by (simp add: wal_open_file wal_replay_def replay_with_offset_def)

lemma wal_open_inv:
  "wal_inv C crc S mode (wal_replay C crc (Some bytes))
     ([], wal_open C crc (Some (bytes, length bytes)) mode)"
proof -
  let ?w = "wal_open C crc (Some (bytes, length bytes)) mode"
  have "sync_mode ?w = mode" "\<not> write_failed ?w" "length (wal_file ?w) \<le> wal_durable ?w"
    by (auto simp: wal_open_def Let_def case_prod_beta)
  then show ?thesis
    using wal_open_replay [of C crc bytes "length bytes" mode] by (auto simp: wal_inv_def)
qed

context codec_spec
begin

lemma wal_append_inv:
  assumes "wal_inv C crc S mode E0 (acked, w)" "WAppend e io \<in> S"
  shows "wal_inv C crc S mode E0 (wal_step C crc (WAppend e io) (acked, w))"
proof (cases "write_failed w \<or> encode C e = None \<or> (\<exists>p. encode C e = Some p \<and> length p > WAL_MAX_RECORD_SIZE)")
  case True
  then have "\<exists>err. wal_append C crc io e w = (Inl err, w)" by (auto simp: wal_append_def)
  then show ?thesis using assms(1) by auto
next
  case False
  then obtain p where p: "\<not> write_failed w" "encode C e = Some p" "length p \<le> WAL_MAX_RECORD_SIZE"
    by auto
  have base: "wal_prefix C crc (wal_file w) (E0 @ acked)" "sync_mode w = mode"
    "mode \<noteq> SyncNone \<longrightarrow> length (wal_file w) \<le> wal_durable w"
    using assms(1) p(1) by (auto simp: wal_inv_def)
  show ?thesis
  proof (cases io)
    case IoOk
    have "wal_prefix C crc (wal_file w @ wal_frame crc p) (E0 @ acked @ [e])"
      using wal_prefix_append [OF base(1) wal_frame_prefix [OF p(2,3)]] by simp
    then have "wal_inv C crc S mode E0 (acked @ [e], snd (wal_append C crc io e w))"
      using p base IoOk
      by (intro wal_invI [where base = "wal_file w @ wal_frame crc p" and tail = "[]"])
        (simp_all add: wal_append_def Let_def)
    then show ?thesis using p IoOk by (simp add: wal_append_def Let_def)
  next
    case (IoFail n)
    have "failed_tail C crc S (take n (wal_frame crc p))"
      using assms(2) p IoFail by (auto simp: failed_tail_def)
    then have "wal_inv C crc S mode E0 (acked, snd (wal_append C crc io e w))"
      using p base IoFail
      by (intro wal_invI [where base = "wal_file w" and tail = "take n (wal_frame crc p)"])
        (simp_all add: wal_append_def Let_def)
    then show ?thesis using p IoFail by (simp add: wal_append_def Let_def)
  qed
qed

lemma wal_step_inv:
  assumes "wal_inv C crc S mode E0 s" "op \<in> S"
  shows "wal_inv C crc S mode E0 (wal_step C crc op s)"
proof -
  obtain acked w where s: "s = (acked, w)" by (cases s)
  show ?thesis
  proof (cases op)
    case (WAppend e io)
    then show ?thesis using wal_append_inv [of crc S mode E0 acked w e io] assms s by simp
  next
    case (WFlush ok)
    obtain base tail where bt: "sync_mode w = mode" "wal_file w = base @ tail"
      "wal_prefix C crc base (E0 @ acked)" "if write_failed w then failed_tail C crc S tail else tail = []"
      "mode \<noteq> SyncNone \<longrightarrow> length base \<le> wal_durable w"
      using assms(1) by (auto simp: wal_inv_def s)
    then have "wal_inv C crc S mode E0 (acked, snd (wal_flush ok w))"
      by (intro wal_invI [where base = base and tail = tail]) (simp_all add: wal_flush_def)
    then show ?thesis using WFlush s by simp
  qed
qed

lemma wal_run_inv:
  "wal_inv C crc S mode E0 s \<Longrightarrow> set ops \<subseteq> S \<Longrightarrow> wal_inv C crc S mode E0 (fold (wal_step C crc) ops s)"
  by (induction ops arbitrary: s) (auto simp: wal_step_inv)

lemma failed_tail_replay:
  assumes "failed_tail C crc S tail"
  shows "\<exists>x. (x = [] \<or> (\<exists>e k. x = [e] \<and> WAppend e (IoFail k) \<in> S))
     \<and> fst (replay_loop C crc tail [] 0) = x"
  using assms torn_frame_replay unfolding failed_tail_def by blast

lemma wal_inv_crash:
  assumes "wal_inv C crc S mode E0 (acked, w)"
  shows "\<exists>x. (x = [] \<or> (\<exists>e k. x = [e] \<and> WAppend e (IoFail k) \<in> S))
     \<and> wal_replay C crc (Some (wal_file w)) = E0 @ acked @ x \<and> (x \<noteq> [] \<longrightarrow> write_failed w)
     \<and> (\<forall>n. mode \<noteq> SyncNone \<and> wal_durable w \<le> n \<longrightarrow>
          prefix (E0 @ acked) (wal_replay C crc (Some (take n (wal_file w)))))"
proof -
  obtain base tail where bt: "wal_file w = base @ tail" "wal_prefix C crc base (E0 @ acked)"
    "if write_failed w then failed_tail C crc S tail else tail = []"
    "mode \<noteq> SyncNone \<longrightarrow> length base \<le> wal_durable w"
    using assms by (auto simp: wal_inv_def)
  have "\<exists>x. (x = [] \<or> (\<exists>e k. x = [e] \<and> WAppend e (IoFail k) \<in> S))
      \<and> fst (replay_loop C crc tail [] 0) = x"
    using bt(3) failed_tail_replay [of crc S tail] by (cases "write_failed w") auto
  then obtain x where x: "x = [] \<or> (\<exists>e k. x = [e] \<and> WAppend e (IoFail k) \<in> S)"
    "fst (replay_loop C crc tail [] 0) = x" by blast
  have "prefix (E0 @ acked) (wal_replay C crc (Some (take n (wal_file w))))"
    if "mode \<noteq> SyncNone \<and> wal_durable w \<le> n" for n
    using that bt wal_prefix_replay [OF bt(2), of "take (n - length base) tail"]
    by (simp add: wal_replay_def)
  moreover have "x \<noteq> [] \<longrightarrow> write_failed w" using bt(3) x(2) by (cases "write_failed w") auto
  moreover have "wal_replay C crc (Some (wal_file w)) = E0 @ acked @ x"
    using bt(1) x(2) wal_prefix_replay [OF bt(2), of tail] by (simp add: wal_replay_def)
  ultimately show ?thesis using x(1) by blast
qed

end

text \<open>
  C5: crash safety of the log. Open the log on any file, run any sequence of appends
  and flushes in which any system call may fail after any number of bytes, and lose
  power. Replaying what is left yields a prefix of the old entries, the acknowledged
  ones in order, and at most one entry whose append reported an error; nothing is
  invented or reordered. With a syncing mode every acknowledged entry is still there.
\<close>

theorem wal_crash_safe:
  assumes "codec_spec C"
    and "fold (wal_step C crc) ops ([], wal_open C crc (Some (bytes, length bytes)) mode) = (acked, w)"
  shows "\<exists>x. (x = [] \<or> (\<exists>e k. x = [e] \<and> WAppend e (IoFail k) \<in> set ops))
     \<and> (\<forall>n. prefix (wal_replay C crc (Some (take n (wal_file w))))
                  (wal_replay C crc (Some bytes) @ acked @ x)
          \<and> (mode \<noteq> SyncNone \<and> wal_durable w \<le> n \<longrightarrow>
               prefix (wal_replay C crc (Some bytes) @ acked)
                 (wal_replay C crc (Some (take n (wal_file w))))))"
proof -
  have "wal_inv C crc (set ops) mode (wal_replay C crc (Some bytes)) (acked, w)"
    using codec_spec.wal_run_inv [OF assms(1) wal_open_inv, of ops "set ops" crc mode bytes] assms(2)
    by simp
  from codec_spec.wal_inv_crash [OF assms(1) this] show ?thesis
    using replay_take_prefix [of C crc _ "wal_file w"]
    by (simp add: wal_replay_def replay_with_offset_def) metis
qed

definition ex_crc :: "byte list \<Rightarrow> u32" where
  "ex_crc bs = ucast (sum_list bs)"

lemmas wal_eval = wal_replay_def replay_with_offset_def replay_loop.simps read_exact_def
  WAL_MAX_RECORD_SIZE_def ex_crc_def table_codec_def wal_append_def wal_open_def wal_frame_def
  u32_to_le_bytes_def wal_flush_def

theorem wal_crash_safe_witness:
  "prefix [RemoveBan (NetV4 1 32)] (wal_replay (table_codec [RemoveBan (NetV4 1 32), RemoveBan (NetV4 2 32)]) ex_crc
     (Some (take 10 [1, 0, 0, 0, 0, 0, 0, 0, 0, 1, 0, 0])))"
proof -
  let ?C = "table_codec [RemoveBan (NetV4 1 32), RemoveBan (NetV4 2 32)]"
  let ?ops = "[WAppend (RemoveBan (NetV4 1 32)) IoOk, WAppend (RemoveBan (NetV4 2 32)) (IoFail 3),
     WAppend (RemoveBan (NetV4 1 32)) IoOk]"
  have run: "fold (wal_step ?C ex_crc) ?ops ([], wal_open ?C ex_crc (Some ([], length [])) Fdatasync)
    = ([RemoveBan (NetV4 1 32)], \<lparr>wal_file = [1, 0, 0, 0, 0, 0, 0, 0, 0, 1, 0, 0], wal_durable = 9,
         sync_mode = Fdatasync, write_failed = True\<rparr>)"
    by (simp add: wal_eval)
  have "wal_replay ?C ex_crc (Some []) = []" by (simp add: wal_eval)
  then have "\<forall>n \<ge> 9. prefix [RemoveBan (NetV4 1 32)]
      (wal_replay ?C ex_crc (Some (take n [1, 0, 0, 0, 0, 0, 0, 0, 0, 1, 0, 0])))"
    using wal_crash_safe [OF table_codec_spec run] by auto
  then show ?thesis by (rule allE [of _ 10]) simp
qed

text \<open>
  C25: reopening repairs the file. Whatever bytes are found, \<open>open\<close> cuts the file to its
  whole records: the strict check then accepts it with the entries that replay
  found, and an entry appended afterwards is visible to recovery after them.
\<close>

theorem wal_reopen_repairs:
  assumes "codec_spec C" "encode C e = Some p" "length p \<le> WAL_MAX_RECORD_SIZE"
    and "w = wal_open C crc (Some (bytes, d)) mode"
  shows "replay_strict C crc (Some (wal_file w)) = Inr (wal_replay C crc (Some bytes))
     \<and> wal_replay C crc (Some (wal_file (snd (wal_append C crc IoOk e w))))
         = wal_replay C crc (Some bytes) @ [e]"
proof -
  have pre: "wal_prefix C crc (wal_file w) (wal_replay C crc (Some bytes))"
    using wal_open_replay assms(4) by simp
  have "\<not> write_failed w" using assms(4) by (auto simp: wal_open_def Let_def case_prod_beta)
  then have "wal_file (snd (wal_append C crc IoOk e w)) = wal_file w @ wal_frame crc p"
    using assms(2,3) by (simp add: wal_append_def Let_def)
  moreover note wal_prefix_append [OF pre codec_spec.wal_frame_prefix [OF assms(1-3)]]
  ultimately show ?thesis
    using wal_prefix_replay [OF pre, of "[]"]
      wal_prefix_replay [of C crc "wal_file w @ wal_frame crc p" _ "[]"]
    by (simp add: replay_strict_def wal_replay_def)
qed

theorem wal_reopen_repairs_witness:
  "wal_replay (table_codec [True, False]) ex_crc
     (Some (wal_file (snd (wal_append (table_codec [True, False]) ex_crc IoOk True
        (wal_open (table_codec [True, False]) ex_crc (Some ([1, 0, 0, 0, 1, 1, 0, 0, 0, 7, 7], 11)) Sync)))))
   = [False, True]"
proof -
  let ?C = "table_codec [True, False]"
  have "encode ?C True = Some [0]" by (simp add: wal_eval)
  moreover have "wal_replay ?C ex_crc (Some [1, 0, 0, 0, 1, 1, 0, 0, 0, 7, 7]) = [False]" by (simp add: wal_eval)
  ultimately show ?thesis
    using wal_reopen_repairs [OF table_codec_spec, of _ True "[0]" _ ex_crc, OF _ _ refl]
    by (simp add: WAL_MAX_RECORD_SIZE_def)
qed

end
