(* ===== verification/Snapshot.thy ===== *)
theory Snapshot
  imports Codec Models Crdt
begin

text \<open>
  Snapshots, \<open>hiveguard-core/src/persistence/snapshot.rs\<close>, as bytes of a file: an
  8-byte magic followed by the serialised data. The serialisation crates are the
  record \<open>K\<close>: \<open>postcard\<close> for the formats V3 and V4, \<open>bincode::deserialize\<close> for V1 and V2.

  The outcome of the system calls of a save is an argument: \<open>SaveOk\<close>; \<open>SaveNotRenamed\<close>
  when a call up to the rename of the temporary file fails; \<open>SaveNotSynced\<close> when the
  rename has happened and the sync of the directory fails. A file is
  \<open>None\<close> when it does not exist.
\<close>

record SnapshotDataV1 =
  v1_bans :: "BanRecord list"
  v1_whitelist :: "ip_net list"

record SnapshotDataV2 =
  v2_bans :: "BanRecord list"
  v2_whitelist :: "ip_net list"
  v2_crdt_bans :: "CrdtBanRecord list"

record SnapshotDataV4 =
  v4_bans :: "BanRecord list"
  v4_whitelist :: "ip_net list"
  v4_crdt_bans :: "CrdtBanRecord list"
  v4_revocations :: "(ip_net \<times> instant) list"

record SnapshotResult =
  sr_bans :: "BanRecord list"
  sr_whitelist :: "ip_net list"
  sr_crdt_bans :: "CrdtBanRecord list"
  sr_revocations :: "(ip_net \<times> instant) list"

record snapshot_codecs =
  postcard_v4 :: "SnapshotDataV4 codec"
  postcard_v2 :: "SnapshotDataV2 codec"
  bincode_v2 :: "byte list \<Rightarrow> SnapshotDataV2 option"
  bincode_v1 :: "byte list \<Rightarrow> SnapshotDataV1 option"

definition SNAPSHOT_MAGIC_V1 :: "byte list" where
  "SNAPSHOT_MAGIC_V1 = List.map of_char ''HVGD0001''"

definition SNAPSHOT_MAGIC_V2 :: "byte list" where
  "SNAPSHOT_MAGIC_V2 = List.map of_char ''HVGD0002''"

definition SNAPSHOT_MAGIC_V3 :: "byte list" where
  "SNAPSHOT_MAGIC_V3 = List.map of_char ''HVGD0003''"

definition SNAPSHOT_MAGIC_V4 :: "byte list" where
  "SNAPSHOT_MAGIC_V4 = List.map of_char ''HVGD0004''"

definition SNAPSHOT_MAX_SIZE :: nat where
  "SNAPSHOT_MAX_SIZE = 256 * 1024 * 1024"

datatype save_outcome = SaveOk | SaveNotRenamed | SaveNotSynced

definition save_snapshot_with_revocations ::
    "snapshot_codecs \<Rightarrow> save_outcome \<Rightarrow> BanRecord list \<Rightarrow> ip_net list \<Rightarrow> CrdtBanRecord list
     \<Rightarrow> (ip_net \<times> instant) list \<Rightarrow> byte list option \<Rightarrow> unit result \<times> byte list option" where
  "save_snapshot_with_revocations K io bans whitelist crdt_bans revocations path =
     (case encode (postcard_v4 K) \<lparr>v4_bans = bans, v4_whitelist = whitelist,
             v4_crdt_bans = crdt_bans, v4_revocations = revocations\<rparr> of
        None \<Rightarrow> (Inl EStorage, path)
      | Some encoded \<Rightarrow>
          (case io of
             SaveNotRenamed \<Rightarrow> (Inl EIo, path)
           | SaveNotSynced \<Rightarrow> (Inl EIo, Some (SNAPSHOT_MAGIC_V4 @ encoded))
           | SaveOk \<Rightarrow> (Inr (), Some (SNAPSHOT_MAGIC_V4 @ encoded))))"

definition save_snapshot_v2 ::
    "snapshot_codecs \<Rightarrow> save_outcome \<Rightarrow> BanRecord list \<Rightarrow> ip_net list \<Rightarrow> CrdtBanRecord list
     \<Rightarrow> byte list option \<Rightarrow> unit result \<times> byte list option" where
  "save_snapshot_v2 K io bans whitelist crdt_bans path =
     save_snapshot_with_revocations K io bans whitelist crdt_bans [] path"

definition save_snapshot ::
    "snapshot_codecs \<Rightarrow> save_outcome \<Rightarrow> BanRecord list \<Rightarrow> ip_net list
     \<Rightarrow> byte list option \<Rightarrow> unit result \<times> byte list option" where
  "save_snapshot K io bans whitelist path = save_snapshot_v2 K io bans whitelist [] path"

definition load_snapshot_v2 :: "snapshot_codecs \<Rightarrow> byte list option \<Rightarrow> SnapshotResult result" where
  "load_snapshot_v2 K path =
     (case path of
        None \<Rightarrow> Inl EIo
      | Some bytes \<Rightarrow>
          if length bytes > SNAPSHOT_MAX_SIZE then Inl EStorage
          else case read_exact 8 bytes of
            None \<Rightarrow> Inl EIo
          | Some (magic, encoded) \<Rightarrow>
              if magic = SNAPSHOT_MAGIC_V4 then
                (case decode (postcard_v4 K) encoded of
                   None \<Rightarrow> Inl EStorage
                 | Some (data, tail) \<Rightarrow>
                     if tail \<noteq> [] then Inl EStorage
                     else Inr \<lparr>sr_bans = v4_bans data, sr_whitelist = v4_whitelist data,
                            sr_crdt_bans = v4_crdt_bans data, sr_revocations = v4_revocations data\<rparr>)
              else if magic = SNAPSHOT_MAGIC_V3 then
                (case decode (postcard_v2 K) encoded of
                   None \<Rightarrow> Inl EStorage
                 | Some (data, tail) \<Rightarrow>
                     if tail \<noteq> [] then Inl EStorage
                     else Inr \<lparr>sr_bans = v2_bans data, sr_whitelist = v2_whitelist data,
                            sr_crdt_bans = v2_crdt_bans data, sr_revocations = []\<rparr>)
              else if magic = SNAPSHOT_MAGIC_V2 then
                (case bincode_v2 K encoded of
                   None \<Rightarrow> Inl EStorage
                 | Some data \<Rightarrow>
                     Inr \<lparr>sr_bans = v2_bans data, sr_whitelist = v2_whitelist data,
                       sr_crdt_bans = v2_crdt_bans data, sr_revocations = []\<rparr>)
              else if magic = SNAPSHOT_MAGIC_V1 then
                (case bincode_v1 K encoded of
                   None \<Rightarrow> Inl EStorage
                 | Some data \<Rightarrow>
                     Inr \<lparr>sr_bans = v1_bans data, sr_whitelist = v1_whitelist data,
                       sr_crdt_bans = [], sr_revocations = []\<rparr>)
              else Inl EStorage)"

definition load_snapshot ::
    "snapshot_codecs \<Rightarrow> byte list option \<Rightarrow> (BanRecord list \<times> ip_net list) result" where
  "load_snapshot K path =
     (case load_snapshot_v2 K path of
        Inl e \<Rightarrow> Inl e
      | Inr result \<Rightarrow> Inr (sr_bans result, sr_whitelist result))"

section \<open>Round trip and atomicity\<close>

lemma magic_length [simp]:
  "length SNAPSHOT_MAGIC_V1 = 8" "length SNAPSHOT_MAGIC_V2 = 8"
  "length SNAPSHOT_MAGIC_V3 = 8" "length SNAPSHOT_MAGIC_V4 = 8"
  by (simp_all add: SNAPSHOT_MAGIC_V1_def SNAPSHOT_MAGIC_V2_def SNAPSHOT_MAGIC_V3_def
      SNAPSHOT_MAGIC_V4_def)

lemma save_snapshot_cases:
  assumes "save_snapshot_with_revocations K io b w c r path = (res, path')"
  shows "path' = path \<and> res \<noteq> Inr () \<or>
    (\<exists>encoded. encode (postcard_v4 K) \<lparr>v4_bans = b, v4_whitelist = w, v4_crdt_bans = c,
        v4_revocations = r\<rparr> = Some encoded \<and> path' = Some (SNAPSHOT_MAGIC_V4 @ encoded))"
  using assms
  by (auto simp: save_snapshot_with_revocations_def split: option.splits save_outcome.splits)

lemma load_saved:
  assumes "codec_spec (postcard_v4 K)" "length encoded + 8 \<le> SNAPSHOT_MAX_SIZE"
    and "encode (postcard_v4 K) \<lparr>v4_bans = b, v4_whitelist = w, v4_crdt_bans = c,
        v4_revocations = r\<rparr> = Some encoded"
  shows "load_snapshot_v2 K (Some (SNAPSHOT_MAGIC_V4 @ encoded @ junk)) =
    (if junk = [] then Inr \<lparr>sr_bans = b, sr_whitelist = w, sr_crdt_bans = c, sr_revocations = r\<rparr>
     else Inl EStorage)"
  using assms(2) codec_spec.decode_encode [OF assms(1,3), of junk]
  by (cases "junk = []") (simp_all add: load_snapshot_v2_def)


definition ex_snapshot_codecs :: snapshot_codecs where
  "ex_snapshot_codecs = \<lparr>
     postcard_v4 = table_codec [\<lparr>v4_bans = [], v4_whitelist = [NetV4 0x08080808 32],
       v4_crdt_bans = [], v4_revocations = [(NetV4 1 32, 5)]\<rparr>],
     postcard_v2 = table_codec [], bincode_v2 = (\<lambda>_. None), bincode_v1 = (\<lambda>_. None)\<rparr>"


text \<open>
  C35: saving has no size check, loading has one. A state whose encoding exceeds the
  limit of 256 MiB (less the magic) is saved with \<open>Ok\<close>, and the file that replaces the
  previous snapshot cannot be loaded any more.
\<close>

theorem snapshot_oversized_unloadable:
  assumes "encode (postcard_v4 K) \<lparr>v4_bans = b, v4_whitelist = w, v4_crdt_bans = c,
      v4_revocations = r\<rparr> = Some encoded" "SNAPSHOT_MAX_SIZE < length encoded + 8"
  shows "fst (save_snapshot_with_revocations K SaveOk b w c r path) = Inr ()
     \<and> load_snapshot_v2 K (snd (save_snapshot_with_revocations K SaveOk b w c r path)) = Inl EStorage"
  using assms by (simp add: save_snapshot_with_revocations_def load_snapshot_v2_def)

text \<open>A codec whose encodings have \<open>n\<close> bytes.\<close>

definition padded_codec :: "nat \<Rightarrow> 'a \<Rightarrow> 'a codec" where
  "padded_codec n d = \<lparr>
     encode = (\<lambda>x. if x = d then Some (replicate n 0) else None),
     decode = (\<lambda>bs. if length bs < n then None else Some (d, drop n bs))\<rparr>"

lemma padded_codec_spec: "codec_spec (padded_codec n d)"
  by unfold_locales (auto simp: padded_codec_def split: if_splits)

theorem snapshot_oversized_unloadable_witness:
  "let d = \<lparr>v4_bans = [], v4_whitelist = [], v4_crdt_bans = [], v4_revocations = []\<rparr>;
       K = ex_snapshot_codecs\<lparr>postcard_v4 := padded_codec (2 ^ 28) d\<rparr>
   in codec_spec (postcard_v4 K)
     \<and> load_snapshot_v2 K (snd (save_snapshot_with_revocations K SaveOk [] [] [] [] None)) = Inl EStorage"
proof -
  let ?d = "\<lparr>v4_bans = [], v4_whitelist = [], v4_crdt_bans = [], v4_revocations = []\<rparr>"
  let ?K = "ex_snapshot_codecs\<lparr>postcard_v4 := padded_codec (2 ^ 28) ?d\<rparr>"
  have "encode (postcard_v4 ?K) ?d = Some (replicate (2 ^ 28) 0)" by (simp add: padded_codec_def)
  from snapshot_oversized_unloadable [OF this, of None] show ?thesis
    by (simp add: Let_def padded_codec_spec SNAPSHOT_MAX_SIZE_def)
qed

end
