(* ===== verification/State_Manager.thy ===== *)
theory State_Manager
  imports Ban_Store Whitelist Wal Snapshot
begin

text \<open>
  The state manager of \<open>hiveguard-core/src/persistence/state_manager.rs\<close>: the memory
  (\<open>SmMemory\<close>), extended by the files of the data directory (the log in its writer,
  the snapshot). Every mutator appends to the log first and changes the memory only
  after the append succeeded.

  \<open>sm_env\<close> collects the code outside the repository that the manager calls. \<open>io\<close> gives
  the outcome of the append of each entry of a call; \<open>now\<close> is the clock.
\<close>

record sm_env =
  env_net :: ipnet_ops
  env_parse :: "string \<Rightarrow> ip_net option"
  env_wal :: "WalEntry codec"
  env_crc :: "byte list \<Rightarrow> u32"
  env_snap :: snapshot_codecs

definition MIN_BAN_EXTENSION :: int where
  "MIN_BAN_EXTENSION = 5 * 60 * int ns_per_sec"

datatype BanAdmission =
    Added
  | Extended "instant option"
  | AlreadyCovered ip_net "instant option"

record SmMemory =
  ban_store :: InMemoryBanStore
  whitelist :: WhitelistManager
  crdt_store :: "(ip_net, CrdtBanRecord) hmap"
  revocations :: "(ip_net, instant) hmap"

record StateManager = SmMemory +
  wal_writer :: WalWriter
  snapshot_file :: "byte list option"

section \<open>Start-up\<close>

definition tombstone_entry ::
    "ip_net \<Rightarrow> (ip_net, CrdtBanRecord) hmap \<Rightarrow> (ip_net, CrdtBanRecord) hmap" where
  "tombstone_entry subject store =
     (case hm_get store subject of
        Some existing \<Rightarrow> hm_insert subject (existing\<lparr>cr_tombstone := True\<rparr>) store
      | None \<Rightarrow> store)"

fun replay_entry :: "WalEntry \<Rightarrow> SmMemory \<Rightarrow> SmMemory" where
  "replay_entry (AddBan record) m = m\<lparr>ban_store := add_ban record (ban_store m)\<rparr>"
| "replay_entry (RevokeBan subject cutoff) m =
     m\<lparr>revocations := hm_insert subject cutoff (revocations m),
       ban_store := snd (remove_ban subject (ban_store m))\<rparr>"
| "replay_entry (RemoveBan subject) m = m\<lparr>ban_store := snd (remove_ban subject (ban_store m))\<rparr>"
| "replay_entry (AddWhitelist net) m = m\<lparr>whitelist := wl_add net (whitelist m)\<rparr>"
| "replay_entry (RemoveWhitelist net) m = m\<lparr>whitelist := snd (wl_remove net (whitelist m))\<rparr>"
| "replay_entry (AddCrdtBan record) m = m\<lparr>crdt_store := crdt_apply (crdt_store m) record\<rparr>"
| "replay_entry (TombstoneCrdtBan subject) m =
     m\<lparr>crdt_store := tombstone_entry subject (crdt_store m)\<rparr>"

definition sm_empty :: "sm_env \<Rightarrow> SmMemory" where
  "sm_empty E = \<lparr>ban_store = store_new, whitelist = wl_new (env_parse E), crdt_store = [],
     revocations = []\<rparr>"

definition from_snapshot :: "sm_env \<Rightarrow> SnapshotResult \<Rightarrow> SmMemory" where
  "from_snapshot E result =
     (let m = sm_empty E in
      m\<lparr>revocations := foldl (\<lambda>r (s, t). hm_insert s t r) (revocations m) (sr_revocations result),
        ban_store := foldl (\<lambda>st ban. add_ban ban st) (ban_store m) (sr_bans result),
        whitelist := foldl (\<lambda>wl net. wl_add net wl) (whitelist m) (sr_whitelist result),
        crdt_store := foldl (\<lambda>cs c. hm_insert (cr_subject c) c cs) (crdt_store m) (sr_crdt_bans result)\<rparr>)"

definition sm_load :: "sm_env \<Rightarrow> byte list option \<Rightarrow> SmMemory result" where
  "sm_load E snapshot =
     (case snapshot of
        None \<Rightarrow> Inr (sm_empty E)
      | Some _ \<Rightarrow>
          (case load_snapshot_v2 (env_snap E) snapshot of
             Inl _ \<Rightarrow> Inl EStorage
           | Inr result \<Rightarrow> Inr (from_snapshot E result)))"

definition sm_new ::
    "sm_env \<Rightarrow> WalSyncMode \<Rightarrow> byte list option \<Rightarrow> (byte list \<times> nat) option \<Rightarrow> StateManager result" where
  "sm_new E mode snapshot wal =
     (case sm_load E snapshot of
        Inl e \<Rightarrow> Inl e
      | Inr loaded \<Rightarrow>
          (let entries = wal_replay (env_wal E) (env_crc E) (map_option fst wal);
               m = foldl (\<lambda>m e. replay_entry e m) loaded entries
           in Inr (SmMemory.extend m
                (StateManager.fields (wal_open (env_wal E) (env_crc E) wal mode) snapshot))))"

section \<open>Operations\<close>

definition sm_append ::
    "sm_env \<Rightarrow> (WalEntry \<Rightarrow> io_outcome) \<Rightarrow> WalEntry \<Rightarrow> StateManager \<Rightarrow> unit result \<times> StateManager" where
  "sm_append E io entry sm =
     (case wal_append (env_wal E) (env_crc E) (io entry) entry (wal_writer sm) of
        (r, w) \<Rightarrow> (r, sm\<lparr>wal_writer := w\<rparr>))"

definition sm_add_ban ::
    "sm_env \<Rightarrow> (WalEntry \<Rightarrow> io_outcome) \<Rightarrow> BanRecord \<Rightarrow> StateManager \<Rightarrow> unit result \<times> StateManager" where
  "sm_add_ban E io record0 sm =
     (let record = record0\<lparr>br_subject := net_trunc (env_net E) (br_subject record0)\<rparr> in
      if overlaps (env_net E) (br_subject record) (whitelist sm) then (Inl EConfig, sm)
      else case sm_append E io (AddBan record) sm of
        (Inl e, sm') \<Rightarrow> (Inl e, sm')
      | (Inr _, sm') \<Rightarrow> (Inr (), sm'\<lparr>ban_store := add_ban record (ban_store sm')\<rparr>))"

definition outlasts :: "instant option \<Rightarrow> instant option \<Rightarrow> bool" where
  "outlasts existing new =
     (case (existing, new) of
        (None, _) \<Rightarrow> True
      | (Some _, None) \<Rightarrow> False
      | (Some e, Some n) \<Rightarrow> e + MIN_BAN_EXTENSION \<ge> n)"

definition extend_existing ::
    "instant \<Rightarrow> BanRecord list \<Rightarrow> BanRecord \<Rightarrow> BanRecord \<times> BanAdmission" where
  "extend_existing now covering record =
     (case map_option (\<lambda>b. (br_created_at b, br_expires_at b))
             (List.find (\<lambda>b. br_subject b = br_subject record \<and> ban_active now b) covering) of
        Some (created_at, previous_expiry) \<Rightarrow>
          (record\<lparr>br_created_at := created_at\<rparr>, Extended previous_expiry)
      | None \<Rightarrow> (record, Added))"

definition sm_admit_ban ::
    "sm_env \<Rightarrow> (WalEntry \<Rightarrow> io_outcome) \<Rightarrow> BanRecord \<Rightarrow> instant \<Rightarrow> StateManager
     \<Rightarrow> BanAdmission result \<times> StateManager" where
  "sm_admit_ban E io record now sm =
     (let covering = covering_bans (env_net E) (br_subject record) (ban_store sm) in
      case List.find (\<lambda>b. ban_active now b \<and> outlasts (br_expires_at b) (br_expires_at record)) covering of
        Some by \<Rightarrow> (Inr (AlreadyCovered (br_subject by) (br_expires_at by)), sm)
      | None \<Rightarrow>
          (let (record', outcome) = extend_existing now covering record
           in case sm_add_ban E io record' sm of
                (Inl e, sm') \<Rightarrow> (Inl e, sm')
              | (Inr _, sm') \<Rightarrow> (Inr outcome, sm')))"

definition sm_remove_ban ::
    "sm_env \<Rightarrow> (WalEntry \<Rightarrow> io_outcome) \<Rightarrow> ip_net \<Rightarrow> StateManager \<Rightarrow> bool result \<times> StateManager" where
  "sm_remove_ban E io subject sm =
     (case sm_append E io (RemoveBan subject) sm of
        (Inl e, sm') \<Rightarrow> (Inl e, sm')
      | (Inr _, sm') \<Rightarrow>
          (case remove_ban subject (ban_store sm') of
             (removed, st) \<Rightarrow> (Inr removed, sm'\<lparr>ban_store := st\<rparr>)))"

definition revoke_cutoff :: "instant \<Rightarrow> ip_net \<Rightarrow> 'a SmMemory_scheme \<Rightarrow> instant" where
  "revoke_cutoff now subject sm =
     (let cutoff = (case List.find (\<lambda>b. br_subject b = subject) (get_all_bans (ban_store sm)) of
              Some record \<Rightarrow> max now (br_created_at record)
            | None \<Rightarrow> now)
      in case hm_get (revocations sm) subject of
           Some previous \<Rightarrow> max cutoff previous
         | None \<Rightarrow> cutoff)"

definition sm_revoke_ban ::
    "sm_env \<Rightarrow> (WalEntry \<Rightarrow> io_outcome) \<Rightarrow> instant \<Rightarrow> ip_net \<Rightarrow> StateManager
     \<Rightarrow> bool result \<times> StateManager" where
  "sm_revoke_ban E io now subject0 sm =
     (let subject = net_trunc (env_net E) subject0;
          cutoff = revoke_cutoff now subject sm
      in case sm_append E io (RevokeBan subject cutoff) sm of
           (Inl e, sm') \<Rightarrow> (Inl e, sm')
         | (Inr _, sm') \<Rightarrow>
             (case remove_ban subject (ban_store sm') of
                (removed, st) \<Rightarrow>
                  (Inr removed, sm'\<lparr>revocations := hm_insert subject cutoff (revocations sm'),
                                    ban_store := st\<rparr>)))"

definition accepts_remote_ban :: "sm_env \<Rightarrow> BanRecord \<Rightarrow> 'a SmMemory_scheme \<Rightarrow> bool" where
  "accepts_remote_ban E record sm \<longleftrightarrow>
     \<not> overlaps (env_net E) (br_subject record) (whitelist sm)
     \<and> \<not> list_ex (\<lambda>(subject, cutoff).
           (net_contains (env_net E) subject (net_addr (br_subject record))
            \<or> net_contains (env_net E) (br_subject record) (net_addr subject))
           \<and> br_created_at record \<le> cutoff) (revocations sm)"

definition sm_tombstone_crdt_ban ::
    "sm_env \<Rightarrow> (WalEntry \<Rightarrow> io_outcome) \<Rightarrow> ip_net \<Rightarrow> StateManager \<Rightarrow> bool result \<times> StateManager" where
  "sm_tombstone_crdt_ban E io subject sm =
     (case sm_append E io (TombstoneCrdtBan subject) sm of
        (Inl e, sm') \<Rightarrow> (Inl e, sm')
      | (Inr _, sm') \<Rightarrow>
          (case hm_get (crdt_store sm') subject of
             Some existing \<Rightarrow>
               (Inr True, sm'\<lparr>crdt_store := hm_insert subject (existing\<lparr>cr_tombstone := True\<rparr>) (crdt_store sm')\<rparr>)
           | None \<Rightarrow> (Inr False, sm')))"

fun revoke_loop ::
    "sm_env \<Rightarrow> (WalEntry \<Rightarrow> io_outcome) \<Rightarrow> ip_net list \<Rightarrow> ip_net list \<Rightarrow> StateManager
     \<Rightarrow> ip_net list result \<times> StateManager" where
  "revoke_loop E io [] revoked sm = (Inr revoked, sm)"
| "revoke_loop E io (subject # covered) revoked sm =
     (case sm_remove_ban E io subject sm of
        (Inl e, sm1) \<Rightarrow> (Inl e, sm1)
      | (Inr removed, sm1) \<Rightarrow>
          (let revoked' = (if removed then revoked @ [subject] else revoked) in
           if hm_contains (crdt_store sm1) subject then
             (case sm_tombstone_crdt_ban E io subject sm1 of
                (Inl e, sm2) \<Rightarrow> (Inl e, sm2)
              | (Inr _, sm2) \<Rightarrow> revoke_loop E io covered revoked' sm2)
           else revoke_loop E io covered revoked' sm1))"

definition sm_revoke_covered ::
    "sm_env \<Rightarrow> (WalEntry \<Rightarrow> io_outcome) \<Rightarrow> StateManager \<Rightarrow> ip_net list result \<times> StateManager" where
  "sm_revoke_covered E io sm =
     (let covered = filter (\<lambda>subject. overlaps (env_net E) subject (whitelist sm))
            (List.map br_subject (get_all_bans (ban_store sm)))
      in revoke_loop E io covered [] sm)"

definition sm_add_whitelist ::
    "sm_env \<Rightarrow> (WalEntry \<Rightarrow> io_outcome) \<Rightarrow> ip_net \<Rightarrow> StateManager \<Rightarrow> ip_net list result \<times> StateManager" where
  "sm_add_whitelist E io net sm =
     (case sm_append E io (AddWhitelist net) sm of
        (Inl e, sm') \<Rightarrow> (Inl e, sm')
      | (Inr _, sm') \<Rightarrow> sm_revoke_covered E io (sm'\<lparr>whitelist := wl_add net (whitelist sm')\<rparr>))"

definition sm_remove_whitelist ::
    "sm_env \<Rightarrow> (WalEntry \<Rightarrow> io_outcome) \<Rightarrow> ip_net \<Rightarrow> StateManager \<Rightarrow> unit result \<times> StateManager" where
  "sm_remove_whitelist E io net sm =
     (case sm_append E io (RemoveWhitelist net) sm of
        (Inl e, sm') \<Rightarrow> (Inl e, sm')
      | (Inr _, sm') \<Rightarrow> (Inr (), sm'\<lparr>whitelist := snd (wl_remove net (whitelist sm'))\<rparr>))"

definition sm_add_crdt_ban ::
    "sm_env \<Rightarrow> (WalEntry \<Rightarrow> io_outcome) \<Rightarrow> CrdtBanRecord \<Rightarrow> StateManager \<Rightarrow> unit result \<times> StateManager" where
  "sm_add_crdt_ban E io record sm =
     (case sm_append E io (AddCrdtBan record) sm of
        (Inl e, sm') \<Rightarrow> (Inl e, sm')
      | (Inr _, sm') \<Rightarrow> (Inr (), sm'\<lparr>crdt_store := crdt_apply (crdt_store sm') record\<rparr>))"

definition get_active_crdt_bans :: "u64 \<Rightarrow> StateManager \<Rightarrow> CrdtBanRecord list" where
  "get_active_crdt_bans current_time_ms sm =
     filter (is_active current_time_ms) (hm_values (crdt_store sm))"

definition sm_take_snapshot ::
    "sm_env \<Rightarrow> save_outcome \<Rightarrow> trunc_outcome \<Rightarrow> StateManager \<Rightarrow> unit result \<times> StateManager" where
  "sm_take_snapshot E save_io trunc_io sm =
     (case save_snapshot_with_revocations (env_snap E) save_io (get_all_bans (ban_store sm))
             (wl_entries (whitelist sm)) (hm_values (crdt_store sm)) (revocations sm) (snapshot_file sm) of
        (Inl e, f) \<Rightarrow> (Inl e, sm\<lparr>snapshot_file := f\<rparr>)
      | (Inr _, f) \<Rightarrow>
          (case wal_truncate trunc_io (wal_writer sm) of
             (r, w) \<Rightarrow> (r, sm\<lparr>snapshot_file := f, wal_writer := w\<rparr>)))"

definition sm_flush_wal :: "bool \<Rightarrow> StateManager \<Rightarrow> unit result \<times> StateManager" where
  "sm_flush_wal ok sm =
     (case wal_flush ok (wal_writer sm) of (r, w) \<Rightarrow> (r, sm\<lparr>wal_writer := w\<rparr>))"

end
