(* ===== verification/Recovery.thy ===== *)
theory Recovery
  imports State_Manager
begin

text \<open>
  Recovery of the state manager. \<open>AbsState\<close> is what the manager promises to keep: the
  bans by subject, the configured whitelist, the replicated records and the
  revocation cutoffs. A log entry acts on it by \<open>abs_apply\<close>. The memory after every
  operation is the snapshot's abstract state with the log's entries applied, so a
  restart gives it back.
\<close>

record AbsState =
  a_bans :: "ip_net \<Rightarrow> BanRecord option"
  a_whitelist :: "ip_net \<Rightarrow> bool"
  a_crdt :: "ip_net \<Rightarrow> CrdtBanRecord option"
  a_revocations :: "ip_net \<Rightarrow> instant option"

definition sm_abs :: "'a SmMemory_scheme \<Rightarrow> AbsState" where
  "sm_abs m = \<lparr>a_bans = hm_get (bans (ban_store m)),
     a_whitelist = (\<lambda>n. n \<in> set (wl_entries (whitelist m))),
     a_crdt = hm_get (crdt_store m), a_revocations = hm_get (revocations m)\<rparr>"

fun crdt_write :: "WalEntry \<Rightarrow> (ip_net \<Rightarrow> CrdtBanRecord option) \<Rightarrow> ip_net \<Rightarrow> CrdtBanRecord option" where
  "crdt_write (AddCrdtBan r) f =
     f(cr_subject r := (case f (cr_subject r) of
         None \<Rightarrow> Some r
       | Some x \<Rightarrow> (case crdt_merge x r of Some m \<Rightarrow> Some m | None \<Rightarrow> Some x)))"
| "crdt_write (TombstoneCrdtBan s) f = f(s := map_option (cr_tombstone_update (\<lambda>_. True)) (f s))"
| "crdt_write _ f = f"

fun ban_writes :: "WalEntry \<Rightarrow> (ip_net \<times> BanRecord option) list" where
  "ban_writes (AddBan r) = [(br_subject r, Some r)]"
| "ban_writes (RemoveBan s) = [(s, None)]"
| "ban_writes (RevokeBan s c) = [(s, None)]"
| "ban_writes _ = []"

fun whitelist_writes :: "WalEntry \<Rightarrow> (ip_net \<times> bool) list" where
  "whitelist_writes (AddWhitelist n) = [(n, True)]"
| "whitelist_writes (RemoveWhitelist n) = [(n, False)]"
| "whitelist_writes _ = []"

fun revocation_writes :: "WalEntry \<Rightarrow> (ip_net \<times> instant option) list" where
  "revocation_writes (RevokeBan s c) = [(s, Some c)]"
| "revocation_writes _ = []"

abbreviation writes :: "('k \<times> 'v) list \<Rightarrow> ('k \<Rightarrow> 'v) \<Rightarrow> 'k \<Rightarrow> 'v" where
  "writes \<equiv> fold (\<lambda>(k, v) f. f(k := v))"

definition abs_apply :: "WalEntry \<Rightarrow> AbsState \<Rightarrow> AbsState" where
  "abs_apply e S = \<lparr>a_bans = writes (ban_writes e) (a_bans S),
     a_whitelist = writes (whitelist_writes e) (a_whitelist S),
     a_crdt = crdt_write e (a_crdt S),
     a_revocations = writes (revocation_writes e) (a_revocations S)\<rparr>"

section \<open>The memory refines the abstract state\<close>

lemma tombstone_entry_get:
  "hm_get (tombstone_entry s m) = (hm_get m)(s := map_option (cr_tombstone_update (\<lambda>_. True)) (hm_get m s))"
  by (rule ext) (simp add: tombstone_entry_def split: option.splits)

lemma crdt_apply_write: "hm_get (crdt_apply m r) = crdt_write (AddCrdtBan r) (hm_get m)"
  by (rule ext) (simp add: crdt_apply_def split: option.splits)

lemma replay_entry_abs: "sm_abs (replay_entry e m) = abs_apply e (sm_abs m)"
  by (cases e)
    (auto simp: sm_abs_def abs_apply_def fun_eq_iff add_ban_get remove_ban_get crdt_apply_write
      tombstone_entry_get)

text \<open>The same effect on the extended record, as the operations apply it.\<close>

definition mem_wf :: "'a SmMemory_scheme \<Rightarrow> bool" where
  "mem_wf m \<longleftrightarrow> hm_wf (bans (ban_store m)) \<and> (\<forall>(k, r) \<in> set (bans (ban_store m)). br_subject r = k)
     \<and> hm_wf (crdt_store m) \<and> (\<forall>(k, r) \<in> set (crdt_store m). cr_subject r = k)
     \<and> hm_wf (revocations m)"

definition bans_keyed :: "InMemoryBanStore \<Rightarrow> bool" where
  "bans_keyed st \<longleftrightarrow> hm_wf (bans st) \<and> (\<forall>(k, r) \<in> set (bans st). br_subject r = k)"

definition crdt_keyed :: "(ip_net, CrdtBanRecord) hmap \<Rightarrow> bool" where
  "crdt_keyed m \<longleftrightarrow> hm_wf m \<and> (\<forall>(k, r) \<in> set m. cr_subject r = k)"

lemma mem_wf_split:
  "mem_wf m \<longleftrightarrow> bans_keyed (ban_store m) \<and> crdt_keyed (crdt_store m) \<and> hm_wf (revocations m)"
  by (auto simp: mem_wf_def bans_keyed_def crdt_keyed_def)

lemma add_ban_keyed: "bans_keyed st \<Longrightarrow> bans_keyed (add_ban r st)"
  by (auto simp: bans_keyed_def add_ban_def Let_def hm_set_insert split: option.splits)

lemma remove_ban_keyed: "bans_keyed st \<Longrightarrow> bans_keyed (snd (remove_ban s st))"
  by (auto simp: bans_keyed_def remove_ban_def hm_set_remove split: option.splits)

lemma crdt_keyed_insert: "crdt_keyed m \<Longrightarrow> cr_subject r = s \<Longrightarrow> crdt_keyed (hm_insert s r m)"
  by (auto simp: crdt_keyed_def hm_set_insert)

lemma crdt_apply_keyed: "crdt_keyed m \<Longrightarrow> crdt_keyed (crdt_apply m r)"
  by (auto simp: crdt_apply_def crdt_merge_def Let_def intro!: crdt_keyed_insert split: option.splits)

lemma tombstone_entry_keyed: "crdt_keyed m \<Longrightarrow> crdt_keyed (tombstone_entry s m)"
  by (auto simp: tombstone_entry_def intro!: crdt_keyed_insert split: option.splits)
    (auto simp: crdt_keyed_def dest: map_of_SomeD)

lemmas keyed_intros = add_ban_keyed remove_ban_keyed crdt_apply_keyed tombstone_entry_keyed

lemma replay_entry_wf: "mem_wf m \<Longrightarrow> mem_wf (replay_entry e m)"
  by (cases e) (simp_all add: mem_wf_split keyed_intros)

lemma sm_empty_wf: "mem_wf (sm_empty E)"
  by (simp add: mem_wf_def sm_empty_def store_new_def)

section \<open>Replaying a log twice\<close>

text \<open>
  A crash between the two steps of \<open>take_snapshot\<close> leaves the new snapshot with the old
  log, whose entries are applied again at the next start.
\<close>

text \<open>A stored ban: a truncated network without any protected address.\<close>

definition ban_ok :: "BanRecord \<Rightarrow> bool" where
  "ban_ok r \<longleftrightarrow> net_ok (br_subject r) \<and> truncated (br_subject r)
     \<and> (\<forall>w \<in> set protected_nets. \<forall>ip. \<not> (in_net w ip \<and> in_net (br_subject r) ip))"

fun entry_ok :: "WalEntry \<Rightarrow> bool" where
  "entry_ok (AddCrdtBan r) = crdt_wf r"
| "entry_ok (AddBan r) = ban_ok r"
| "entry_ok _ = True"

fun entry_key :: "WalEntry \<Rightarrow> ip_net option" where
  "entry_key (AddCrdtBan r) = Some (cr_subject r)"
| "entry_key (TombstoneCrdtBan s) = Some s"
| "entry_key _ = None"

fun crdt_one :: "WalEntry \<Rightarrow> CrdtBanRecord option \<Rightarrow> CrdtBanRecord option" where
  "crdt_one (AddCrdtBan r) x = (case x of
       None \<Rightarrow> Some r
     | Some x \<Rightarrow> (case crdt_merge x r of Some m \<Rightarrow> Some m | None \<Rightarrow> Some x))"
| "crdt_one (TombstoneCrdtBan s) x = map_option (cr_tombstone_update (\<lambda>_. True)) x"
| "crdt_one _ x = x"

lemma crdt_write_one: "crdt_write e f k = (if entry_key e = Some k then crdt_one e (f k) else f k)"
  by (cases e) auto

lemma fold_crdt_write:
  "fold crdt_write es f k = fold crdt_one (filter (\<lambda>e. entry_key e = Some k) es) (f k)"
  by (induction es arbitrary: f) (auto simp: crdt_write_one)

lemma crdt_one_mono:
  assumes "entry_key e = Some k" "x = Some y" "cr_subject y = k"
  shows "\<exists>z. crdt_one e x = Some z \<and> crdt_le y z \<and> cr_subject z = k
    \<and> (\<forall>r. e = AddCrdtBan r \<longrightarrow> crdt_le r z)"
proof (cases e)
  case (AddCrdtBan r)
  then have s: "cr_subject y = cr_subject r" using assms by simp
  then show ?thesis
    using AddCrdtBan assms crdt_le_join [OF s] by (simp add: crdt_merge_Some)
qed (use assms in auto)

lemma crdt_fold_above:
  assumes "\<forall>e \<in> set es. entry_key e = Some k" "\<forall>y. x = Some y \<longrightarrow> cr_subject y = k"
    and "fold crdt_one es x = Some z"
  shows "cr_subject z = k \<and> (\<forall>y. x = Some y \<longrightarrow> crdt_le y z)
    \<and> (\<forall>r. AddCrdtBan r \<in> set es \<longrightarrow> crdt_le r z)"
  using assms
proof (induction es arbitrary: x)
  case (Cons e es)
  show ?case
  proof (cases x)
    case (Some y)
    then obtain y' where y': "crdt_one e x = Some y'" "crdt_le y y'" "cr_subject y' = k"
      "\<forall>r. e = AddCrdtBan r \<longrightarrow> crdt_le r y'"
      using crdt_one_mono [of e k x y] Cons.prems by auto
    then show ?thesis using Cons.IH [of "Some y'"] Cons.prems Some crdt_le_trans by auto
  next
    case None
    then show ?thesis
      using Cons.IH [of "crdt_one e x"] Cons.prems by (cases e) auto
  qed
qed auto

text \<open>Over a record that is above all of them, the entries only move the flag.\<close>

fun flag_after :: "WalEntry \<Rightarrow> CrdtBanRecord \<Rightarrow> bool \<Rightarrow> bool" where
  "flag_after (AddCrdtBan r) z b = crdt_quorum z"
| "flag_after (TombstoneCrdtBan s) z b = True"
| "flag_after _ z b = b"

lemma crdt_fold_flags:
  assumes "\<forall>r. AddCrdtBan r \<in> set es \<longrightarrow> crdt_le r z"
  shows "fold crdt_one es (Some (z\<lparr>cr_tombstone := b\<rparr>)) =
    Some (z\<lparr>cr_tombstone := fold (\<lambda>e. flag_after e z) es b\<rparr>)"
  using assms
proof (induction es arbitrary: b)
  case (Cons e es)
  have "crdt_one e (Some (z\<lparr>cr_tombstone := b\<rparr>)) = Some (z\<lparr>cr_tombstone := flag_after e z b\<rparr>)"
    using Cons.prems by (cases e) (auto simp: crdt_merge_absorb)
  then show ?case using Cons by simp
qed simp

lemma crdt_final_flag:
  assumes "\<forall>e \<in> set es. entry_key e = Some k \<and> entry_ok e" "\<forall>y. x = Some y \<longrightarrow> cr_subject y = k"
    and "fold crdt_one es x = Some z"
  shows "fold (\<lambda>e. flag_after e z) es (cr_tombstone z) = cr_tombstone z"
proof (cases es rule: rev_cases)
  case (snoc es' e)
  let ?y = "fold crdt_one es' x"
  have z: "crdt_one e ?y = Some z" using assms(3) snoc by simp
  have sub: "cr_subject y = k" if "?y = Some y" for y
    using crdt_fold_above [of es' k x y] assms snoc that by auto
  show ?thesis
  proof (cases e)
    case (AddCrdtBan r)
    then have r: "cr_subject r = k" "crdt_wf r" using assms(1) snoc by auto
    have "cr_tombstone z = crdt_quorum z"
    proof (cases ?y)
      case None
      then show ?thesis using z AddCrdtBan r(2) by (simp add: crdt_wf_def crdt_quorum_def)
    next
      case (Some y)
      then have "crdt_merge y r = Some z"
        using z AddCrdtBan crdt_merge_Some [of y r] sub r by simp
      then show ?thesis using crdt_merge_wf by (simp add: crdt_wf_def crdt_quorum_def)
    qed
    then show ?thesis using snoc AddCrdtBan by simp
  next
    case (TombstoneCrdtBan s)
    then show ?thesis using z snoc by auto
  qed (use assms(1) snoc in auto)
qed simp

lemma crdt_fold_idem:
  assumes "\<forall>e \<in> set es. entry_key e = Some k \<and> entry_ok e" "\<forall>y. x = Some y \<longrightarrow> cr_subject y = k"
  shows "fold crdt_one es (fold crdt_one es x) = fold crdt_one es x"
proof (cases "fold crdt_one es x")
  case None
  have never: "fold crdt_one es' (Some y) \<noteq> None"
    if "\<forall>e \<in> set es'. entry_key e = Some k" "cr_subject y = k" for es' y
    using that
  proof (induction es' arbitrary: y)
    case (Cons e es')
    then show ?case using crdt_one_mono [of e k "Some y" y] by auto
  qed simp
  have "x = None"
  proof (cases x)
    case (Some y)
    then show ?thesis using never [of es y] None assms by auto
  qed
  then show ?thesis using None by simp
next
  case (Some z)
  have above: "\<forall>r. AddCrdtBan r \<in> set es \<longrightarrow> crdt_le r z"
    using crdt_fold_above [OF _ assms(2) Some] assms(1) by blast
  show ?thesis
    using Some crdt_fold_flags [OF above, of "cr_tombstone z"] crdt_final_flag [OF assms Some] by simp
qed

lemma fold_abs_apply:
  "a_bans (fold abs_apply es S) = writes (concat (List.map ban_writes es)) (a_bans S)"
  "a_whitelist (fold abs_apply es S) = writes (concat (List.map whitelist_writes es)) (a_whitelist S)"
  "a_revocations (fold abs_apply es S) = writes (concat (List.map revocation_writes es)) (a_revocations S)"
  "a_crdt (fold abs_apply es S) = fold crdt_write es (a_crdt S)"
  by (induction es arbitrary: S) (simp_all add: abs_apply_def)

definition abs_keyed :: "AbsState \<Rightarrow> bool" where
  "abs_keyed S \<longleftrightarrow> (\<forall>k y. a_crdt S k = Some y \<longrightarrow> cr_subject y = k)"

lemma abs_apply_idem:
  assumes "list_all entry_ok es" "abs_keyed S"
  shows "fold abs_apply es (fold abs_apply es S) = fold abs_apply es S"
proof -
  have "fold crdt_write es (fold crdt_write es (a_crdt S)) k = fold crdt_write es (a_crdt S) k" for k
    using crdt_fold_idem [of "filter (\<lambda>e. entry_key e = Some k) es" k "a_crdt S k"] assms
    by (simp add: fold_crdt_write list_all_iff abs_keyed_def)
  then show ?thesis
    by (intro AbsState.equality) (simp_all add: fold_abs_apply fold_upd_idem fun_eq_iff)
qed

lemma sm_abs_keyed: "mem_wf m \<Longrightarrow> abs_keyed (sm_abs m)"
  by (auto simp: abs_keyed_def sm_abs_def mem_wf_def dest!: map_of_SomeD)

section \<open>Snapshots\<close>

lemma foldl_add_ban:
  "hm_get (bans (foldl (\<lambda>st b. add_ban b st) st rs)) k =
     (case map_of (rev (List.map (\<lambda>r. (br_subject r, r)) rs)) k of None \<Rightarrow> hm_get (bans st) k | Some r \<Rightarrow> Some r)"
  by (induction rs arbitrary: st) (auto simp: add_ban_get map_add_def split: option.splits)

lemma keyed_values: "\<forall>(k, r) \<in> set m. sub r = k \<Longrightarrow> List.map (\<lambda>r. (sub r, r)) (hm_values m) = m"
  by (induction m) (auto simp: hm_values_def)

lemma foldl_add_ban_keyed: "bans_keyed st \<Longrightarrow> bans_keyed (foldl (\<lambda>st b. add_ban b st) st rs)"
  by (induction rs arbitrary: st) (simp_all add: add_ban_keyed)

lemma foldl_crdt_keyed:
  "crdt_keyed m \<Longrightarrow> crdt_keyed (foldl (\<lambda>cs c. hm_insert (cr_subject c) c cs) m rs)"
  by (induction rs arbitrary: m) (simp_all add: crdt_keyed_insert)

lemma insert_pair_fun: "(\<lambda>r (s, t). hm_insert s t r) = (\<lambda>m x. hm_insert (fst x) (snd x) m)"
  by (simp add: fun_eq_iff case_prod_beta)

lemma from_snapshot_wf: "mem_wf (from_snapshot E res)"
proof -
  have "hm_wf (foldl (\<lambda>r (s, t). hm_insert s t r) [] xs)" for xs :: "(ip_net \<times> instant) list"
    using foldl_hm_insert_wf [of "[]" fst snd xs] by (simp add: insert_pair_fun)
  moreover have "bans_keyed store_new" "crdt_keyed []"
    by (simp_all add: bans_keyed_def crdt_keyed_def store_new_def)
  ultimately show ?thesis
    by (simp add: mem_wf_split from_snapshot_def sm_empty_def Let_def foldl_add_ban_keyed foldl_crdt_keyed)
qed

lemma set_foldl_wl_add:
  "set (wl_entries (foldl (\<lambda>wl n. wl_add n wl) wl ns)) = set (wl_entries wl) \<union> set ns"
  by (induction ns arbitrary: wl) auto

lemma from_snapshot_abs:
  assumes "mem_wf m"
  shows "sm_abs (from_snapshot E \<lparr>sr_bans = get_all_bans (ban_store m),
      sr_whitelist = wl_entries (whitelist m), sr_crdt_bans = hm_values (crdt_store m),
      sr_revocations = revocations m\<rparr>) = sm_abs m"
proof -
  have b: "List.map (\<lambda>r. (br_subject r, r)) (get_all_bans (ban_store m)) = bans (ban_store m)"
    and c: "List.map (\<lambda>r. (cr_subject r, r)) (hm_values (crdt_store m)) = crdt_store m"
    using assms by (simp_all add: mem_wf_def get_all_bans_def keyed_values)
  show ?thesis
    using assms foldl_hm_insert [of fst snd "[]" "revocations m"]
      foldl_hm_insert [of cr_subject "\<lambda>x. x" "[]" "hm_values (crdt_store m)"]
    by (simp add: sm_abs_def from_snapshot_def sm_empty_def Let_def fun_eq_iff foldl_add_ban b c
        map_of_rev_distinct mem_wf_def store_new_def wl_new_def set_foldl_wl_add insert_pair_fun
        split: option.splits)
qed

section \<open>Operations, restarts and reachable states\<close>

definition sm_restart :: "sm_env \<Rightarrow> WalSyncMode \<Rightarrow> StateManager \<Rightarrow> StateManager result" where
  "sm_restart E mode sm =
     sm_new E mode (snapshot_file sm) (Some (wal_file (wal_writer sm), length (wal_file (wal_writer sm))))"

datatype sm_op =
    SmAddBan BanRecord
  | SmAdmitBan BanRecord instant
  | SmRemoveBan ip_net
  | SmRevokeBan instant ip_net
  | SmAddWhitelist ip_net
  | SmRevokeCovered
  | SmRemoveWhitelist ip_net
  | SmAddCrdtBan CrdtBanRecord
  | SmTombstone ip_net
  | SmTakeSnapshot save_outcome trunc_outcome
  | SmFlush bool

fun sm_step :: "sm_env \<Rightarrow> (WalEntry \<Rightarrow> io_outcome) \<Rightarrow> sm_op \<Rightarrow> StateManager \<Rightarrow> StateManager" where
  "sm_step E io (SmAddBan r) sm = snd (sm_add_ban E io r sm)"
| "sm_step E io (SmAdmitBan r now) sm = snd (sm_admit_ban E io r now sm)"
| "sm_step E io (SmRemoveBan s) sm = snd (sm_remove_ban E io s sm)"
| "sm_step E io (SmRevokeBan now s) sm = snd (sm_revoke_ban E io now s sm)"
| "sm_step E io (SmAddWhitelist n) sm = snd (sm_add_whitelist E io n sm)"
| "sm_step E io SmRevokeCovered sm = snd (sm_revoke_covered E io sm)"
| "sm_step E io (SmRemoveWhitelist n) sm = snd (sm_remove_whitelist E io n sm)"
| "sm_step E io (SmAddCrdtBan r) sm = snd (sm_add_crdt_ban E io r sm)"
| "sm_step E io (SmTombstone s) sm = snd (sm_tombstone_crdt_ban E io s sm)"
| "sm_step E io (SmTakeSnapshot s t) sm = snd (sm_take_snapshot E s t sm)"
| "sm_step E io (SmFlush ok) sm = snd (sm_flush_wal ok sm)"

text \<open>
  What the callers guarantee: subjects are values of the type \<open>IpNet\<close>, replicated records
  carry the tombstone flag their votes give, and the state fits a loadable snapshot.
\<close>

definition snapshot_fits :: "sm_env \<Rightarrow> StateManager \<Rightarrow> bool" where
  "snapshot_fits E sm \<longleftrightarrow>
     (case encode (postcard_v4 (env_snap E)) \<lparr>v4_bans = get_all_bans (ban_store sm),
         v4_whitelist = wl_entries (whitelist sm), v4_crdt_bans = hm_values (crdt_store sm),
         v4_revocations = revocations sm\<rparr> of
        None \<Rightarrow> True
      | Some bs \<Rightarrow> length bs + 8 \<le> SNAPSHOT_MAX_SIZE)"

fun sm_op_ok :: "sm_env \<Rightarrow> sm_op \<Rightarrow> StateManager \<Rightarrow> bool" where
  "sm_op_ok E (SmAddBan r) sm = net_ok (br_subject r)"
| "sm_op_ok E (SmAdmitBan r now) sm = net_ok (br_subject r)"
| "sm_op_ok E (SmAddCrdtBan r) sm = crdt_wf r"
| "sm_op_ok E (SmTakeSnapshot s t) sm = snapshot_fits E sm"
| "sm_op_ok E _ sm = True"

text \<open>
  Any outcome \<open>io\<close> of the file operations is allowed in a step, and a restart at any
  point. A crash between the two halves of \<open>take_snapshot\<close> is a restart after the step
  whose truncation failed to open the file.
\<close>

inductive sm_reach :: "sm_env \<Rightarrow> StateManager \<Rightarrow> bool" for E where
  start: "sm_new E mode None None = Inr sm \<Longrightarrow> sm_reach E sm"
| step: "sm_reach E sm \<Longrightarrow> sm_op_ok E op sm \<Longrightarrow> sm_reach E (sm_step E io op sm)"
| restart: "sm_reach E sm \<Longrightarrow> sm_restart E mode sm = Inr sm' \<Longrightarrow> sm_reach E sm'"

section \<open>The invariant between memory and files\<close>

text \<open>
  The appends that the operations make in an abstract state: a revocation never
  lowers the cutoff of its subject.
\<close>

fun entry_mono :: "AbsState \<Rightarrow> WalEntry \<Rightarrow> bool" where
  "entry_mono S (RevokeBan s c) = (case a_revocations S s of None \<Rightarrow> True | Some c0 \<Rightarrow> c0 \<le> c)"
| "entry_mono S _ = True"

definition ok_ops :: "AbsState \<Rightarrow> WalEntry wal_op set" where
  "ok_ops S = {op. case op of WAppend e _ \<Rightarrow> entry_ok e \<and> entry_mono S e | WFlush _ \<Rightarrow> True}"

definition abs_safe :: "AbsState \<Rightarrow> bool" where
  "abs_safe S \<longleftrightarrow> (\<forall>k r. a_bans S k = Some r \<longrightarrow> ban_ok r)"

definition mem_inv :: "'a SmMemory_scheme \<Rightarrow> bool" where
  "mem_inv m \<longleftrightarrow> mem_wf m \<and> wl_immutable (whitelist m) = protected_nets"

definition sm_log :: "sm_env \<Rightarrow> StateManager \<Rightarrow> WalEntry list \<Rightarrow> bool" where
  "sm_log E sm es \<longleftrightarrow> list_all entry_ok es
     \<and> wal_inv (env_wal E) (env_crc E) (ok_ops (sm_abs sm)) (sync_mode (wal_writer sm)) [] (es, wal_writer sm)"

definition sm_inv :: "sm_env \<Rightarrow> StateManager \<Rightarrow> bool" where
  "sm_inv E sm \<longleftrightarrow> mem_inv sm \<and> abs_safe (sm_abs sm) \<and> (\<exists>base es. sm_load E (snapshot_file sm) = Inr base
     \<and> sm_log E sm es \<and> sm_abs sm = fold abs_apply es (sm_abs base))"

lemma abs_safe_apply: "abs_safe S \<Longrightarrow> entry_ok e \<Longrightarrow> abs_safe (abs_apply e S)"
  by (cases e) (auto simp: abs_safe_def abs_apply_def)

lemma sm_load_wf: "sm_load E f = Inr m \<Longrightarrow> mem_wf m"
  by (auto simp: sm_load_def sm_empty_wf from_snapshot_wf split: option.splits sum.splits)

lemma foldl_wl_add_immutable [simp]: "wl_immutable (foldl (\<lambda>wl n. wl_add n wl) wl ns) = wl_immutable wl"
  by (induction ns arbitrary: wl) simp_all

lemma sm_load_inv: "parses_protected (env_parse E) \<Longrightarrow> sm_load E f = Inr m \<Longrightarrow> mem_inv m"
  using sm_load_wf [of E f m]
  by (auto simp: mem_inv_def sm_load_def sm_empty_def from_snapshot_def Let_def wl_new_immutable
      split: option.splits sum.splits)

lemma replay_entry_inv: "mem_inv m \<Longrightarrow> mem_inv (replay_entry e m)"
  using replay_entry_wf [of m e] by (cases e) (simp_all add: mem_inv_def)

lemma sm_append_mem:
  "sm_append E io e sm = (r, sm') \<Longrightarrow> \<exists>w. sm' = sm\<lparr>wal_writer := w\<rparr>"
  by (auto simp: sm_append_def split: prod.splits)

lemma sm_abs_wal [simp]:
  "sm_abs (sm\<lparr>wal_writer := w\<rparr>) = sm_abs sm" "mem_inv (sm\<lparr>wal_writer := w\<rparr>) = mem_inv sm"
  "sm_abs (sm\<lparr>snapshot_file := f\<rparr>) = sm_abs sm" "mem_inv (sm\<lparr>snapshot_file := f\<rparr>) = mem_inv sm"
  by (simp_all add: sm_abs_def mem_inv_def mem_wf_def)

lemma sm_inv_mem: "sm_inv E sm \<Longrightarrow> mem_inv sm"
  by (simp add: sm_inv_def)

lemmas abs_defs = sm_abs_def abs_apply_def fun_eq_iff add_ban_get remove_ban_get crdt_apply_write
  tombstone_entry_get mem_inv_def mem_wf_split keyed_intros

lemma sm_admit_ban_cases:
  "snd (sm_admit_ban E io r now sm) = sm \<or>
   (\<exists>r'. br_subject r' = br_subject r \<and> snd (sm_admit_ban E io r now sm) = snd (sm_add_ban E io r' sm))"
proof -
  have "snd (case p of (Inl e, s) \<Rightarrow> (Inl e, s) | (Inr _, s) \<Rightarrow> (Inr x, s)) = snd p"
    for p :: "unit result \<times> StateManager" and x :: BanAdmission
    by (auto split: prod.splits sum.splits)
  moreover have "br_subject (fst (extend_existing now c r)) = br_subject r" for c
    by (auto simp: extend_existing_def split: option.splits)
  ultimately show ?thesis
    by (simp add: sm_admit_ban_def Let_def case_prod_beta split: option.splits) blast
qed

text \<open>Without a failed write the set of operations does not matter.\<close>

lemma wal_inv_change: "\<not> write_failed w \<Longrightarrow> wal_inv C crc S mode E0 (a, w) = wal_inv C crc S' mode E0 (a, w)"
  by (simp add: wal_inv_def)

lemma wal_append_ok: "wal_append C crc io e w = (Inr u, w') \<Longrightarrow> \<not> write_failed w'"
  by (auto simp: wal_append_def Let_def split: if_splits option.splits io_outcome.splits)

lemma wal_inv_truncate:
  assumes "wal_inv C crc (ok_ops S) (sync_mode w) [] (es, w)" "wal_truncate io w = (res, w')"
  shows "w' = w \<or> wal_inv C crc (ok_ops S) (sync_mode w') [] ([], w')"
proof (cases io)
  case TruncSyncFailed
  have "failed_tail C crc (ok_ops S) []" if wf: "write_failed w"
  proof -
    obtain tail where "failed_tail C crc (ok_ops S) tail" using assms(1) wf by (auto simp: wal_inv_def)
    then obtain e p k where "WAppend e (IoFail k) \<in> (ok_ops S)" "encode C e = Some p"
      "length p \<le> WAL_MAX_RECORD_SIZE" by (auto simp: failed_tail_def)
    moreover from this have "WAppend e (IoFail 0) \<in> (ok_ops S)" by (simp add: ok_ops_def)
    ultimately show ?thesis unfolding failed_tail_def by (intro exI [of _ e] exI [of _ p] exI [of _ 0]) simp
  qed
  then show ?thesis
    using assms(2) TruncSyncFailed
    by (auto simp: wal_truncate_def intro!: wal_invI [where base = "[]" and tail = "[]"])
next
  case TruncOk
  then show ?thesis
    using assms(2) by (auto simp: wal_truncate_def intro!: wal_invI [where base = "[]" and tail = "[]"])
qed (use assms(2) in \<open>auto simp: wal_truncate_def\<close>)

lemma foldl_replay_abs: "sm_abs (foldl (\<lambda>m e. replay_entry e m) m es) = fold abs_apply es (sm_abs m)"
  by (induction es arbitrary: m) (simp_all add: replay_entry_abs)

lemma foldl_replay_inv: "mem_inv m \<Longrightarrow> mem_inv (foldl (\<lambda>m e. replay_entry e m) m es)"
  by (induction es arbitrary: m) (simp_all add: replay_entry_inv)

lemma sm_extend_simps [simp]:
  "sm_abs (SmMemory.extend m x) = sm_abs m" "mem_inv (SmMemory.extend m x) = mem_inv m"
  "wal_writer (SmMemory.extend m (StateManager.fields w f)) = w"
  "snapshot_file (SmMemory.extend m (StateManager.fields w f)) = f"
  by (simp_all add: sm_abs_def mem_inv_def mem_wf_def SmMemory.extend_def StateManager.fields_def)

lemma wal_open_mode [simp]: "sync_mode (wal_open C crc d mode) = mode"
  by (simp add: wal_open_def Let_def case_prod_beta)

text \<open>The documented behaviour of everything outside the repository that the manager calls.\<close>

locale sm_environment =
  fixes E :: sm_env
  assumes wal_codec: "codec_spec (env_wal E)"
    and snap_codec: "codec_spec (postcard_v4 (env_snap E))"
    and net_crate: "ipnet_spec (env_net E)"
    and parser: "parses_protected (env_parse E)"
begin

lemma sm_log_append:
  assumes "sm_log E sm es" "entry_ok e" "entry_mono (sm_abs sm) e" "sm_append E io e sm = (r, sm')"
  shows "sm_log E sm' (if r = Inr () then es @ [e] else es)
    \<and> (r = Inr () \<longrightarrow> \<not> write_failed (wal_writer sm'))"
proof -
  let ?C = "env_wal E" and ?crc = "env_crc E" and ?w = "wal_writer sm" and ?w' = "wal_writer sm'"
  have app: "wal_append ?C ?crc (io e) e ?w = (r, ?w')"
    using assms(4) by (auto simp: sm_append_def split: prod.splits)
  have mode: "sync_mode ?w' = sync_mode ?w"
    using wal_append_mode [of ?C ?crc "io e" e ?w] by (simp add: app)
  have "wal_inv ?C ?crc (ok_ops (sm_abs sm)) (sync_mode ?w) [] (es, ?w)" using assms(1) by (simp add: sm_log_def)
  from codec_spec.wal_append_inv [OF wal_codec this, of e "io e"] assms(2,3)
  have "wal_inv ?C ?crc (ok_ops (sm_abs sm)) (sync_mode ?w) [] (if r = Inr () then es @ [e] else es, ?w')"
    by (cases r) (simp_all add: app ok_ops_def)
  moreover have "\<not> write_failed ?w'" if "r = Inr ()" using wal_append_ok [OF app [unfolded that]] .
  ultimately show ?thesis
    using assms mode sm_append_mem [OF assms(4)] by (auto simp: sm_log_def)
qed

text \<open>An operation logs an entry and, if that succeeds, applies it to the memory.\<close>

lemma sm_logged_inv:
  assumes inv: "sm_inv E sm" and ok: "entry_ok e" and mono: "entry_mono (sm_abs sm) e"
    and app: "sm_append E io e sm = (res, sm')"
    and upd: "\<And>w. mem_inv (f (sm\<lparr>wal_writer := w\<rparr>)) \<and> wal_writer (f (sm\<lparr>wal_writer := w\<rparr>)) = w
      \<and> snapshot_file (f (sm\<lparr>wal_writer := w\<rparr>)) = snapshot_file sm
      \<and> sm_abs (f (sm\<lparr>wal_writer := w\<rparr>)) = abs_apply e (sm_abs sm)"
  shows "sm_inv E (if res = Inr () then f sm' else sm')"
proof -
  obtain w where w: "sm' = sm\<lparr>wal_writer := w\<rparr>" using sm_append_mem [OF app] by blast
  obtain base es where b: "sm_load E (snapshot_file sm) = Inr base" "sm_log E sm es"
    "sm_abs sm = fold abs_apply es (sm_abs base)" "mem_inv sm" "abs_safe (sm_abs sm)"
    using inv by (auto simp: sm_inv_def)
  have log: "sm_log E sm' (if res = Inr () then es @ [e] else es)
      \<and> (res = Inr () \<longrightarrow> \<not> write_failed (wal_writer sm'))"
    by (rule sm_log_append [OF b(2) ok mono app])
  show ?thesis
  proof (cases "res = Inr ()")
    case True
    have "sm_log E (f sm') (es @ [e])"
      using log True upd [of w] w
        wal_inv_change [of w _ _ "ok_ops (sm_abs sm)" _ _ _ "ok_ops (abs_apply e (sm_abs sm))"]
      by (auto simp: sm_log_def)
    then show ?thesis
      using True b upd [of w] w abs_safe_apply [OF b(5) ok]
      by (auto simp: sm_inv_def intro!: exI [of _ "es @ [e]"])
  next
    case False
    then show ?thesis using log b w by (auto simp: sm_inv_def)
  qed
qed

lemma not_overlaps_ban_ok:
  assumes "mem_inv sm" "net_ok n" "\<not> overlaps (env_net E) (net_trunc (env_net E) n) (whitelist sm)"
    "br_subject r = net_trunc (env_net E) n"
  shows "ban_ok r"
proof -
  have s: "br_subject r = truncate_net n" using assms(2,4) ipnet_spec.trunc [OF net_crate] by simp
  have "\<not> nets_overlap (env_net E) w (truncate_net n)" if "w \<in> set protected_nets" for w
    using that assms s by (auto simp: overlaps_def list_ex_iff mem_inv_def)
  then have "\<not> (in_net w ip \<and> in_net (truncate_net n) ip)" if "w \<in> set protected_nets" for w ip
    using that ipnet_spec.contains_share [OF net_crate, of w "truncate_net n"] protected_nets_ok assms(2)
    unfolding nets_overlap_def list_all_iff by (metis net_ok_truncate)
  then show ?thesis using s assms(2) by (simp add: ban_ok_def)
qed

lemma sm_add_ban_inv:
  assumes "sm_inv E sm" "net_ok (br_subject r)"
  shows "sm_inv E (snd (sm_add_ban E io r sm))"
proof (cases "overlaps (env_net E) (net_trunc (env_net E) (br_subject r)) (whitelist sm)")
  case False
  let ?r = "r\<lparr>br_subject := net_trunc (env_net E) (br_subject r)\<rparr>"
  obtain res sm' where a: "sm_append E io (AddBan ?r) sm = (res, sm')" by fastforce
  have "entry_ok (AddBan ?r)" using not_overlaps_ban_ok [OF sm_inv_mem assms(2) False] assms(1) by simp
  then have "sm_inv E (if res = Inr () then sm'\<lparr>ban_store := add_ban ?r (ban_store sm')\<rparr> else sm')"
    using sm_inv_mem [OF assms(1)]
    by (intro sm_logged_inv [OF assms(1) _ _ a, where f = "\<lambda>s. s\<lparr>ban_store := add_ban ?r (ban_store s)\<rparr>"])
      (auto simp: abs_defs)
  then show ?thesis using False a by (cases res) (simp_all add: sm_add_ban_def Let_def)
qed (use assms(1) in \<open>simp add: sm_add_ban_def Let_def\<close>)

lemma sm_admit_ban_inv:
  assumes "sm_inv E sm" "net_ok (br_subject r)"
  shows "sm_inv E (snd (sm_admit_ban E io r now sm))"
  using sm_admit_ban_cases [of E io r now sm] sm_add_ban_inv [OF assms(1), of _ io] assms by auto

lemma sm_remove_ban_inv:
  assumes "sm_inv E sm"
  shows "sm_inv E (snd (sm_remove_ban E io s sm))"
proof -
  obtain res sm' where a: "sm_append E io (RemoveBan s) sm = (res, sm')" by fastforce
  have "sm_inv E (if res = Inr () then sm'\<lparr>ban_store := snd (remove_ban s (ban_store sm'))\<rparr> else sm')"
    using sm_inv_mem [OF assms]
    by (intro sm_logged_inv [OF assms _ _ a, where f = "\<lambda>x. x\<lparr>ban_store := snd (remove_ban s (ban_store x))\<rparr>"])
      (auto simp: abs_defs)
  then show ?thesis
    using a by (cases res) (simp_all add: sm_remove_ban_def case_prod_beta)
qed

lemma sm_revoke_ban_inv:
  assumes "sm_inv E sm"
  shows "sm_inv E (snd (sm_revoke_ban E io now s sm))"
proof -
  let ?s = "net_trunc (env_net E) s"
  let ?c = "revoke_cutoff now ?s sm"
  obtain res sm' where a: "sm_append E io (RevokeBan ?s ?c) sm = (res, sm')" by fastforce
  have "sm_inv E (if res = Inr () then sm'\<lparr>revocations := hm_insert ?s ?c (revocations sm'),
      ban_store := snd (remove_ban ?s (ban_store sm'))\<rparr> else sm')"
    using sm_inv_mem [OF assms]
    by (intro sm_logged_inv [OF assms _ _ a, where f = "\<lambda>x. x\<lparr>revocations := hm_insert ?s ?c (revocations x),
        ban_store := snd (remove_ban ?s (ban_store x))\<rparr>"])
      (auto simp: abs_defs revoke_cutoff_def Let_def split: option.splits)
  then show ?thesis
    using a by (cases res) (simp_all add: sm_revoke_ban_def Let_def case_prod_beta)
qed

lemma sm_remove_whitelist_inv:
  assumes "sm_inv E sm"
  shows "sm_inv E (snd (sm_remove_whitelist E io n sm))"
proof -
  obtain res sm' where a: "sm_append E io (RemoveWhitelist n) sm = (res, sm')" by fastforce
  have "sm_inv E (if res = Inr () then sm'\<lparr>whitelist := snd (wl_remove n (whitelist sm'))\<rparr> else sm')"
    using sm_inv_mem [OF assms]
    by (intro sm_logged_inv [OF assms _ _ a, where f = "\<lambda>x. x\<lparr>whitelist := snd (wl_remove n (whitelist x))\<rparr>"])
      (auto simp: abs_defs)
  then show ?thesis using a by (cases res) (simp_all add: sm_remove_whitelist_def)
qed

lemma sm_add_crdt_ban_inv:
  assumes "sm_inv E sm" "crdt_wf r"
  shows "sm_inv E (snd (sm_add_crdt_ban E io r sm))"
proof -
  obtain res sm' where a: "sm_append E io (AddCrdtBan r) sm = (res, sm')" by fastforce
  have "sm_inv E (if res = Inr () then sm'\<lparr>crdt_store := crdt_apply (crdt_store sm') r\<rparr> else sm')"
    using sm_inv_mem [OF assms(1)] assms(2)
    by (intro sm_logged_inv [OF assms(1) _ _ a, where f = "\<lambda>x. x\<lparr>crdt_store := crdt_apply (crdt_store x) r\<rparr>"])
      (auto simp: abs_defs)
  then show ?thesis using a by (cases res) (simp_all add: sm_add_crdt_ban_def)
qed

lemma sm_tombstone_inv:
  assumes "sm_inv E sm"
  shows "sm_inv E (snd (sm_tombstone_crdt_ban E io s sm))"
proof -
  obtain res sm' where a: "sm_append E io (TombstoneCrdtBan s) sm = (res, sm')" by fastforce
  have "sm_inv E (if res = Inr () then sm'\<lparr>crdt_store := tombstone_entry s (crdt_store sm')\<rparr> else sm')"
    using sm_inv_mem [OF assms]
    by (intro sm_logged_inv [OF assms _ _ a, where f = "\<lambda>x. x\<lparr>crdt_store := tombstone_entry s (crdt_store x)\<rparr>"])
      (auto simp: abs_defs)
  then show ?thesis
    using a by (cases res) (auto simp: sm_tombstone_crdt_ban_def tombstone_entry_def split: option.splits)
qed

lemma revoke_loop_inv: "sm_inv E sm \<Longrightarrow> sm_inv E (snd (revoke_loop E io ss revoked sm))"
proof (induction ss arbitrary: revoked sm)
  case (Cons s ss)
  obtain res sm1 where r: "sm_remove_ban E io s sm = (res, sm1)" by fastforce
  obtain res2 sm2 where t: "sm_tombstone_crdt_ban E io s sm1 = (res2, sm2)" by fastforce
  have 1: "sm_inv E sm1" using sm_remove_ban_inv [OF Cons.prems, of io s] r by simp
  then have 2: "sm_inv E sm2" using sm_tombstone_inv [of sm1 io s] t by simp
  show ?case
    using Cons.IH 1 2 by (cases res; cases res2) (simp_all add: r t Let_def)
qed simp

lemma sm_add_whitelist_inv:
  assumes "sm_inv E sm"
  shows "sm_inv E (snd (sm_add_whitelist E io n sm))"
proof -
  obtain res sm' where a: "sm_append E io (AddWhitelist n) sm = (res, sm')" by fastforce
  have "sm_inv E (if res = Inr () then sm'\<lparr>whitelist := wl_add n (whitelist sm')\<rparr> else sm')"
    using sm_inv_mem [OF assms]
    by (intro sm_logged_inv [OF assms _ _ a, where f = "\<lambda>x. x\<lparr>whitelist := wl_add n (whitelist x)\<rparr>"])
      (auto simp: abs_defs)
  then show ?thesis
    using a revoke_loop_inv
    by (cases res) (simp_all add: sm_add_whitelist_def sm_revoke_covered_def Let_def)
qed

lemma sm_saved_load:
  assumes "snapshot_fits E sm" "mem_wf sm"
    and "save_snapshot_with_revocations (env_snap E) io (get_all_bans (ban_store sm))
      (wl_entries (whitelist sm)) (hm_values (crdt_store sm)) (revocations sm) f = (res, f')"
  shows "(f' = f \<and> res \<noteq> Inr ()) \<or> (\<exists>m. sm_load E f' = Inr m \<and> sm_abs m = sm_abs sm)"
  using save_snapshot_cases [OF assms(3)] assms(1)
  by (auto simp: snapshot_fits_def sm_load_def from_snapshot_abs [OF assms(2)]
      load_saved [OF snap_codec, where junk = "[]", simplified])

lemma sm_take_snapshot_inv:
  assumes "sm_inv E sm" "snapshot_fits E sm"
  shows "sm_inv E (snd (sm_take_snapshot E save_io trunc_io sm))"
proof -
  obtain base es where b: "sm_load E (snapshot_file sm) = Inr base" "sm_log E sm es"
    "sm_abs sm = fold abs_apply es (sm_abs base)" and wf: "mem_wf sm"
    and mem: "mem_inv sm" "abs_safe (sm_abs sm)"
    using assms(1) by (auto simp: sm_inv_def mem_inv_def)
  obtain res f where s: "save_snapshot_with_revocations (env_snap E) save_io (get_all_bans (ban_store sm))
      (wl_entries (whitelist sm)) (hm_values (crdt_store sm)) (revocations sm) (snapshot_file sm) = (res, f)"
    by fastforce
  obtain tr w where t: "wal_truncate trunc_io (wal_writer sm) = (tr, w)" by fastforce
  have idem: "fold abs_apply es (sm_abs sm) = sm_abs sm"
    using abs_apply_idem [of es "sm_abs base"] sm_abs_keyed [OF sm_load_wf [OF b(1)]] b(2,3)
    by (simp add: sm_log_def)
  have keep: "sm_inv E (sm\<lparr>snapshot_file := f\<rparr>)"
  proof (cases "f = snapshot_file sm")
    case False
    then obtain m where "sm_load E f = Inr m" "sm_abs m = sm_abs sm"
      using sm_saved_load [OF assms(2) wf s] by blast
    then show ?thesis
      using b(2) mem idem by (auto simp: sm_inv_def sm_log_def)
  qed (use assms(1) in simp)
  have cut: "sm_inv E (sm\<lparr>snapshot_file := f, wal_writer := w\<rparr>)" if ok: "res = Inr ()"
  proof (cases "w = wal_writer sm")
    case False
    obtain m where "sm_load E f = Inr m" "sm_abs m = sm_abs sm"
      using sm_saved_load [OF assms(2) wf s] ok by blast
    moreover have "wal_inv (env_wal E) (env_crc E) (ok_ops (sm_abs sm)) (sync_mode w) [] ([], w)"
      using wal_inv_truncate [OF _ t] b(2) False by (auto simp: sm_log_def)
    ultimately show ?thesis
      using mem by (auto simp: sm_inv_def sm_log_def intro!: exI [of _ "[]"])
  qed (use keep in simp)
  show ?thesis
    using keep cut by (cases res) (simp_all add: sm_take_snapshot_def s t)
qed

lemma sm_restart_inv:
  assumes "sm_inv E sm"
  shows "\<exists>sm'. sm_restart E mode sm = Inr sm' \<and> sm_inv E sm'
    \<and> (sm_abs sm' = sm_abs sm \<or> (write_failed (wal_writer sm)
      \<and> (\<exists>e. entry_mono (sm_abs sm) e \<and> sm_abs sm' = abs_apply e (sm_abs sm))))"
proof -
  let ?w = "wal_writer sm" and ?C = "env_wal E" and ?crc = "env_crc E"
  obtain base es where b: "sm_load E (snapshot_file sm) = Inr base" "sm_log E sm es"
    "sm_abs sm = fold abs_apply es (sm_abs base)" "abs_safe (sm_abs sm)"
    using assms by (auto simp: sm_inv_def)
  have "wal_inv ?C ?crc (ok_ops (sm_abs sm)) (sync_mode ?w) [] (es, ?w)" using b(2) by (simp add: sm_log_def)
  from codec_spec.wal_inv_crash [OF wal_codec this]
  obtain x where x: "x = [] \<or> (\<exists>e k. x = [e] \<and> WAppend e (IoFail k) \<in> ok_ops (sm_abs sm))"
    "wal_replay ?C ?crc (Some (wal_file ?w)) = es @ x" "x \<noteq> [] \<longrightarrow> write_failed ?w" by auto
  let ?m = "foldl (\<lambda>m e. replay_entry e m) base (es @ x)"
  let ?w' = "wal_open ?C ?crc (Some (wal_file ?w, length (wal_file ?w))) mode"
  let ?sm = "SmMemory.extend ?m (StateManager.fields ?w' (snapshot_file sm))"
  have new: "sm_restart E mode sm = Inr ?sm"
    by (simp add: sm_restart_def sm_new_def b(1) x(2))
  have "wal_inv ?C ?crc (ok_ops (sm_abs ?sm)) mode [] (es @ x, ?w')"
    using wal_open_inv [of ?C ?crc "ok_ops (sm_abs ?sm)" mode "wal_file ?w"] x(2) by (simp add: wal_inv_def)
  moreover have ok: "list_all entry_ok (es @ x)"
    using b(2) x(1) by (auto simp: sm_log_def ok_ops_def)
  moreover have "abs_safe (sm_abs ?sm)"
    using x(1) ok b(3,4) abs_safe_apply [OF b(4)] by (auto simp: foldl_replay_abs)
  ultimately have "sm_inv E ?sm"
    using b(1) foldl_replay_inv [OF sm_load_inv [OF parser b(1)], of "es @ x"]
    by (auto simp: sm_inv_def sm_log_def foldl_replay_abs intro!: exI [of _ "es @ x"])
  moreover have "sm_abs ?sm = sm_abs sm \<or> (write_failed ?w
      \<and> (\<exists>e. entry_mono (sm_abs sm) e \<and> sm_abs ?sm = abs_apply e (sm_abs sm)))"
    using x(1,3) b(3) by (auto simp: foldl_replay_abs ok_ops_def)
  ultimately show ?thesis using new by blast
qed

lemma sm_new_empty_inv: "sm_new E mode None None = Inr sm \<Longrightarrow> sm_inv E sm"
  using sm_load_inv [OF parser, of None]
  by (auto simp: sm_new_def sm_load_def sm_inv_def sm_log_def wal_replay_def abs_safe_def sm_abs_def
      replay_with_offset_def wal_open_def Let_def SmMemory.extend_def sm_empty_def store_new_def wl_new_def
      mem_inv_def mem_wf_def StateManager.fields_def
      intro!: exI [of _ "[]"] wal_invI [where base = "[]" and tail = "[]"])

lemma sm_flush_inv:
  assumes "sm_inv E sm"
  shows "sm_inv E (snd (sm_flush_wal ok sm))"
proof -
  obtain r w where f: "wal_flush ok (wal_writer sm) = (r, w)" by fastforce
  have "WFlush ok \<in> ok_ops (sm_abs sm)" "sync_mode w = sync_mode (wal_writer sm)"
    using f by (auto simp: ok_ops_def wal_flush_def split: if_splits)
  then have "sm_log E (sm\<lparr>wal_writer := w\<rparr>) es" if "sm_log E sm es" for es
    using that codec_spec.wal_step_inv [OF wal_codec, of "env_crc E" "ok_ops (sm_abs sm)" _ "[]" "(es, wal_writer sm)" "WFlush ok"] f
    by (simp add: sm_log_def)
  then show ?thesis using assms f by (auto simp: sm_inv_def sm_flush_wal_def)
qed

lemma sm_step_inv:
  assumes "sm_inv E sm" "sm_op_ok E op sm"
  shows "sm_inv E (sm_step E io op sm)"
  using assms
  by (cases op) (simp_all add: sm_add_ban_inv sm_admit_ban_inv sm_remove_ban_inv sm_revoke_ban_inv
      sm_add_whitelist_inv sm_remove_whitelist_inv sm_add_crdt_ban_inv sm_tombstone_inv
      sm_take_snapshot_inv sm_flush_inv sm_revoke_covered_def revoke_loop_inv)

lemma sm_reach_inv: "sm_reach E sm \<Longrightarrow> sm_inv E sm"
proof (induction rule: sm_reach.induct)
  case (restart sm mode sm')
  then show ?case using sm_restart_inv [of sm mode] by auto
qed (simp_all add: sm_new_empty_inv sm_step_inv)

end

definition ex_env :: sm_env where
  "ex_env = \<lparr>env_net = ipnet_ref, env_parse = parse_ref,
     env_wal = table_codec [AddBan (ex_ban (NetV4 0x08080800 24) None), RemoveBan (NetV4 0x08080800 24),
       RevokeBan (NetV4 0x08080800 24) 7],
     env_crc = ex_crc, env_snap = ex_snapshot_codecs\<rparr>"

interpretation ex_env: sm_environment ex_env
  by (rule sm_environment.intro)
    (simp_all add: ex_env_def table_codec_spec ex_snapshot_codecs_def parse_ref_ok ipref.ipnet_spec_axioms)

section \<open>Durability\<close>


definition ex_manager :: StateManager where
  "ex_manager = sm_step ex_env (\<lambda>_. IoOk) (SmAddBan (ex_ban (NetV4 0x08080800 24) None))
     (SmMemory.extend (sm_empty ex_env) (StateManager.fields
        \<lparr>wal_file = [], wal_durable = 0, sync_mode = Fdatasync, write_failed = False\<rparr> None))"

lemma ex_manager_reach: "sm_reach ex_env ex_manager"
  unfolding ex_manager_def
proof (rule sm_reach.step)
  show "sm_reach ex_env (SmMemory.extend (sm_empty ex_env) (StateManager.fields
        \<lparr>wal_file = [], wal_durable = 0, sync_mode = Fdatasync, write_failed = False\<rparr> None))"
    by (rule sm_reach.start [of _ Fdatasync])
      (simp add: sm_new_def sm_load_def wal_replay_def replay_with_offset_def wal_open_def)
qed (simp add: ex_ban_def)

lemma ex_manager_store:
  "hm_get (bans (ban_store ex_manager)) (NetV4 0x08080800 24) = Some (ex_ban (NetV4 0x08080800 24) None)"
  "\<not> write_failed (wal_writer ex_manager)"
proof -
  have trunc: "net_trunc ipnet_ref (NetV4 0x08080800 24) = NetV4 0x08080800 24" by code_simp
  have "\<not> overlaps ipnet_ref (NetV4 0x08080800 24) (wl_new parse_ref)" by code_simp
  moreover have "(ex_ban (NetV4 0x08080800 24) None)\<lparr>br_subject := NetV4 0x08080800 24\<rparr>
      = ex_ban (NetV4 0x08080800 24) None" by (simp add: ex_ban_def)
  moreover have "br_subject (ex_ban (NetV4 0x08080800 24) None) = NetV4 0x08080800 24"
    by (simp add: ex_ban_def)
  ultimately show "hm_get (bans (ban_store ex_manager)) (NetV4 0x08080800 24) = Some (ex_ban (NetV4 0x08080800 24) None)"
    "\<not> write_failed (wal_writer ex_manager)"
    by (simp_all add: ex_manager_def sm_add_ban_def sm_append_def ex_env_def sm_empty_def
        SmMemory.extend_def StateManager.fields_def trunc wal_append_def table_codec_def
        WAL_MAX_RECORD_SIZE_def Let_def add_ban_get)
qed


text \<open>
  C3: no operation, failure or restart ever leaves a ban on a protected address.
  Whatever records are submitted, locally or by peers, every stored network is
  truncated and disjoint from loopback, the private and documentation ranges,
  link-local, multicast and unique-local addresses.
\<close>

theorem protected_never_banned:
  assumes "sm_environment E" "sm_reach E sm" "w \<in> set protected_nets" "in_net w ip"
  shows "\<not> (\<exists>r \<in> set (get_all_bans (ban_store sm)). in_net (br_subject r) ip)
     \<and> keys_truncated (ban_store sm)"
proof -
  have inv: "sm_inv E sm" by (rule sm_environment.sm_reach_inv [OF assms(1,2)])
  have ok: "ban_ok r \<and> br_subject r = k" if "(k, r) \<in> set (bans (ban_store sm))" for k r
    using that inv
    by (auto simp: sm_inv_def abs_safe_def sm_abs_def mem_inv_def mem_wf_def hm_get_eq_Some)
  then show ?thesis
    using assms(3,4) unfolding get_all_bans_def hm_values_def keys_truncated_def hm_keys_def ban_ok_def
    by fastforce
qed

theorem protected_never_banned_witness:
  "\<not> (\<exists>r \<in> set (get_all_bans (ban_store ex_manager)). in_net (br_subject r) (IpV4 0x0A010203))"
proof -
  have "NetV4 0x0A000000 8 \<in> set protected_nets" by (simp add: protected_nets_def)
  moreover have "in_net (NetV4 0x0A000000 8) (IpV4 0x0A010203)" by code_simp
  ultimately show ?thesis
    using protected_never_banned [OF ex_env.sm_environment_axioms ex_manager_reach] by blast
qed

end
