(* ===== verification/State_Policy.thy ===== *)
theory State_Policy
  imports Recovery
begin

text \<open>
  What the operations of the state manager do to the bans: the admission of a ban
  never shortens one, a whitelist entry removes what it covers, and an
  administrative revocation holds against peers from then on.
\<close>

section \<open>Admission\<close>

lemma sm_append_unchanged:
  assumes "sm_append E io e sm = (r, sm')"
  shows "ban_store sm' = ban_store sm" "whitelist sm' = whitelist sm" "crdt_store sm' = crdt_store sm"
    "revocations sm' = revocations sm" "snapshot_file sm' = snapshot_file sm"
  using sm_append_mem [OF assms] by auto

lemma sm_add_ban_ok:
  assumes "sm_add_ban E io r sm = (Inr u, sm')"
  shows "ban_store sm' = add_ban (r\<lparr>br_subject := net_trunc (env_net E) (br_subject r)\<rparr>) (ban_store sm)
    \<and> \<not> overlaps (env_net E) (net_trunc (env_net E) (br_subject r)) (whitelist sm)"
  using assms
  by (auto simp: sm_add_ban_def Let_def sm_append_unchanged split: if_splits prod.splits sum.splits)

lemma sm_admit_ban_added:
  assumes "sm_admit_ban E io r now sm = (Inr outcome, sm')"
    and "List.find (\<lambda>b. ban_active now b \<and> outlasts (br_expires_at b) (br_expires_at r))
      (covering_bans (env_net E) (br_subject r) (ban_store sm)) = None"
  defines "x \<equiv> extend_existing now (covering_bans (env_net E) (br_subject r) (ban_store sm)) r"
  shows "snd x = outcome \<and> (\<exists>u. sm_add_ban E io (fst x) sm = (Inr u, sm'))"
  using assms
  by (auto simp: sm_admit_ban_def Let_def case_prod_beta x_def split: sum.splits prod.splits)
    (metis fst_conv snd_conv sum.case prod.collapse)+

text \<open>
  C23: admission is exact. If an active ban on the subject or on a network around it
  lasts at least as long (to within five minutes), nothing changes and that ban is
  named. Otherwise the new ban is stored: as an extension, with the original start
  time, when the subject itself has an active ban, which then runs out earlier than
  the new one; as a new ban when it has none. Bans on other subjects are never
  touched. So no admission shortens or drops an active ban.
\<close>

theorem admit_ban_never_shortens:
  assumes "ipnet_spec (env_net E)" "store_wf (ban_store sm)" "keys_truncated (ban_store sm)"
    and "net_ok (br_subject r)" "truncated (br_subject r)"
    and "sm_admit_ban E io r now sm = (Inr outcome, sm')"
  shows "case outcome of
      AlreadyCovered by e \<Rightarrow> sm' = sm \<and> (\<exists>b \<in> set (get_all_bans (ban_store sm)).
         br_subject b = by \<and> br_expires_at b = e \<and> ban_active now b
         \<and> (\<forall>ip. in_net (br_subject r) ip \<longrightarrow> in_net by ip) \<and> outlasts e (br_expires_at r))
    | Extended previous \<Rightarrow> (\<exists>b. hm_get (bans (ban_store sm)) (br_subject r) = Some b
         \<and> ban_active now b \<and> br_expires_at b = previous \<and> \<not> outlasts previous (br_expires_at r)
         \<and> hm_get (bans (ban_store sm')) (br_subject r) = Some (r\<lparr>br_created_at := br_created_at b\<rparr>))
         \<and> (\<forall>k. k \<noteq> br_subject r \<longrightarrow> hm_get (bans (ban_store sm')) k = hm_get (bans (ban_store sm)) k)
    | Added \<Rightarrow> (\<forall>b. hm_get (bans (ban_store sm)) (br_subject r) = Some b \<longrightarrow> \<not> ban_active now b)
         \<and> (\<forall>k. hm_get (bans (ban_store sm')) k =
               (if k = br_subject r then Some r else hm_get (bans (ban_store sm)) k))"
proof -
  let ?N = "env_net E" and ?s = "br_subject r" and ?st = "ban_store sm"
  let ?cov = "covering_bans ?N ?s ?st"
  let ?P = "\<lambda>b. ban_active now b \<and> outlasts (br_expires_at b) (br_expires_at r)"
  have cov: "set ?cov = {b \<in> set (get_all_bans ?st). net_covers (br_subject b) ?s}"
    by (rule ipnet_spec.covering_bans_set [OF assms(1-4)])
  have all: "b \<in> set (get_all_bans ?st) \<longleftrightarrow> hm_get (bans ?st) (br_subject b) = Some b" for b
    using assms(2)
    by (force simp: get_all_bans_def hm_values_def store_wf_def hm_get_eq_Some)
  have trunc: "net_trunc ?N ?s = ?s"
    using assms(4,5) ipnet_spec.trunc [OF assms(1)] by (simp add: truncated_def)
  show ?thesis
  proof (cases "List.find ?P ?cov")
    case (Some b)
    then have b: "b \<in> set ?cov" "?P b" unfolding find_Some_iff by (metis nth_mem)+
    then have "\<forall>ip. in_net ?s ip \<longrightarrow> in_net (br_subject b) ip"
      using cov net_covers_iff [of "br_subject b" ?s] all [of b] assms(2)
      by (auto simp: store_wf_def dest!: map_of_SomeD)
    moreover have "outcome = AlreadyCovered (br_subject b) (br_expires_at b)" "sm' = sm"
      using assms(6) Some by (auto simp: sm_admit_ban_def Let_def)
    ultimately show ?thesis using b cov by auto
  next
    case None
    define x where "x = extend_existing now ?cov r"
    obtain u where x: "snd x = outcome" "sm_add_ban E io (fst x) sm = (Inr u, sm')"
      using sm_admit_ban_added [OF assms(6) None] by (auto simp: x_def)
    have sub: "br_subject (fst x) = ?s" by (auto simp: x_def extend_existing_def split: option.splits)
    have get: "hm_get (bans (ban_store sm')) k =
        (if k = ?s then Some (fst x) else hm_get (bans ?st) k)" for k
      using sm_add_ban_ok [OF x(2)] sub trunc by (simp add: add_ban_get)
    show ?thesis
    proof (cases "List.find (\<lambda>b. br_subject b = ?s \<and> ban_active now b) ?cov")
      case None2: None
      have "\<not> ban_active now b" if b: "hm_get (bans ?st) ?s = Some b" for b
      proof -
        have s: "br_subject b = ?s"
          using map_of_SomeD [OF b] assms(2) by (auto simp: store_wf_def)
        then have "b \<in> set ?cov" using b cov all [of b] by simp
        then show ?thesis using None2 s unfolding find_None_iff by blast
      qed
      moreover have "fst x = r" "outcome = Added"
        using None2 x(1) by (simp_all add: x_def extend_existing_def)
      ultimately show ?thesis using get by simp
    next
      case (Some b)
      then have b: "b \<in> set ?cov" "br_subject b = ?s" "ban_active now b"
        unfolding find_Some_iff by (metis nth_mem)+
      have "hm_get (bans ?st) ?s = Some b" using b cov all [of b] by simp
      moreover have "\<not> outlasts (br_expires_at b) (br_expires_at r)"
        using None b unfolding find_None_iff by blast
      moreover have "fst x = r\<lparr>br_created_at := br_created_at b\<rparr>" "outcome = Extended (br_expires_at b)"
        using Some x(1) by (simp_all add: x_def extend_existing_def)
      ultimately show ?thesis using get b by simp
    qed
  qed
qed

lemma ex_manager_bans: "ban_store ex_manager = add_ban (ex_ban (NetV4 0x08080800 24) None) store_new"
proof -
  have 1: "net_trunc ipnet_ref (NetV4 0x08080800 24) = NetV4 0x08080800 24" by code_simp
  have 2: "\<not> overlaps ipnet_ref (NetV4 0x08080800 24) (wl_new parse_ref)" by code_simp
  have 3: "br_subject (ex_ban n e) = n" "(ex_ban m e)\<lparr>br_subject := n\<rparr> = ex_ban n e" for m n e
    by (simp_all add: ex_ban_def)
  show ?thesis
    by (simp add: ex_manager_def sm_add_ban_def sm_append_def ex_env_def sm_empty_def
        SmMemory.extend_def StateManager.fields_def wal_append_def table_codec_def
        WAL_MAX_RECORD_SIZE_def Let_def 1 2 3)
qed

theorem admit_ban_never_shortens_witness:
  "sm_admit_ban ex_env (\<lambda>_. IoOk) (ex_ban (NetV4 0x08080808 32) (Some 9)) 1 ex_manager
     = (Inr (AlreadyCovered (NetV4 0x08080800 24) None), ex_manager)
   \<and> (\<exists>b \<in> set (get_all_bans (ban_store ex_manager)). br_subject b = NetV4 0x08080800 24
        \<and> ban_active 1 b \<and> outlasts (br_expires_at b) (Some 9))"
proof
  let ?r = "ex_ban (NetV4 0x08080808 32) (Some 9)" and ?b = "ex_ban (NetV4 0x08080800 24) None"
  have net: "env_net ex_env = ipnet_ref" by (simp add: ex_env_def)
  have "covering_bans ipnet_ref (NetV4 0x08080808 32) (add_ban ?b store_new) = [?b]" by code_simp
  then have cov: "covering_bans (env_net ex_env) (br_subject ?r) (ban_store ex_manager) = [?b]"
    by (simp add: net ex_manager_bans) (simp add: ex_ban_def)
  show adm: "sm_admit_ban ex_env (\<lambda>_. IoOk) ?r 1 ex_manager
     = (Inr (AlreadyCovered (NetV4 0x08080800 24) None), ex_manager)"
    unfolding sm_admit_ban_def Let_def cov by (simp add: ex_ban_def ban_active_def outlasts_def)
  have wf: "store_wf (ban_store ex_manager)"
    using store_run_wf_from [OF store_new_wf, of "[OpAdd ?b]"]
    by (simp add: ex_manager_bans) (simp add: ex_ban_def store_new_def)
  have "hm_keys (bans (add_ban ?b store_new)) = [NetV4 0x08080800 24]" by code_simp
  then have tr: "keys_truncated (ban_store ex_manager)"
    by (simp add: keys_truncated_def ex_manager_bans) code_simp
  have ok: "net_ok (br_subject ?r)" "truncated (br_subject ?r)" by code_simp+
  from admit_ban_never_shortens [OF _ wf tr ok adm] ipref.ipnet_spec_axioms net
  show "\<exists>b \<in> set (get_all_bans (ban_store ex_manager)). br_subject b = NetV4 0x08080800 24
        \<and> ban_active 1 b \<and> outlasts (br_expires_at b) (Some 9)"
    by (auto simp: ex_ban_def)
qed

section \<open>The whitelist wins\<close>

lemma sm_remove_ban_ok:
  assumes "sm_remove_ban E io s sm = (Inr b, sm')"
  shows "b = hm_contains (bans (ban_store sm)) s \<and> ban_store sm' = snd (remove_ban s (ban_store sm))
    \<and> whitelist sm' = whitelist sm \<and> crdt_store sm' = crdt_store sm \<and> revocations sm' = revocations sm"
proof -
  obtain res sm1 where a: "sm_append E io (RemoveBan s) sm = (res, sm1)" by fastforce
  note u = sm_append_unchanged [OF a]
  show ?thesis
  proof (cases res)
    case (Inr v)
    then have "sm_remove_ban E io s sm =
        (Inr (fst (remove_ban s (ban_store sm))), sm1\<lparr>ban_store := snd (remove_ban s (ban_store sm))\<rparr>)"
      by (simp add: sm_remove_ban_def a u case_prod_beta)
    then show ?thesis using assms u remove_ban_result [of s "ban_store sm"] by simp
  qed (use assms in \<open>simp add: sm_remove_ban_def a\<close>)
qed

lemma sm_tombstone_ok:
  assumes "sm_tombstone_crdt_ban E io s sm = (Inr b, sm')"
  shows "crdt_store sm' = tombstone_entry s (crdt_store sm) \<and> ban_store sm' = ban_store sm
    \<and> whitelist sm' = whitelist sm \<and> revocations sm' = revocations sm"
proof -
  obtain res sm1 where a: "sm_append E io (TombstoneCrdtBan s) sm = (res, sm1)" by fastforce
  note u = sm_append_unchanged [OF a]
  show ?thesis
  proof (cases res)
    case (Inr v)
    then have "snd (sm_tombstone_crdt_ban E io s sm) =
        sm1\<lparr>crdt_store := tombstone_entry s (crdt_store sm)\<rparr>"
      using u(3)
      by (simp add: sm_tombstone_crdt_ban_def tombstone_entry_def a u split: option.splits)
    then show ?thesis using assms u by simp
  qed (use assms in \<open>simp add: sm_tombstone_crdt_ban_def a\<close>)
qed

lemma revoke_loop_ok:
  assumes "revoke_loop E io ss revoked sm = (Inr out, sm')" "distinct ss"
  shows "out = revoked @ filter (hm_contains (bans (ban_store sm))) ss
    \<and> whitelist sm' = whitelist sm
    \<and> (\<forall>k. hm_get (bans (ban_store sm')) k = (if k \<in> set ss then None else hm_get (bans (ban_store sm)) k))
    \<and> (\<forall>k. hm_get (crdt_store sm') k = (if k \<in> set ss
         then map_option (cr_tombstone_update (\<lambda>_. True)) (hm_get (crdt_store sm) k)
         else hm_get (crdt_store sm) k))"
  using assms
proof (induction ss arbitrary: revoked sm)
  case (Cons s ss)
  obtain b sm1 where r: "sm_remove_ban E io s sm = (Inr b, sm1)"
    using Cons.prems(1) by (auto split: prod.splits sum.splits)
  note r' = sm_remove_ban_ok [OF r]
  let ?rev = "if b then revoked @ [s] else revoked"
  have "\<exists>sm2. revoke_loop E io ss ?rev sm2 = (Inr out, sm') \<and> ban_store sm2 = ban_store sm1
      \<and> whitelist sm2 = whitelist sm1 \<and> hm_get (crdt_store sm2) = hm_get (tombstone_entry s (crdt_store sm1))"
  proof (cases "hm_contains (crdt_store sm1) s")
    case True
    then obtain c sm2 where t: "sm_tombstone_crdt_ban E io s sm1 = (Inr c, sm2)"
      "revoke_loop E io ss ?rev sm2 = (Inr out, sm')"
      using Cons.prems(1) r by (simp add: Let_def split: prod.splits sum.splits)
    then show ?thesis using sm_tombstone_ok [OF t(1)] by (intro exI [of _ sm2]) simp
  next
    case False
    then show ?thesis
      using Cons.prems(1) r by (auto simp: Let_def tombstone_entry_def)
  qed
  then obtain sm2 where s2: "revoke_loop E io ss ?rev sm2 = (Inr out, sm')" "ban_store sm2 = ban_store sm1"
    "whitelist sm2 = whitelist sm1" "hm_get (crdt_store sm2) = hm_get (tombstone_entry s (crdt_store sm1))"
    by blast
  have "filter (hm_contains (bans (snd (remove_ban s (ban_store sm))))) ss
      = filter (hm_contains (bans (ban_store sm))) ss"
    using Cons.prems(2) by (intro filter_cong) (auto simp: remove_ban_get)
  then have out: "out = revoked @ filter (hm_contains (bans (ban_store sm))) (s # ss)"
    using conjunct1 [OF Cons.IH [OF s2(1)]] Cons.prems(2) r' s2(2) by (cases b) simp_all
  note ih = conjunct2 [OF Cons.IH [OF s2(1)]]
  have d: "distinct ss" "s \<notin> set ss" using Cons.prems(2) by simp_all
  have "whitelist sm' = whitelist sm" using ih d(1) r' s2(3) by simp
  moreover have "hm_get (bans (ban_store sm')) k =
      (if k \<in> set (s # ss) then None else hm_get (bans (ban_store sm)) k)" for k
    using ih d r' s2(2) by (simp add: remove_ban_get)
  moreover have "hm_get (crdt_store sm') k = (if k \<in> set (s # ss)
         then map_option (cr_tombstone_update (\<lambda>_. True)) (hm_get (crdt_store sm) k)
         else hm_get (crdt_store sm) k)" for k
    using ih d r' s2(4) by (simp add: tombstone_entry_get)
  ultimately show ?case using out by blast
qed simp

lemma get_all_bans_subjects:
  "mem_wf sm \<Longrightarrow> List.map br_subject (get_all_bans (ban_store sm)) = hm_keys (bans (ban_store sm))"
  by (auto simp: mem_wf_def get_all_bans_def hm_values_def hm_keys_def)

text \<open>
  C24: a whitelist entry takes effect on existing bans. When \<open>add_whitelist\<close> returns
  \<open>Ok\<close>, every ban whose network shares an address with the whitelist is gone, the
  returned list names exactly the removed subjects, each with its replicated record
  tombstoned, and all other bans are untouched.
\<close>

theorem add_whitelist_revokes:
  assumes "mem_wf sm" "sm_add_whitelist E io n sm = (Inr revoked, sm')"
  shows "whitelist sm' = wl_add n (whitelist sm)
    \<and> (\<forall>k. hm_get (bans (ban_store sm')) k =
         (if overlaps (env_net E) k (whitelist sm') then None else hm_get (bans (ban_store sm)) k))
    \<and> set revoked = {k. hm_contains (bans (ban_store sm)) k \<and> overlaps (env_net E) k (whitelist sm')}
    \<and> (\<forall>k \<in> set revoked. \<forall>c. hm_get (crdt_store sm') k = Some c \<longrightarrow> cr_tombstone c)"
proof -
  obtain res sm1 where a: "sm_append E io (AddWhitelist n) sm = (res, sm1)" by fastforce
  note u = sm_append_unchanged [OF a]
  let ?wl = "wl_add n (whitelist sm)"
  let ?sm = "sm1\<lparr>whitelist := ?wl\<rparr>"
  let ?cov = "filter (\<lambda>s. overlaps (env_net E) s ?wl) (hm_keys (bans (ban_store sm)))"
  have "res = Inr ()" using assms(2) a by (cases res) (simp_all add: sm_add_whitelist_def)
  then have loop: "revoke_loop E io ?cov [] ?sm = (Inr revoked, sm')"
    using assms(2) a u get_all_bans_subjects [OF assms(1)]
    by (simp add: sm_add_whitelist_def sm_revoke_covered_def Let_def)
  have d: "distinct ?cov" using assms(1) by (simp add: mem_wf_def hm_wf_def hm_keys_def)
  have keys: "k \<in> set (hm_keys (bans (ban_store sm))) \<longleftrightarrow> hm_contains (bans (ban_store sm)) k" for k
    by (simp add: dom_def)
  note l = revoke_loop_ok [OF loop d]
  have wl: "whitelist sm' = ?wl" using l by simp
  have "hm_get (bans (ban_store sm')) k =
      (if overlaps (env_net E) k ?wl then None else hm_get (bans (ban_store sm)) k)" for k
    using l u(1) keys [of k] by (cases "hm_get (bans (ban_store sm)) k") auto
  moreover have "set revoked = {k. hm_contains (bans (ban_store sm)) k \<and> overlaps (env_net E) k ?wl}"
    using l u(1) keys by auto
  moreover have "cr_tombstone c" if "k \<in> set revoked" "hm_get (crdt_store sm') k = Some c" for k c
    using that l by auto
  ultimately show ?thesis using wl by simp
qed

definition ex_banned :: StateManager where
  "ex_banned = \<lparr>ban_store = add_ban (ex_ban (NetV4 0x08080800 24) None) store_new,
     whitelist = wl_new parse_ref, crdt_store = [], revocations = [],
     wal_writer = \<lparr>wal_file = [], wal_durable = 0, sync_mode = Fdatasync, write_failed = False\<rparr>,
     snapshot_file = None\<rparr>"

definition ex_wl_env :: sm_env where
  "ex_wl_env = ex_env\<lparr>env_wal :=
     table_codec [AddWhitelist (NetV4 0x08080808 32), RemoveBan (NetV4 0x08080800 24)]\<rparr>"

theorem add_whitelist_revokes_witness:
  "\<exists>sm'. sm_add_whitelist ex_wl_env (\<lambda>_. IoOk) (NetV4 0x08080808 32) ex_banned
      = (Inr [NetV4 0x08080800 24], sm')
    \<and> hm_get (bans (ban_store sm')) (NetV4 0x08080800 24) = None"
proof -
  let ?wl = "wl_add (NetV4 0x08080808 32) (wl_new parse_ref)"
  have "bans_keyed store_new" by (simp add: bans_keyed_def store_new_def)
  then have wf: "mem_wf ex_banned"
    by (simp add: ex_banned_def mem_wf_split crdt_keyed_def add_ban_keyed)
  have ov: "overlaps ipnet_ref (NetV4 0x08080800 24) ?wl" by code_simp
  have all: "get_all_bans (add_ban (ex_ban (NetV4 0x08080800 24) None) store_new)
      = [ex_ban (NetV4 0x08080800 24) None]"
    "fst (remove_ban (NetV4 0x08080800 24) (add_ban (ex_ban (NetV4 0x08080800 24) None) store_new))"
    by code_simp+
  have sub: "br_subject (ex_ban (NetV4 0x08080800 24) None) = NetV4 0x08080800 24"
    by (simp add: ex_ban_def)
  have "\<exists>sm'. sm_add_whitelist ex_wl_env (\<lambda>_. IoOk) (NetV4 0x08080808 32) ex_banned
      = (Inr [NetV4 0x08080800 24], sm')"
    by (simp add: sm_add_whitelist_def sm_append_def ex_wl_env_def ex_env_def ex_banned_def
        wal_append_def table_codec_def WAL_MAX_RECORD_SIZE_def Let_def sm_revoke_covered_def
        all sub ov sm_remove_ban_def case_prod_beta)
  then obtain sm' where sm': "sm_add_whitelist ex_wl_env (\<lambda>_. IoOk) (NetV4 0x08080808 32) ex_banned
      = (Inr [NetV4 0x08080800 24], sm')" by blast
  have "overlaps (env_net ex_wl_env) (NetV4 0x08080800 24) (whitelist sm')"
    using add_whitelist_revokes [OF wf sm'] ov by (simp add: ex_wl_env_def ex_env_def ex_banned_def)
  then show ?thesis using add_whitelist_revokes [OF wf sm'] sm' by simp
qed

section \<open>Revocations\<close>

inductive sm_after :: "sm_env \<Rightarrow> StateManager \<Rightarrow> StateManager \<Rightarrow> bool" for E sm0 where
  refl: "sm_after E sm0 sm0"
| step: "sm_after E sm0 sm \<Longrightarrow> sm_op_ok E op sm \<Longrightarrow> sm_after E sm0 (sm_step E io op sm)"
| restart: "sm_after E sm0 sm \<Longrightarrow> sm_restart E mode sm = Inr sm' \<Longrightarrow> sm_after E sm0 sm'"

definition cutoffs_grow :: "StateManager \<Rightarrow> StateManager \<Rightarrow> bool" where
  "cutoffs_grow sm sm' \<longleftrightarrow> (\<forall>s c. hm_get (revocations sm) s = Some c \<longrightarrow>
     (\<exists>c' \<ge> c. hm_get (revocations sm') s = Some c'))"

lemma cutoffs_grow_same: "revocations sm' = revocations sm \<Longrightarrow> cutoffs_grow sm sm'"
  by (auto simp: cutoffs_grow_def)

lemma cutoffs_grow_trans: "cutoffs_grow a b \<Longrightarrow> cutoffs_grow b c \<Longrightarrow> cutoffs_grow a c"
  unfolding cutoffs_grow_def by (meson order_trans)

lemma sm_append_revocations: "revocations (snd (sm_append E io e sm)) = revocations sm"
  by (simp add: sm_append_def case_prod_beta)

lemma sm_add_ban_revocations: "revocations (snd (sm_add_ban E io r sm)) = revocations sm"
  by (simp add: sm_add_ban_def Let_def sm_append_revocations case_prod_beta split: sum.splits)

lemma sm_remove_ban_revocations: "revocations (snd (sm_remove_ban E io s sm)) = revocations sm"
  by (simp add: sm_remove_ban_def Let_def sm_append_revocations case_prod_beta split: sum.splits)

lemma sm_tombstone_revocations: "revocations (snd (sm_tombstone_crdt_ban E io s sm)) = revocations sm"
  by (simp add: sm_tombstone_crdt_ban_def Let_def sm_append_revocations case_prod_beta
      split: sum.splits option.splits)

lemma revoke_loop_revocations: "revocations (snd (revoke_loop E io ss acc sm)) = revocations sm"
proof (induction ss arbitrary: acc sm)
  case (Cons s ss)
  show ?case
    using sm_remove_ban_revocations [of E io s sm]
      sm_tombstone_revocations [of E io s "snd (sm_remove_ban E io s sm)"]
    by (simp add: Cons.IH Let_def case_prod_beta split: sum.splits)
qed simp

lemma sm_step_cutoffs: "cutoffs_grow sm (sm_step E io op sm)"
proof (cases op)
  case (SmRevokeBan now s)
  have "c \<le> revoke_cutoff now k sm" if "hm_get (revocations sm) k = Some c" for k c
    using that by (simp add: revoke_cutoff_def Let_def)
  then show ?thesis
    using SmRevokeBan
    by (auto simp: cutoffs_grow_def sm_revoke_ban_def Let_def sm_append_revocations case_prod_beta
        split: sum.splits)
next
  case (SmAdmitBan r now)
  then show ?thesis
    using sm_admit_ban_cases [of E io r now sm] by (auto simp: sm_add_ban_revocations cutoffs_grow_same)
next
  case (SmAddWhitelist n)
  then show ?thesis
    by (auto intro!: cutoffs_grow_same simp: sm_add_whitelist_def sm_revoke_covered_def Let_def
        revoke_loop_revocations sm_append_revocations case_prod_beta split: sum.splits)
qed (auto intro!: cutoffs_grow_same simp: sm_add_ban_revocations sm_remove_ban_revocations
    sm_tombstone_revocations revoke_loop_revocations sm_append_revocations sm_revoke_covered_def
    sm_remove_whitelist_def sm_add_crdt_ban_def sm_take_snapshot_def sm_flush_wal_def Let_def
    case_prod_beta split: sum.splits)

context sm_environment
begin

lemma sm_restart_cutoffs:
  assumes "sm_inv E sm" "sm_restart E mode sm = Inr sm'"
  shows "cutoffs_grow sm sm'"
proof -
  have "sm_abs sm' = sm_abs sm \<or> (\<exists>e. entry_mono (sm_abs sm) e \<and> sm_abs sm' = abs_apply e (sm_abs sm))"
    using sm_restart_inv [OF assms(1), of mode] assms(2) by auto
  then show ?thesis
  proof
    assume "sm_abs sm' = sm_abs sm"
    then show ?thesis by (auto simp: cutoffs_grow_def sm_abs_def)
  next
    assume "\<exists>e. entry_mono (sm_abs sm) e \<and> sm_abs sm' = abs_apply e (sm_abs sm)"
    then obtain e where e: "entry_mono (sm_abs sm) e" "sm_abs sm' = abs_apply e (sm_abs sm)" by blast
    then have "hm_get (revocations sm') = writes (revocation_writes e) (hm_get (revocations sm))"
      by (simp add: sm_abs_def abs_apply_def)
    then show ?thesis using e(1) by (cases e) (auto simp: cutoffs_grow_def sm_abs_def)
  qed
qed

lemma sm_after_cutoffs:
  "sm_after E sm0 sm \<Longrightarrow> sm_inv E sm0 \<Longrightarrow> sm_inv E sm \<and> cutoffs_grow sm0 sm"
proof (induction rule: sm_after.induct)
  case (step sm op io)
  then show ?case using sm_step_inv sm_step_cutoffs cutoffs_grow_trans by blast
next
  case (restart sm mode sm')
  then show ?case
    using sm_restart_inv [of sm mode] sm_restart_cutoffs [of sm mode sm'] cutoffs_grow_trans
    by (metis sum.inject(2))
qed (simp add: cutoffs_grow_same)

end

lemma find_stored:
  assumes "mem_wf sm" "hm_get (bans (ban_store sm)) s = Some b"
  shows "List.find (\<lambda>b. br_subject b = s) (get_all_bans (ban_store sm)) = Some b"
proof -
  have mem: "(s, b) \<in> set (bans (ban_store sm))" using assms(2) by (rule map_of_SomeD)
  have uniq: "r = b" if "r \<in> set (get_all_bans (ban_store sm))" "br_subject r = s" for r
    using that assms by (auto simp: mem_wf_def get_all_bans_def hm_values_def hm_get_eq_Some [symmetric])
  have "b \<in> set (get_all_bans (ban_store sm))" "br_subject b = s"
    using mem assms(1) by (force simp: mem_wf_def get_all_bans_def hm_values_def)+
  then have "List.find (\<lambda>b. br_subject b = s) (get_all_bans (ban_store sm)) \<noteq> None"
    unfolding find_None_iff by blast
  then obtain r where r: "List.find (\<lambda>b. br_subject b = s) (get_all_bans (ban_store sm)) = Some r" by blast
  then have "r \<in> set (get_all_bans (ban_store sm))" "br_subject r = s"
    unfolding find_Some_iff by (metis nth_mem)+
  then show ?thesis using r uniq by simp
qed

text \<open>
  C8: an administrative revocation is final towards peers. Once \<open>revoke_ban\<close> has
  returned \<open>Ok\<close>, the ban is gone, and after any further operations, failed writes and
  restarts a record received from a peer is refused if it shares an address with the
  revoked network and was created no later than the revocation or than the ban that
  was revoked.
\<close>

theorem revoked_stays_revoked:
  assumes "sm_environment E" "sm_reach E sm" "net_ok s" "net_ok (br_subject r)"
    and "sm_revoke_ban E io now s sm = (Inr removed, sm1)" "sm_after E sm1 sm2"
    and "in_net s ip" "in_net (br_subject r) ip"
    and "br_created_at r \<le> now \<or>
      (\<exists>b. hm_get (bans (ban_store sm)) (truncate_net s) = Some b \<and> br_created_at r \<le> br_created_at b)"
  shows "hm_get (bans (ban_store sm1)) (truncate_net s) = None \<and> \<not> accepts_remote_ban E r sm2"
proof -
  have inv: "sm_inv E sm" by (rule sm_environment.sm_reach_inv [OF assms(1,2)])
  then have wf: "mem_wf sm" by (simp add: sm_inv_def mem_inv_def)
  have N: "ipnet_spec (env_net E)" by (rule sm_environment.net_crate [OF assms(1)])
  have trunc: "net_trunc (env_net E) s = truncate_net s" using ipnet_spec.trunc [OF N assms(3)] .
  let ?c = "revoke_cutoff now (truncate_net s) sm"
  obtain res sm' where a: "sm_append E io (RevokeBan (truncate_net s) ?c) sm = (res, sm')" by fastforce
  note u = sm_append_unchanged [OF a]
  have "res = Inr ()" using assms(5) a trunc by (cases res) (simp_all add: sm_revoke_ban_def Let_def)
  then have sm1: "sm1 = sm'\<lparr>revocations := hm_insert (truncate_net s) ?c (revocations sm),
      ban_store := snd (remove_ban (truncate_net s) (ban_store sm))\<rparr>"
    using assms(5) a trunc u by (simp add: sm_revoke_ban_def Let_def case_prod_beta)
  have le: "br_created_at r \<le> ?c"
    using assms(9) find_stored [OF wf] by (auto simp: revoke_cutoff_def Let_def split: option.splits)
  have inv1: "sm_inv E sm1" using sm_environment.sm_revoke_ban_inv [OF assms(1) inv, of io now s] assms(5) by simp
  have "cutoffs_grow sm1 sm2" using sm_environment.sm_after_cutoffs [OF assms(1,6) inv1] by simp
  moreover have "hm_get (revocations sm1) (truncate_net s) = Some ?c" by (simp add: sm1)
  ultimately obtain c' where c': "hm_get (revocations sm2) (truncate_net s) = Some c'" "?c \<le> c'"
    unfolding cutoffs_grow_def by blast
  have "net_contains (env_net E) (truncate_net s) (net_addr (br_subject r))
      \<or> net_contains (env_net E) (br_subject r) (net_addr (truncate_net s))"
    using ipnet_spec.contains_share [OF N, of "truncate_net s" "br_subject r"] assms(3,4,7,8) by auto
  then have "\<not> accepts_remote_ban E r sm2"
    using map_of_SomeD [OF c'(1)] le c'(2)
    by (auto simp: accepts_remote_ban_def list_ex_iff intro!: bexI [of _ "(truncate_net s, c')"])
  then show ?thesis by (simp add: sm1 remove_ban_get)
qed

theorem revoked_stays_revoked_witness:
  "\<exists>sm1. sm_revoke_ban ex_env (\<lambda>_. IoOk) 7 (NetV4 0x08080800 24) ex_manager = (Inr True, sm1)
     \<and> \<not> accepts_remote_ban ex_env (ex_ban (NetV4 0x08080808 32) None) sm1"
proof -
  let ?s = "NetV4 0x08080800 24" and ?r = "ex_ban (NetV4 0x08080808 32) None"
  have wf: "mem_wf ex_manager"
    using ex_env.sm_reach_inv [OF ex_manager_reach] by (simp add: sm_inv_def mem_inv_def)
  have w: "\<not> write_failed (wal_writer ex_manager)" "revocations ex_manager = []"
    using ex_manager_store(2)
    by (simp_all add: ex_manager_def sm_add_ban_revocations sm_empty_def SmMemory.extend_def
        StateManager.fields_def)
  have cut: "revoke_cutoff 7 ?s ex_manager = 7"
    using find_stored [OF wf ex_manager_store(1)] w(2) by (simp add: revoke_cutoff_def ex_ban_def)
  have trunc: "net_trunc (env_net ex_env) ?s = ?s" "in_net ?s (IpV4 0x08080808)"
    "in_net (br_subject ?r) (IpV4 0x08080808)" by code_simp+
  have "encode (env_wal ex_env) (RevokeBan ?s 7) = Some [2]"
    by (simp add: ex_env_def table_codec_def)
  then have app: "fst (sm_append ex_env (\<lambda>_. IoOk) (RevokeBan ?s 7) ex_manager) = Inr ()"
    using w by (simp add: sm_append_def wal_append_def case_prod_beta WAL_MAX_RECORD_SIZE_def Let_def)
  obtain sm' where a: "sm_append ex_env (\<lambda>_. IoOk) (RevokeBan ?s 7) ex_manager = (Inr (), sm')"
    using app by (metis prod.collapse)
  obtain sm1 where sm1: "sm_revoke_ban ex_env (\<lambda>_. IoOk) 7 ?s ex_manager = (Inr True, sm1)"
    using a sm_append_unchanged(1) [OF a] remove_ban_result [of ?s "ban_store ex_manager"] ex_manager_store(1)
    by (simp add: sm_revoke_ban_def trunc cut Let_def case_prod_beta)
  have "net_ok (br_subject ?r)" "br_created_at ?r \<le> 7" by (simp_all add: ex_ban_def)
  then show ?thesis
    using revoked_stays_revoked [OF ex_env.sm_environment_axioms ex_manager_reach _ _ sm1 sm_after.refl,
        of ?r "IpV4 0x08080808"] trunc sm1 by auto
qed

text \<open>A state manager that has just created its files.\<close>

definition ex_fresh :: StateManager where
  "ex_fresh = SmMemory.extend (sm_empty ex_env) (StateManager.fields
     \<lparr>wal_file = [], wal_durable = 0, sync_mode = Fdatasync, write_failed = False\<rparr> None)"

lemma ex_fresh_sel [simp]:
  "ban_store ex_fresh = store_new" "whitelist ex_fresh = wl_new parse_ref" "revocations ex_fresh = []"
  by (simp_all add: ex_fresh_def sm_empty_def ex_env_def SmMemory.extend_def StateManager.fields_def)

end
