(* ===== verification/Chrono.thy ===== *)
theory Chrono
  imports Models
begin

text \<open>
  The crate \<open>chrono\<close> as far as it can panic: the construction of a \<open>TimeDelta\<close> from seconds
  and \<open>DateTime + TimeDelta\<close>, with \<open>None\<close> for a panic. The crate is an argument of the
  definitions that use it; the locale states the documented ranges.
\<close>

record chrono_ops =
  ch_seconds :: "int \<Rightarrow> int option"
  ch_add :: "instant \<Rightarrow> int \<Rightarrow> instant option"

text \<open>\<open>TimeDelta::num_seconds\<close> truncates towards zero.\<close>

definition num_seconds :: "int \<Rightarrow> int" where
  "num_seconds d = sgn d * (\<bar>d\<bar> div int ns_per_sec)"

definition I64_MAX :: int where
  "I64_MAX = 2 ^ 63 - 1"

definition DATETIME_MIN :: instant where
  "DATETIME_MIN = - 8334601228800 * int ns_per_sec"

definition DATETIME_MAX :: instant where
  "DATETIME_MAX = 8210266876799 * int ns_per_sec + 999999999"

text \<open>The documented ranges of \<open>TimeDelta::seconds\<close> and of \<open>DateTime + TimeDelta\<close>.\<close>

locale chrono_spec =
  fixes C :: chrono_ops
  assumes seconds: "ch_seconds C n = (if \<bar>n\<bar> \<le> I64_MAX div 1000 then Some (n * int ns_per_sec) else None)"
    and add: "ch_add C t d = (if DATETIME_MIN \<le> t + d \<and> t + d \<le> DATETIME_MAX then Some (t + d) else None)"

definition chrono_ref :: chrono_ops where
  "chrono_ref = \<lparr>ch_seconds = (\<lambda>n. if \<bar>n\<bar> \<le> I64_MAX div 1000 then Some (n * int ns_per_sec) else None),
     ch_add = (\<lambda>t d. if DATETIME_MIN \<le> t + d \<and> t + d \<le> DATETIME_MAX then Some (t + d) else None)\<rparr>"

interpretation chrono_ref: chrono_spec chrono_ref
  by unfold_locales (simp_all add: chrono_ref_def)

lemma num_seconds_nonneg: "0 \<le> d \<Longrightarrow> num_seconds d = d div int ns_per_sec"
  by (cases "d = 0") (simp_all add: num_seconds_def)

end
