(* ===== verification/Cluster_Policy.thy ===== *)
theory Cluster_Policy
  imports Gossip State_Policy Detector_Base Chrono
begin

text \<open>
  The policy of \<open>hiveguard-daemon/src/cluster.rs\<close> on both ends of a replicated ban: the form
  in which a local ban is announced, and what a node accepts from its peers. The
  arithmetic of \<open>chrono\<close> that can panic is an argument, \<open>chrono_ops\<close> of theory \<open>Chrono\<close>.
\<close>

record TrustConfig =
  tc_ban_threshold :: real
  tc_new_node_grace_period :: duration
  tc_new_node_threshold_multiplier :: real
  tc_max_bans_per_minute :: u32
  tc_auto_quarantine_multiplier :: real
  remote_min_prefix_v4 :: u8
  remote_min_prefix_v6 :: u8
  remote_max_ttl_secs :: u64

definition trust_config_default :: TrustConfig where
  "trust_config_default = \<lparr>tc_ban_threshold = 2, tc_new_node_grace_period = secs 86400,
     tc_new_node_threshold_multiplier = 2, tc_max_bans_per_minute = 100, tc_auto_quarantine_multiplier = 10,
     remote_min_prefix_v4 = 24, remote_min_prefix_v6 = 48, remote_max_ttl_secs = 86400\<rparr>"

definition checked_mul :: "int \<Rightarrow> int \<Rightarrow> int option" where
  "checked_mul a b = (if - I64_MAX - 1 \<le> a * b \<and> a * b \<le> I64_MAX then Some (a * b) else None)"

definition announced_form :: "chrono_ops \<Rightarrow> BanRecord \<Rightarrow> int \<Rightarrow> instant \<Rightarrow> BanRecord option option" where
  "announced_form C record0 max_secs now =
     (case br_expires_at record0 of
        None \<Rightarrow> Some None
      | Some expiry \<Rightarrow>
          if expiry \<le> now \<or> expiry \<le> br_created_at record0 \<or> max_secs \<le> 0 then Some None
          else case ch_seconds C max_secs of
            None \<Rightarrow> None
          | Some longest \<Rightarrow>
              if expiry - br_created_at record0 \<le> longest then Some (Some record0)
              else
                let elapsed = max (num_seconds (now - br_created_at record0)) 0;
                    slice = elapsed div max_secs
                in case checked_mul slice max_secs of
                     None \<Rightarrow> Some None
                   | Some offset \<Rightarrow>
                       (case Option.bind (ch_seconds C offset) (ch_add C (br_created_at record0)) of
                          None \<Rightarrow> None
                        | Some created_at \<Rightarrow>
                            (case ch_add C created_at longest of
                               None \<Rightarrow> None
                             | Some end_of_slice \<Rightarrow>
                                 Some (Some (record0\<lparr>br_created_at := created_at,
                                   br_expires_at := Some (min expiry end_of_slice)\<rparr>)))))"

definition announce_max_secs :: "TrustConfig \<Rightarrow> int" where
  "announce_max_secs policy =
     (if uint (remote_max_ttl_secs policy) \<le> I64_MAX then uint (remote_max_ttl_secs policy) else I64_MAX)"

fun min_prefix :: "TrustConfig \<Rightarrow> ip_net \<Rightarrow> u8" where
  "min_prefix policy (NetV4 _ _) = remote_min_prefix_v4 policy"
| "min_prefix policy (NetV6 _ _) = remote_min_prefix_v6 policy"

definition remote_policy_allows :: "TrustConfig \<Rightarrow> BanRecord \<Rightarrow> instant \<Rightarrow> bool" where
  "remote_policy_allows policy r now =
     (case br_expires_at r of
        None \<Rightarrow> False
      | Some expiry \<Rightarrow>
          uint (remote_max_ttl_secs policy) \<le> I64_MAX
          \<and> min_prefix policy (br_subject r) \<le> prefix_len (br_subject r)
          \<and> br_created_at r \<le> now + int (secs (5 * 60))
          \<and> expiry > now
          \<and> expiry > br_created_at r
          \<and> num_seconds (expiry - br_created_at r) \<le> uint (remote_max_ttl_secs policy)
          \<and> num_seconds (expiry - now) \<le> uint (remote_max_ttl_secs policy))"

definition remote_changes_state :: "sm_env \<Rightarrow> BanRecord \<Rightarrow> 'a SmMemory_scheme \<Rightarrow> bool" where
  "remote_changes_state E r sm =
     (case is_banned (env_net E) (ban_store sm) (net_addr (br_subject r)) of
        None \<Rightarrow> True
      | Some existing \<Rightarrow>
          br_subject existing = br_subject r \<and> is_cluster_peer (br_source existing)
          \<and> (br_created_at r, br_expires_at r) > (br_created_at existing, br_expires_at existing))"

section \<open>What is announced is accepted\<close>

text \<open>The slice of length \<open>m\<close> seconds, counted from \<open>c\<close>, in which \<open>t\<close> lies.\<close>

definition slice_start :: "instant \<Rightarrow> int \<Rightarrow> instant \<Rightarrow> instant" where
  "slice_start c m t = c + (t - c) div (m * int ns_per_sec) * (m * int ns_per_sec)"

lemma slice_start_bounds:
  assumes "0 < m" "c \<le> t"
  shows "c \<le> slice_start c m t" "slice_start c m t \<le> t" "t < slice_start c m t + m * int ns_per_sec"
proof -
  let ?w = "m * int ns_per_sec"
  have w: "0 < ?w" using assms(1) by (simp add: ns_per_sec_def)
  have e: "(t - c) div ?w * ?w + (t - c) mod ?w = t - c" by (rule div_mult_mod_eq)
  show "c \<le> slice_start c m t"
    using w assms(2) by (simp add: slice_start_def pos_imp_zdiv_nonneg_iff)
  show "slice_start c m t \<le> t" "t < slice_start c m t + ?w"
    using e pos_mod_sign [OF w, of "t - c"] pos_mod_bound [OF w, of "t - c"] unfolding slice_start_def by linarith+
qed

lemma div_block: "0 < w \<Longrightarrow> 0 \<le> d \<Longrightarrow> d < w \<Longrightarrow> (d + k * w) div w = (k :: int)"
  by simp

lemma slice_start_eq:
  assumes "0 < m" "c \<le> s" "slice_start c m s \<le> t" "t < slice_start c m s + m * int ns_per_sec"
  shows "slice_start c m t = slice_start c m s"
proof -
  let ?w = "m * int ns_per_sec"
  have w: "0 < ?w" using assms(1) by (simp add: ns_per_sec_def)
  define k where "k = (s - c) div ?w"
  then have k: "slice_start c m s = c + k * ?w" by (simp add: slice_start_def)
  have "(t - c) div ?w = k"
  proof -
    obtain d where d: "t = c + k * ?w + d" by (metis add_diff_cancel_left' add_diff_eq)
    then have "0 \<le> d" "d < ?w" using assms(3,4) k by linarith+
    then have "(d + k * ?w) div ?w = k" by (intro div_block w)
    then show ?thesis using d by (simp add: algebra_simps)
  qed
  then show ?thesis unfolding k unfolding slice_start_def by simp
qed

definition announced :: "BanRecord \<Rightarrow> int \<Rightarrow> instant \<Rightarrow> instant \<Rightarrow> BanRecord" where
  "announced r m e now =
     (if e - br_created_at r \<le> m * int ns_per_sec then r
      else r\<lparr>br_created_at := slice_start (br_created_at r) m now,
             br_expires_at := Some (min e (slice_start (br_created_at r) m now + m * int ns_per_sec))\<rparr>)"

lemma announced_live:
  assumes "br_created_at r \<le> now" "now < e" "br_expires_at r = Some e" "0 < m"
  obtains e' where "br_expires_at (announced r m e now) = Some e'" "now < e'" "e' \<le> e"
    "br_created_at r \<le> br_created_at (announced r m e now)" "br_created_at (announced r m e now) \<le> now"
    "e' \<le> br_created_at (announced r m e now) + m * int ns_per_sec"
    "br_subject (announced r m e now) = br_subject r"
    "e' < e \<Longrightarrow> e' = slice_start (br_created_at r) m now + m * int ns_per_sec
       \<and> m * int ns_per_sec < e - br_created_at r"
    "\<And>t. now \<le> t \<Longrightarrow> t < e' \<Longrightarrow> announced r m e t = announced r m e now"
proof (cases "e - br_created_at r \<le> m * int ns_per_sec")
  case True
  then show ?thesis using that [of e] assms by (simp add: announced_def)
next
  case False
  define s where "s = slice_start (br_created_at r) m now"
  define w where "w = m * int ns_per_sec"
  have b: "br_created_at r \<le> s" "s \<le> now" "now < s + w"
    using slice_start_bounds [OF assms(4,1)] by (simp_all add: s_def w_def)
  have A: "announced r m e now = r\<lparr>br_created_at := s, br_expires_at := Some (min e (s + w))\<rparr>"
    using False by (simp add: announced_def s_def w_def)
  show ?thesis
  proof (rule that [of "min e (s + w)"])
    show "announced r m e t = announced r m e now" if "now \<le> t" "t < min e (s + w)" for t
    proof -
      have "slice_start (br_created_at r) m t = s"
        using slice_start_eq [OF assms(4,1), of t] b that by (simp add: s_def w_def)
      then show ?thesis using False unfolding A by (simp add: announced_def w_def)
    qed
    show "min e (s + w) = slice_start (br_created_at r) m now + m * int ns_per_sec
        \<and> m * int ns_per_sec < e - br_created_at r" if "min e (s + w) < e"
      using that False by (simp add: s_def w_def)
  qed (use assms(2) b in \<open>simp_all add: A w_def [symmetric]\<close>)
qed

context chrono_spec
begin

lemma announced_form_exact:
  assumes "DATETIME_MIN \<le> br_created_at r" "br_created_at r \<le> now" "now < e" "br_expires_at r = Some e"
    and "0 < m" "m \<le> I64_MAX div 1000" "e + m * int ns_per_sec \<le> DATETIME_MAX"
  shows "announced_form C r m now = Some (Some (announced r m e now))"
proof (cases "e - br_created_at r \<le> m * int ns_per_sec")
  case True
  then show ?thesis using assms by (simp add: announced_form_def announced_def seconds)
next
  case False
  let ?c = "br_created_at r" and ?n = "int ns_per_sec"
  let ?k = "(now - ?c) div (m * ?n)"
  have "(now - ?c) div ?n div m = ?k"
    using zdiv_zmult2_eq [of m "now - ?c" ?n] assms(5) by (simp add: mult.commute)
  then have k: "max (num_seconds (now - ?c)) 0 div m = ?k"
    using assms(2) by (simp add: num_seconds_nonneg pos_imp_zdiv_nonneg_iff ns_per_sec_def)
  have pos: "0 < m * ?n" using assms(5) by (simp add: ns_per_sec_def)
  note b = slice_start_bounds [OF assms(5,2)]
  have start: "slice_start ?c m now = ?c + ?k * m * ?n" by (simp add: slice_start_def)
  have k0: "0 \<le> ?k * m" using assms(2,5) by (simp add: pos_imp_zdiv_nonneg_iff ns_per_sec_def)
  have "?k * m * ?n \<le> DATETIME_MAX - DATETIME_MIN"
    using start b(2) assms(1,3,7) pos by linarith
  then have small: "?k * m \<le> I64_MAX div 1000"
    by (simp add: DATETIME_MAX_def DATETIME_MIN_def I64_MAX_def ns_per_sec_def)
  then have "checked_mul ?k m = Some (?k * m)" using k0 by (simp add: checked_mul_def I64_MAX_def)
  moreover have "ch_seconds C (?k * m) = Some (?k * m * ?n)" using small k0 by (simp add: seconds)
  moreover have "ch_add C ?c (?k * m * ?n) = Some (slice_start ?c m now)"
    using start b assms(1,3,7) pos unfolding add by simp
  moreover have "ch_add C (slice_start ?c m now) (m * ?n) = Some (slice_start ?c m now + m * ?n)"
    using b assms(1,3,7) pos unfolding add by simp
  moreover have "ch_seconds C m = Some (m * ?n)" using assms(5,6) by (simp add: seconds)
  ultimately show ?thesis using assms(2-5) False k by (simp add: announced_form_def announced_def Let_def)
qed

end


definition ex_long_ban :: BanRecord where
  "ex_long_ban = \<lparr>br_subject = NetV4 0x08080808 32, br_created_at = 0, br_expires_at = Some (int (secs 259200)),
     br_severity = 150, br_reason = [], br_evidence_hash = [], br_source = LocalDetector [], br_geo_info = None\<rparr>"


text \<open>A limit that the configuration check admits, but that is too long for \<open>chrono\<close>, stops the actor.\<close>

lemma announced_form_panics:
  assumes "chrono_spec C" "I64_MAX div 1000 < m" "br_expires_at r = Some e" "now < e" "br_created_at r < e"
  shows "announced_form C r m now = None"
  using assms chrono_spec.seconds [OF assms(1), of m]
  by (simp add: announced_form_def I64_MAX_def)

end
