(* ===== verification/Cluster.thy ===== *)
theory Cluster
  imports Cluster_Policy
begin

text \<open>
  The cluster runtime: the messages of \<open>hiveguard-net/src/messages.rs\<close>, the coordinator of
  \<open>hiveguard-net/src/sync.rs\<close> and the actor of \<open>hiveguard-daemon/src/cluster.rs\<close>, one definition
  per handler. A handler returns the new actor and the list of its effects on the network
  (\<open>ActorEffect\<close>); a connection is a number. Logging and the metrics are left out.

  The state manager is shared with other tasks, so a handler gets it at each point where it
  takes the lock: \<open>ingest_remote_bans\<close> sees the states \<open>sm1\<close>, \<open>sm2\<close> and \<open>sm3\<close>, between which
  other tasks may have run. The clock readings of a handler are collected in
  \<open>cluster_clock\<close>; \<open>None\<close> as the result of a handler means that the actor panicked.
\<close>

datatype ClusterMessage =
    Ping string "byte list"
  | Pong string "byte list"
  | PingReq string string
  | BanSync string "SignedBanRecord list"
  | DigestExchange "byte list"
  | DiffRequest "string list"
  | DiffResponse "SignedBanRecord list"
  | MembershipUpdate "PeerInfo list"

fun sender_id :: "ClusterMessage \<Rightarrow> string option" where
  "sender_id (Ping s _) = Some s"
| "sender_id (Pong s _) = Some s"
| "sender_id (PingReq s _) = Some s"
| "sender_id (BanSync s _) = Some s"
| "sender_id _ = None"

section \<open>The coordinator\<close>

record SyncCoordinator =
  co_swim :: SwimMembership
  co_gossip :: GossipEngine
  co_peer_manager :: PeerManager

definition coordinator_new :: "string \<Rightarrow> SwimConfig \<Rightarrow> GossipConfig \<Rightarrow> SyncCoordinator" where
  "coordinator_new local_node_id swim_config gossip_config =
     \<lparr>co_swim = swim_new local_node_id swim_config, co_gossip = gossip_new local_node_id gossip_config,
      co_peer_manager = pm_new\<rparr>"

record probe_env =
  pe_now :: instant
  pe_pick :: "PeerInfo list \<Rightarrow> PeerInfo option"
  pe_pick_multiple :: "nat \<Rightarrow> string list \<Rightarrow> nat \<Rightarrow> string list"
  pe_check_now :: instant
  pe_clock :: "nat \<Rightarrow> instant"

definition run_probe_cycle :: "probe_env \<Rightarrow> byte list \<Rightarrow> SyncCoordinator \<Rightarrow> SwimAction list \<times> SyncCoordinator" where
  "run_probe_cycle P local_digest co =
     (case select_probe_target (pe_now P) (pe_pick P) (co_peer_manager co) local_digest (co_swim co) of
        (probe_action, swim) \<Rightarrow>
          (let actions = (if probe_action \<noteq> NoAction then [probe_action] else [])
           in case check_timeouts (pe_pick_multiple P) (pe_check_now P) (pe_clock P) (co_peer_manager co) swim of
                (timeout_actions, pm, swim) \<Rightarrow>
                  (actions @ timeout_actions, co\<lparr>co_swim := swim, co_peer_manager := pm\<rparr>)))"

definition co_handle_pong :: "instant \<Rightarrow> string \<Rightarrow> SyncCoordinator \<Rightarrow> SyncCoordinator" where
  "co_handle_pong now sender co =
     (case handle_pong now sender (co_peer_manager co) (co_swim co) of
        (pm, swim) \<Rightarrow> co\<lparr>co_peer_manager := pm, co_swim := swim\<rparr>)"

definition co_handle_ping :: "instant \<Rightarrow> string \<Rightarrow> SyncCoordinator \<Rightarrow> SwimAction \<times> SyncCoordinator" where
  "co_handle_ping now sender co =
     (NoAction, co\<lparr>co_peer_manager := update_peer_state now sender Alive (co_peer_manager co)\<rparr>)"

section \<open>The actor\<close>

record Seed =
  raw_addr :: string
  seed_fingerprint :: "string option"

type_synonym conn = nat

datatype ActorEffect =
    SendMsg conn ClusterMessage
  | CloseConn conn string
  | SpawnReader string conn
  | Dial string
  | OfferDigest "conn list"

record ClusterActor =
  ca_node_id :: string
  ca_pkcs8 :: "byte list"
  ca_strict :: bool
  ca_allowed :: "string set"
  ca_founders :: "string set"
  ca_seeds :: "Seed list"
  ca_coordinator :: SyncCoordinator
  ca_trust :: TrustManager
  ca_rate_limiter :: RateLimiter
  ca_sign_cache :: SigningCache
  ca_diff_offsets :: "(string, nat) hmap"
  ca_diff_requests :: "(string, instant) hmap"
  ca_raw_limiter :: RateLimiter
  ca_remote_policy :: TrustConfig
  ca_count_window :: instant
  ca_ban_counts :: "(string, u64) hmap"
  ca_digest_mismatches :: "(string, u64 \<times> instant option) hmap"
  ca_seed_outages :: "(string, instant \<times> instant option) hmap"
  ca_connections :: "(string, conn) hmap"
  ca_dialing :: "string set"

record cluster_env =
  cl_gossip :: gossip_env
  cl_sm :: sm_env
  cl_chrono :: chrono_ops
  cl_size :: "SignedBanRecord \<Rightarrow> u64 option"

definition POW_DIFFICULTY :: u8 where
  "POW_DIFFICULTY = 16"

definition MAINTENANCE_INTERVAL :: duration where
  "MAINTENANCE_INTERVAL = secs 5"

definition DIGEST_MISMATCH_REPORT_INTERVAL :: duration where
  "DIGEST_MISMATCH_REPORT_INTERVAL = secs (30 * 60)"

definition SEED_UNREACHABLE_WARN_AFTER :: duration where
  "SEED_UNREACHABLE_WARN_AFTER = secs (60 * 60)"

definition SEED_UNREACHABLE_REPEAT :: duration where
  "SEED_UNREACHABLE_REPEAT = secs (24 * 60 * 60)"

abbreviation ca_peers :: "ClusterActor \<Rightarrow> PeerManager" where
  "ca_peers a \<equiv> co_peer_manager (ca_coordinator a)"

definition set_peers :: "PeerManager \<Rightarrow> ClusterActor \<Rightarrow> ClusterActor" where
  "set_peers pm a = a\<lparr>ca_coordinator := (ca_coordinator a)\<lparr>co_peer_manager := pm\<rparr>\<rparr>"

text \<open>The part of \<open>spawn_cluster\<close> that builds the actor.\<close>

definition actor_new ::
    "(nat \<Rightarrow> instant) \<Rightarrow> string \<Rightarrow> byte list \<Rightarrow> bool \<Rightarrow> Seed list \<Rightarrow> string list \<Rightarrow> TrustConfig \<Rightarrow> instant \<Rightarrow> ClusterActor" where
  "actor_new clock node_id pkcs8 strict seeds founders trust now =
     \<lparr>ca_node_id = node_id, ca_pkcs8 = pkcs8, ca_strict = strict,
      ca_allowed = set (List.map_filter seed_fingerprint seeds), ca_founders = set founders, ca_seeds = seeds,
      ca_coordinator = coordinator_new node_id swim_config_default \<lparr>gc_fanout = 8, gc_pow_difficulty = POW_DIFFICULTY\<rparr>,
      ca_trust = fold (\<lambda>(i, fp). register_founder_node (clock i) fp) (enumerate 0 founders) (tm_new (tc_ban_threshold trust)),
      ca_rate_limiter = rl_new (unat (tc_max_bans_per_minute trust)) (int (secs 60)),
      ca_sign_cache = sc_new DEFAULT_CAPACITY, ca_diff_offsets = hm_empty, ca_diff_requests = hm_empty,
      ca_raw_limiter = rl_new 10000 (int (secs 60)), ca_remote_policy = trust, ca_count_window = now,
      ca_ban_counts = hm_empty, ca_digest_mismatches = hm_empty, ca_seed_outages = hm_empty,
      ca_connections = hm_empty, ca_dialing = {}\<rparr>"

definition send_to :: "string \<Rightarrow> ClusterMessage \<Rightarrow> ClusterActor \<Rightarrow> ActorEffect list" where
  "send_to node_id msg a = (case hm_get (ca_connections a) node_id of None \<Rightarrow> [] | Some conn \<Rightarrow> [SendMsg conn msg])"

definition register_peer :: "instant \<Rightarrow> string \<Rightarrow> byte list \<Rightarrow> ip_addr \<times> u16 \<Rightarrow> ClusterActor \<Rightarrow> ClusterActor" where
  "register_peer now node_id public_key addr a =
     (let pm = (case hm_get (known_peers (ca_peers a)) node_id of
            Some _ \<Rightarrow> update_peer_state now node_id Alive (ca_peers a)
          | None \<Rightarrow> add_peer ((peer_new now node_id addr node_id)\<lparr>pi_public_key := public_key\<rparr>) (ca_peers a));
          pm = (case hm_get (known_peers pm) node_id of
            Some p \<Rightarrow> if pi_public_key p \<noteq> public_key then add_peer (p\<lparr>pi_public_key := public_key\<rparr>) pm else pm
          | None \<Rightarrow> pm);
          a = set_peers pm a
      in if node_id \<in> ca_founders a
         then a\<lparr>ca_trust := register_founder_node now node_id (ca_trust a)\<rparr>
         else a\<lparr>ca_trust := register_node now node_id (ca_trust a)\<rparr>)"

definition on_peer_connected ::
    "(conn \<Rightarrow> bool) \<Rightarrow> instant \<Rightarrow> string \<Rightarrow> byte list \<Rightarrow> ip_addr \<times> u16 \<Rightarrow> conn \<Rightarrow> ClusterActor \<Rightarrow> ClusterActor \<times> ActorEffect list" where
  "on_peer_connected is_closed now node_id public_key addr conn a =
     (if node_id = ca_node_id a then (a, [CloseConn conn ''self''])
      else if ca_strict a \<and> node_id \<notin> ca_allowed a then (a, [CloseConn conn ''unknown peer''])
      else if (case hm_get (ca_connections a) node_id of Some existing \<Rightarrow> \<not> is_closed existing | None \<Rightarrow> False)
      then (register_peer now node_id public_key addr a, [CloseConn conn ''duplicate''])
      else
        let a = register_peer now node_id public_key addr a
        in (a\<lparr>ca_connections := hm_insert node_id conn (ca_connections a)\<rparr>, [SpawnReader node_id conn]))"

text \<open>The signing job: the signatures that succeed, through the cache.\<close>

fun sign_job :: "sign_env \<Rightarrow> string \<Rightarrow> byte list \<Rightarrow> BanRecord list \<Rightarrow> SigningCache \<Rightarrow> SignedBanRecord list \<times> SigningCache" where
  "sign_job S node key [] cache = ([], cache)"
| "sign_job S node key (r # rs) cache =
     (case sc_sign S r node key POW_DIFFICULTY cache of
        (res, cache) \<Rightarrow>
          (case sign_job S node key rs cache of
             (signed_rs, cache) \<Rightarrow> (case res of Inr s \<Rightarrow> s # signed_rs | Inl _ \<Rightarrow> signed_rs, cache)))"

definition send_signed_bans ::
    "cluster_env \<Rightarrow> bool \<Rightarrow> string list \<Rightarrow> BanRecord list \<Rightarrow> ClusterActor \<Rightarrow> ClusterActor \<times> ActorEffect list" where
  "send_signed_bans E slot_free targets records a =
     (if \<not> slot_free then (a, [])
      else
        let conns = List.map_filter (hm_get (ca_connections a)) targets
        in case sign_job (ge_sign (cl_gossip E)) (ca_node_id a) (ca_pkcs8 a) records (ca_sign_cache a) of
             (signed_rs, cache) \<Rightarrow>
               (a\<lparr>ca_sign_cache := cache\<rparr>,
                concat (List.map (\<lambda>page. List.map (\<lambda>conn. SendMsg conn (DiffResponse page)) conns)
                  (signed_pages (cl_size E) signed_rs))))"

definition on_local_ban ::
    "cluster_env \<Rightarrow> bool \<Rightarrow> instant \<Rightarrow> BanRecord \<Rightarrow> ClusterActor \<Rightarrow> (ClusterActor \<times> ActorEffect list) option" where
  "on_local_ban E slot_free now r a =
     (if is_cluster_peer (br_source r) then Some (a, [])
      else case announced_form (cl_chrono E) r (announce_max_secs (ca_remote_policy a)) now of
        None \<Rightarrow> None
      | Some None \<Rightarrow> Some (a, [])
      | Some (Some r') \<Rightarrow> Some (send_signed_bans E slot_free (hm_keys (ca_connections a)) [r'] a))"

definition peer_public_keys :: "PeerManager \<Rightarrow> (string, byte list) hmap" where
  "peer_public_keys pm =
     foldl (\<lambda>m p. hm_insert (pi_node_id p) (pi_public_key p) m) hm_empty
       (filter (\<lambda>p. pi_public_key p \<noteq> []) (hm_values (known_peers pm)))"

definition local_digest :: "cluster_env \<Rightarrow> StateManager \<Rightarrow> byte list" where
  "local_digest E sm = compute_digest (cl_gossip E) (get_all_bans (ban_store sm))"

section \<open>Remote bans\<close>

record cluster_clock =
  ck_heard :: instant
  ck_pong :: instant
  ck_instant :: instant
  ck_window :: instant
  ck_utc :: instant
  ck_filter :: "nat \<Rightarrow> instant"
  ck_raw :: "nat \<Rightarrow> instant \<times> instant"
  ck_sync :: instant
  ck_eligible :: "nat \<Rightarrow> instant"
  ck_limiter :: "nat \<Rightarrow> instant \<times> instant"
  ck_apply :: instant
  ck_io :: "nat \<Rightarrow> WalEntry \<Rightarrow> io_outcome"
  ck_slot_free :: bool

text \<open>The checks of the local state that a remote ban must pass.\<close>

definition applicable :: "cluster_env \<Rightarrow> TrustConfig \<Rightarrow> instant \<Rightarrow> 'a SmMemory_scheme \<Rightarrow> BanRecord \<Rightarrow> bool" where
  "applicable E policy now sm r \<longleftrightarrow>
     remote_policy_allows policy r now \<and> accepts_remote_ban (cl_sm E) r sm
     \<and> \<not> overlaps (env_net (cl_sm E)) (br_subject r) (whitelist sm) \<and> remote_changes_state (cl_sm E) r sm"

fun ingest_filter ::
    "cluster_env \<Rightarrow> cluster_clock \<Rightarrow> TrustConfig \<Rightarrow> StateManager \<Rightarrow> string \<Rightarrow> nat \<Rightarrow> SignedBanRecord list
     \<Rightarrow> (string \<times> string) set \<Rightarrow> RateLimiter \<Rightarrow> SignedBanRecord list \<times> RateLimiter" where
  "ingest_filter E K policy sm from_id i [] batch limiter = ([], limiter)"
| "ingest_filter E K policy sm from_id i (s # records) batch limiter =
     (if \<not> applicable E policy (ck_filter K i) sm (sb_record s)
      then ingest_filter E K policy sm from_id (Suc i) records batch limiter
      else
        let key = (sb_signer_id s, record_key (cl_gossip E) (sb_record s))
        in if key \<in> batch then ingest_filter E K policy sm from_id (Suc i) records batch limiter
           else case check_and_record (fst (ck_raw K i)) (snd (ck_raw K i)) from_id limiter of
             (admitted, limiter) \<Rightarrow>
               (case ingest_filter E K policy sm from_id (Suc i) records (insert key batch) limiter of
                  (kept, limiter) \<Rightarrow> (if admitted then s # kept else kept, limiter)))"

definition decide_call ::
    "cluster_env \<Rightarrow> cluster_clock \<Rightarrow> string \<Rightarrow> SignedBanRecord list \<Rightarrow> StateManager \<Rightarrow> ClusterActor \<Rightarrow> gossip_call" where
  "decide_call E K from_id records sm a =
     \<lparr>gl_call = \<lparr>sy_sender = from_id, sy_trust = ca_trust a, sy_keys = peer_public_keys (ca_peers a),
        sy_eligible = (\<lambda>i. applicable E (ca_remote_policy a) (ck_eligible K i) sm), sy_now = ck_sync K,
        sy_limiter_clock = ck_limiter K\<rparr>,
      gl_records = records, gl_ban_counts = ca_ban_counts a, gl_limiter = ca_rate_limiter a\<rparr>"

fun apply_bans ::
    "cluster_env \<Rightarrow> cluster_clock \<Rightarrow> TrustConfig \<Rightarrow> string \<Rightarrow> nat \<Rightarrow> BanRecord list \<Rightarrow> StateManager
     \<Rightarrow> ip_net list \<times> StateManager" where
  "apply_bans E K policy from_id i [] sm = ([], sm)"
| "apply_bans E K policy from_id i (r # records) sm =
     (if \<not> remote_policy_allows policy r (ck_apply K)
         \<or> overlaps (env_net (cl_sm E)) (br_subject r) (whitelist sm)
         \<or> \<not> accepts_remote_ban (cl_sm E) r sm \<or> \<not> remote_changes_state (cl_sm E) r sm
      then apply_bans E K policy from_id (Suc i) records sm
      else
        let r' = (if is_cluster_peer (br_source r) then r else r\<lparr>br_source := ClusterPeer from_id\<rparr>)
        in case sm_add_ban (cl_sm E) (ck_io K i) r' sm of
             (res, sm) \<Rightarrow>
               (case apply_bans E K policy from_id (Suc i) records sm of
                  (enforced, sm) \<Rightarrow> (case res of Inr _ \<Rightarrow> br_subject r # enforced | Inl _ \<Rightarrow> enforced, sm)))"

text \<open>Up to the decision, with the call of the gossip engine that it makes; then the application.\<close>

definition ingest_decide ::
    "cluster_env \<Rightarrow> cluster_clock \<Rightarrow> string \<Rightarrow> SignedBanRecord list \<Rightarrow> StateManager \<Rightarrow> StateManager \<Rightarrow> ClusterActor
     \<Rightarrow> gossip_call \<times> BanRecord list \<times> ClusterActor" where
  "ingest_decide E K from_id records sm1 sm2 a =
     (let a = (if ck_instant K - ca_count_window a \<ge> int (secs 60)
               then a\<lparr>ca_ban_counts := hm_empty, ca_count_window := ck_window K\<rparr> else a)
      in case ingest_filter E K (ca_remote_policy a) sm1 from_id 0 records {} (ca_raw_limiter a) of
           (kept, raw_limiter) \<Rightarrow>
             (let a = a\<lparr>ca_raw_limiter := raw_limiter\<rparr>;
                  q = decide_call E K from_id kept sm2 a
              in case gossip_handle (cl_gossip E) q (co_gossip (ca_coordinator a)) of
                   (action, limiter, gossip) \<Rightarrow>
                     (let a = a\<lparr>ca_rate_limiter := limiter, ca_coordinator := (ca_coordinator a)\<lparr>co_gossip := gossip\<rparr>\<rparr>
                      in case action of
                           Some (ApplyBans ds) \<Rightarrow>
                             (q, ds, a\<lparr>ca_ban_counts := hm_insert from_id
                                (hm_get_or 0 (ca_ban_counts a) from_id + of_nat (length ds)) (ca_ban_counts a)\<rparr>)
                         | _ \<Rightarrow> (q, [], a))))"

definition ingest_remote_bans ::
    "cluster_env \<Rightarrow> cluster_clock \<Rightarrow> string \<Rightarrow> SignedBanRecord list \<Rightarrow> StateManager \<Rightarrow> StateManager \<Rightarrow> StateManager
     \<Rightarrow> ClusterActor \<Rightarrow> ip_net list \<times> StateManager \<times> ClusterActor" where
  "ingest_remote_bans E K from_id records sm1 sm2 sm3 a =
     (if records = [] then ([], sm3, a)
      else case ingest_decide E K from_id records sm1 sm2 a of
        (_, ds, a) \<Rightarrow>
          (case apply_bans E K (ca_remote_policy a) from_id 0 ds sm3 of
             (enforced, sm) \<Rightarrow> (enforced, sm, a)))"

section \<open>The other messages and the timers\<close>

definition note_digest_mismatch :: "instant \<Rightarrow> string \<Rightarrow> ClusterActor \<Rightarrow> ClusterActor" where
  "note_digest_mismatch now peer a =
     (let entry = hm_get_or (0, None) (ca_digest_mismatches a) peer;
          due = (case snd entry of None \<Rightarrow> True | Some last_report \<Rightarrow> now - last_report \<ge> int DIGEST_MISMATCH_REPORT_INTERVAL)
      in a\<lparr>ca_digest_mismatches := hm_insert peer (if due then (0, Some now) else (fst entry + 1, snd entry))
            (ca_digest_mismatches a)\<rparr>)"

definition on_digest_exchange ::
    "cluster_env \<Rightarrow> cluster_clock \<Rightarrow> string \<Rightarrow> byte list \<Rightarrow> StateManager \<Rightarrow> ClusterActor \<Rightarrow> ClusterActor \<times> ActorEffect list" where
  "on_digest_exchange E K from_id merkle_root sm a =
     (case handle_digest_exchange (cl_gossip E) merkle_root (get_all_bans (ban_store sm)) from_id of
        Some (SendDiffRequest _ missing_keys) \<Rightarrow>
          (note_digest_mismatch (ck_instant K) from_id a, send_to from_id (DiffRequest missing_keys) a)
      | _ \<Rightarrow>
          (case hm_get (ca_digest_mismatches a) from_id of
             Some (_, last_report) \<Rightarrow>
               (a\<lparr>ca_digest_mismatches := hm_insert from_id (0, last_report) (ca_digest_mismatches a)\<rparr>, [])
           | None \<Rightarrow> (a, [])))"

text \<open>The next batch of at most 256 of the missing records, and the offset of the one after it.\<close>

definition rotate_batch :: "nat \<Rightarrow> 'a list \<Rightarrow> 'a list \<times> nat" where
  "rotate_batch offset missing =
     (let n = length missing; batch = take 256 (rotate (offset mod n) missing)
      in (batch, (offset + length batch) mod n))"

definition offered :: "cluster_env \<Rightarrow> string list \<Rightarrow> StateManager \<Rightarrow> BanRecord list" where
  "offered E peer_keys sm =
     sort_key (\<lambda>r. ge_show_net (cl_gossip E) (br_subject r))
       (filter (\<lambda>r. br_expires_at r \<noteq> None)
         (filter (\<lambda>r. \<not> is_cluster_peer (br_source r))
           (handle_diff_request (cl_gossip E) peer_keys (get_all_bans (ban_store sm)))))"

text \<open>\<open>filter_map\<close> over a function that may panic.\<close>

fun filter_map_panic :: "('a \<Rightarrow> 'b option option) \<Rightarrow> 'a list \<Rightarrow> 'b list option" where
  "filter_map_panic f [] = Some []"
| "filter_map_panic f (x # xs) =
     (case f x of
        None \<Rightarrow> None
      | Some y \<Rightarrow> (case filter_map_panic f xs of
          None \<Rightarrow> None
        | Some ys \<Rightarrow> Some (case y of Some y' \<Rightarrow> y' # ys | None \<Rightarrow> ys)))"

definition on_diff_request ::
    "cluster_env \<Rightarrow> cluster_clock \<Rightarrow> string \<Rightarrow> string list \<Rightarrow> StateManager \<Rightarrow> ClusterActor
     \<Rightarrow> (ClusterActor \<times> ActorEffect list) option" where
  "on_diff_request E K from_id peer_keys sm a =
     (if (case hm_get (ca_diff_requests a) from_id of
            Some last_request \<Rightarrow> ck_instant K - last_request < int MAINTENANCE_INTERVAL
          | None \<Rightarrow> False) then Some (a, [])
      else
        let missing = offered E peer_keys sm;
            offset = hm_get_or 0 (ca_diff_offsets a) from_id;
            a = a\<lparr>ca_diff_requests := hm_insert from_id (ck_instant K) (ca_diff_requests a),
                  ca_diff_offsets := hm_insert from_id offset (ca_diff_offsets a)\<rparr>
        in if missing = [] then Some (a, [])
           else case rotate_batch offset missing of
             (batch, offset) \<Rightarrow>
               (let a = a\<lparr>ca_diff_offsets := hm_insert from_id offset (ca_diff_offsets a)\<rparr>
                in case filter_map_panic (\<lambda>r. announced_form (cl_chrono E) r (announce_max_secs (ca_remote_policy a)) (ck_utc K)) batch of
                     None \<Rightarrow> None
                   | Some records \<Rightarrow> Some (send_signed_bans E (ck_slot_free K) [from_id] records a)))"

text \<open>The result of a message: enforced networks, state manager, actor, effects.\<close>

type_synonym inbound = "ip_net list \<times> StateManager \<times> ClusterActor \<times> ActorEffect list"

definition on_inbound ::
    "cluster_env \<Rightarrow> cluster_clock \<Rightarrow> string \<Rightarrow> ClusterMessage \<Rightarrow> StateManager \<Rightarrow> StateManager \<Rightarrow> StateManager
     \<Rightarrow> ClusterActor \<Rightarrow> inbound option" where
  "on_inbound E K from_id msg sm1 sm2 sm3 a0 =
     (let a = set_peers (update_peer_state (ck_heard K) from_id Alive (ca_peers a0)) a0;
          ingest = (\<lambda>records. case ingest_remote_bans E K from_id records sm1 sm2 sm3 a of
             (enforced, sm, a) \<Rightarrow> Some (enforced, sm, a, []))
      in case msg of
           Ping _ _ \<Rightarrow> Some ([], sm3, a, send_to from_id (Pong (ca_node_id a) (local_digest E sm1)) a)
         | Pong _ _ \<Rightarrow> Some ([], sm3, a\<lparr>ca_coordinator := co_handle_pong (ck_pong K) from_id (ca_coordinator a)\<rparr>, [])
         | PingReq _ target \<Rightarrow> Some ([], sm3, a, send_to target (Ping (ca_node_id a) (local_digest E sm1)) a)
         | BanSync _ records \<Rightarrow> ingest records
         | DiffResponse records \<Rightarrow> ingest records
         | DigestExchange merkle_root \<Rightarrow>
             (case on_digest_exchange E K from_id merkle_root sm1 a of (a, effects) \<Rightarrow> Some ([], sm3, a, effects))
         | DiffRequest missing_keys \<Rightarrow>
             (case on_diff_request E K from_id missing_keys sm1 a of
                None \<Rightarrow> None
              | Some (a, effects) \<Rightarrow> Some ([], sm3, a, effects))
         | MembershipUpdate _ \<Rightarrow> Some ([], sm3, a, []))"

definition drop_peer :: "string \<Rightarrow> ClusterActor \<Rightarrow> ClusterActor \<times> ActorEffect list" where
  "drop_peer node_id a =
     (set_peers (remove_peer node_id (ca_peers a)) (a\<lparr>ca_connections := hm_remove node_id (ca_connections a)\<rparr>),
      (case hm_get (ca_connections a) node_id of Some conn \<Rightarrow> [CloseConn conn ''dead''] | None \<Rightarrow> []))"

fun on_swim_action :: "SwimAction \<Rightarrow> ClusterActor \<Rightarrow> ClusterActor \<times> ActorEffect list" where
  "on_swim_action (SendPing target digest) a = (a, send_to target (Ping (ca_node_id a) digest) a)"
| "on_swim_action (SendPingReq target via_peers) a =
     (a, concat (List.map (\<lambda>via. send_to via (PingReq (ca_node_id a) target) a) via_peers))"
| "on_swim_action (MarkDead node_id) a = drop_peer node_id a"
| "on_swim_action (RemovePeer node_id) a = drop_peer node_id a"
| "on_swim_action (MarkSuspect _) a = (a, [])"
| "on_swim_action NoAction a = (a, [])"

fun on_swim_actions :: "SwimAction list \<Rightarrow> ClusterActor \<Rightarrow> ClusterActor \<times> ActorEffect list" where
  "on_swim_actions [] a = (a, [])"
| "on_swim_actions (x # xs) a =
     (case on_swim_action x a of
        (a, effects) \<Rightarrow> (case on_swim_actions xs a of (a, later) \<Rightarrow> (a, effects @ later)))"

definition on_probe :: "probe_env \<Rightarrow> ClusterActor \<Rightarrow> ClusterActor \<times> ActorEffect list" where
  "on_probe P a =
     (case run_probe_cycle P [] (ca_coordinator a) of
        (actions, co) \<Rightarrow> on_swim_actions actions (a\<lparr>ca_coordinator := co\<rparr>))"

definition track_seed_outage :: "Seed \<Rightarrow> bool \<Rightarrow> instant \<Rightarrow> ClusterActor \<Rightarrow> ClusterActor" where
  "track_seed_outage seed is_connected now a =
     (case seed_fingerprint seed of
        None \<Rightarrow> a
      | Some fp \<Rightarrow>
          if fp = ca_node_id a then a
          else if is_connected then a\<lparr>ca_seed_outages := hm_remove (raw_addr seed) (ca_seed_outages a)\<rparr>
          else case hm_get_or (now, None) (ca_seed_outages a) (raw_addr seed) of
            (down_since, last_warn) \<Rightarrow>
              (let due = (now - down_since \<ge> int SEED_UNREACHABLE_WARN_AFTER
                     \<and> (case last_warn of None \<Rightarrow> True | Some last_time \<Rightarrow> now - last_time \<ge> int SEED_UNREACHABLE_REPEAT))
               in a\<lparr>ca_seed_outages := hm_insert (raw_addr seed) (down_since, if due then Some now else last_warn)
                     (ca_seed_outages a)\<rparr>))"

definition dial :: "string \<Rightarrow> ClusterActor \<Rightarrow> ClusterActor \<times> ActorEffect list" where
  "dial addr a =
     (if addr \<in> ca_dialing a then (a, [])
      else (a\<lparr>ca_dialing := insert addr (ca_dialing a)\<rparr>, [Dial addr]))"

fun dial_seeds :: "instant \<Rightarrow> Seed list \<Rightarrow> ClusterActor \<Rightarrow> ClusterActor \<times> ActorEffect list" where
  "dial_seeds now [] a = (a, [])"
| "dial_seeds now (seed # seeds) a =
     (let is_connected = (case seed_fingerprint seed of
            Some fp \<Rightarrow> hm_contains (ca_connections a) fp
          | None \<Rightarrow> ca_connections a \<noteq> []);
          a = track_seed_outage seed is_connected now a
      in if is_connected then dial_seeds now seeds a
         else case dial (raw_addr seed) a of
           (a, effects) \<Rightarrow> (case dial_seeds now seeds a of (a, later) \<Rightarrow> (a, effects @ later)))"

definition on_maintenance :: "instant \<Rightarrow> ClusterActor \<Rightarrow> ClusterActor \<times> ActorEffect list" where
  "on_maintenance now a =
     (case dial_seeds now (ca_seeds a) a of
        (a, effects) \<Rightarrow>
          (let conns = hm_values (ca_connections a)
           in if conns = [] then (a, effects) else (a, effects @ [OfferDigest conns])))"

text \<open>The task that \<open>on_maintenance\<close> spawns: it takes the lock and sends the digest.\<close>

definition offer_digest :: "cluster_env \<Rightarrow> conn list \<Rightarrow> StateManager \<Rightarrow> ActorEffect list" where
  "offer_digest E conns sm = List.map (\<lambda>conn. SendMsg conn (DigestExchange (local_digest E sm))) conns"

text \<open>The end of a dial, successful or not.\<close>

definition dial_done :: "string \<Rightarrow> ClusterActor \<Rightarrow> ClusterActor" where
  "dial_done addr a = a\<lparr>ca_dialing := ca_dialing a - {addr}\<rparr>"

text \<open>
  The budget of a reader: window start, bytes and messages of the window. A message that
  exceeds it closes the connection.
\<close>

definition reader_budget :: "instant \<Rightarrow> instant \<Rightarrow> nat \<Rightarrow> instant \<times> nat \<times> nat \<Rightarrow> (instant \<times> nat \<times> nat) option" where
  "reader_budget now now' len st =
     (case st of (window, bytes, messages) \<Rightarrow>
        (let (window, bytes, messages) =
               (if now - window \<ge> int (secs 60) then (now', 0, 0) else (window, bytes, messages));
             bytes = bytes + len; messages = messages + 1
         in if bytes > 16 * 1024 * 1024 \<or> messages > 1024 then None else Some (window, bytes, messages)))"

end
