(* ===== verification/Cluster_Safety.thy ===== *)
theory Cluster_Safety
  imports Cluster
begin

text \<open>
  What the cluster runtime guarantees for the state of a node. Runs of the actor are an
  inductive relation over all its handlers; along a run the calls of the gossip engine are
  recorded. The theorems bound what a packet from a peer can do to the bans.
\<close>

section \<open>Applying remote bans\<close>


definition store_ready :: "nat \<Rightarrow> InMemoryBanStore \<Rightarrow> bool" where
  "store_ready n st \<longleftrightarrow> store_wf st \<and> keys_truncated st \<and> length (bans st) + n < 2 ^ 32"

lemma bans_add_ban: "bans (add_ban r st) = hm_insert (br_subject r) r (bans st)"
  by (auto simp: add_ban_def Let_def split: option.splits)

lemma store_ready_add:
  assumes "store_ready (Suc n) st" "net_ok (br_subject r)" "truncated (br_subject r)"
  shows "store_ready n (add_ban r st)"
proof -
  have "length (bans (add_ban r st)) \<le> Suc (length (bans st))"
    by (simp add: bans_add_ban hm_length_insert_le)
  moreover have "keys_truncated (add_ban r st)"
    using assms(1,3) by (auto simp: store_ready_def keys_truncated_def bans_add_ban split: if_splits)
  ultimately show ?thesis using assms add_ban_wf [of st r] by (simp add: store_ready_def)
qed

lemma store_ready_less: "store_ready (Suc n) st \<Longrightarrow> store_ready n st"
  by (simp add: store_ready_def)

text \<open>A ban that the node detected itself stands in the way of any remote ban on its subject.\<close>

lemma local_ban_blocks:
  assumes "ipnet_spec (env_net E)" "store_ready n (ban_store sm)" "net_ok (br_subject r)"
    and "hm_get (bans (ban_store sm)) (truncate_net (br_subject r)) = Some b" "\<not> is_cluster_peer (br_source b)"
  shows "\<not> remote_changes_state E r sm"
proof -
  let ?st = "ban_store sm" and ?ip = "net_addr (br_subject r)"
  have st: "store_wf ?st" "keys_truncated ?st" using assms(2) by (simp_all add: store_ready_def)
  have key: "br_subject b = truncate_net (br_subject r)"
    using map_of_SomeD [OF assms(4)] st(1) by (auto simp: store_wf_def)
  have "b \<in> bans_covering ?st ?ip"
    using map_of_SomeD [OF assms(4)] key
    by (force simp: bans_covering_def get_all_bans_def hm_values_def)
  then obtain x where x: "is_banned (env_net E) ?st ?ip = Some x"
    using ipnet_spec.is_banned_longest [OF assms(1) st, of ?ip] by (cases "is_banned (env_net E) ?st ?ip") auto
  have "x = b" if "br_subject x = br_subject r"
  proof -
    have "x \<in> set (get_all_bans ?st)"
      using ipnet_spec.is_banned_longest [OF assms(1) st, of ?ip] x by (simp add: bans_covering_def)
    then obtain k where k: "(k, x) \<in> set (bans ?st)" by (auto simp: get_all_bans_def hm_values_def)
    then have "br_subject x = k" "hm_get (bans ?st) k = Some x" "truncated k"
      using st by (force simp: store_wf_def hm_get_eq_Some keys_truncated_def hm_keys_def)+
    then have "hm_get (bans ?st) (br_subject x) = Some x" "truncated (br_subject x)" by simp_all
    then show ?thesis using assms(4) that by (simp add: truncated_def)
  qed
  then show ?thesis using x assms(5) by (auto simp: remote_changes_state_def)
qed

lemma sm_add_ban_effect:
  assumes "sm_add_ban E io r sm = (res, sm')"
  shows "whitelist sm' = whitelist sm \<and>
    (ban_store sm' = ban_store sm \<or>
     ban_store sm' = add_ban (r\<lparr>br_subject := net_trunc (env_net E) (br_subject r)\<rparr>) (ban_store sm)
     \<and> \<not> overlaps (env_net E) (net_trunc (env_net E) (br_subject r)) (whitelist sm))"
  using assms
  by (auto simp: sm_add_ban_def Let_def sm_append_unchanged split: if_splits prod.splits sum.splits)

text \<open>\<open>r\<close> is the remote decision \<open>d\<close> as it is stored under the network \<open>k\<close>.\<close>

definition stored_as :: "BanRecord \<Rightarrow> ip_net \<Rightarrow> BanRecord \<Rightarrow> bool" where
  "stored_as d k r \<longleftrightarrow> k = truncate_net (br_subject d) \<and> is_cluster_peer (br_source r)
     \<and> r = d\<lparr>br_source := br_source r, br_subject := k\<rparr>"

definition apply_ok :: "cluster_env \<Rightarrow> TrustConfig \<Rightarrow> instant \<Rightarrow> BanRecord set \<Rightarrow> StateManager \<Rightarrow> StateManager \<Rightarrow> bool" where
  "apply_ok E policy now D sm sm' \<longleftrightarrow> whitelist sm' = whitelist sm \<and>
     (\<forall>k b. hm_get (bans (ban_store sm)) k = Some b \<and> \<not> is_cluster_peer (br_source b) \<longrightarrow>
        hm_get (bans (ban_store sm')) k = Some b) \<and>
     (\<forall>k r. hm_get (bans (ban_store sm')) k = Some r \<and> hm_get (bans (ban_store sm)) k \<noteq> Some r \<longrightarrow>
        (\<exists>d \<in> D. stored_as d k r \<and> remote_policy_allows policy d now
           \<and> \<not> overlaps (env_net (cl_sm E)) k (whitelist sm)))"

lemma apply_ok_refl: "apply_ok E policy now D sm sm"
  by (simp add: apply_ok_def)

lemma apply_ok_trans:
  "apply_ok E policy now D sm sm1 \<Longrightarrow> apply_ok E policy now D sm1 sm2 \<Longrightarrow> apply_ok E policy now D sm sm2"
  unfolding apply_ok_def by (metis (no_types, lifting))

lemma apply_ok_mono: "apply_ok E policy now D sm sm' \<Longrightarrow> D \<subseteq> D' \<Longrightarrow> apply_ok E policy now D' sm sm'"
  unfolding apply_ok_def by blast

lemma apply_one_ok:
  assumes net: "ipnet_spec (env_net (cl_sm E))" and st: "store_ready (Suc n) (ban_store sm)" and ok: "net_ok (br_subject d)"
    and pol: "remote_policy_allows policy d now" "remote_changes_state (cl_sm E) d sm"
    and add: "sm_add_ban (cl_sm E) io (d\<lparr>br_source := src\<rparr>) sm = (res, sm')" and src: "is_cluster_peer src"
  shows "apply_ok E policy now {d} sm sm' \<and> store_ready n (ban_store sm')"
proof -
  let ?k = "truncate_net (br_subject d)"
  have k: "net_trunc (env_net (cl_sm E)) (br_subject d) = ?k" by (rule ipnet_spec.trunc [OF net ok])
  consider (same) "ban_store sm' = ban_store sm" "whitelist sm' = whitelist sm"
    | (added) "ban_store sm' = add_ban (d\<lparr>br_source := src, br_subject := ?k\<rparr>) (ban_store sm)"
        "whitelist sm' = whitelist sm" "\<not> overlaps (env_net (cl_sm E)) ?k (whitelist sm)"
    using sm_add_ban_effect [OF add] k by auto
  then show ?thesis
  proof cases
    case same
    then show ?thesis using store_ready_less [OF st] by (simp add: apply_ok_def)
  next
    case added
    have "is_cluster_peer (br_source b)" if "hm_get (bans (ban_store sm)) ?k = Some b" for b
      using local_ban_blocks [OF net st ok that] pol(2) by blast
    then have "apply_ok E policy now {d} sm sm'"
      using added pol(1) src by (auto simp: apply_ok_def bans_add_ban stored_as_def split: if_splits)
    then show ?thesis using store_ready_add [OF st] added(1) ok by simp
  qed
qed

lemma apply_bans_ok:
  assumes "ipnet_spec (env_net (cl_sm E))" "store_ready (length ds) (ban_store sm)" "\<forall>d \<in> set ds. net_ok (br_subject d)"
    and "apply_bans E K policy from_id i ds sm = (enforced, sm')"
  shows "apply_ok E policy (ck_apply K) (set ds) sm sm'"
  using assms(2-4)
proof (induction ds arbitrary: i sm enforced)
  case Nil
  then show ?case by (simp add: apply_ok_refl)
next
  case (Cons d ds)
  show ?case
  proof (cases "\<not> remote_policy_allows policy d (ck_apply K) \<or> overlaps (env_net (cl_sm E)) (br_subject d) (whitelist sm)
      \<or> \<not> accepts_remote_ban (cl_sm E) d sm \<or> \<not> remote_changes_state (cl_sm E) d sm")
    case True
    then have "apply_bans E K policy from_id (Suc i) ds sm = (enforced, sm')" using Cons.prems(3) by auto
    then show ?thesis using Cons.IH [of sm] Cons.prems store_ready_less by (auto intro: apply_ok_mono)
  next
    case False
    define src where "src = (if is_cluster_peer (br_source d) then br_source d else ClusterPeer from_id)"
    have d': "(if is_cluster_peer (br_source d) then d else d\<lparr>br_source := ClusterPeer from_id\<rparr>) = d\<lparr>br_source := src\<rparr>"
      by (simp add: src_def)
    obtain res sm1 where add: "sm_add_ban (cl_sm E) (ck_io K i) (d\<lparr>br_source := src\<rparr>) sm = (res, sm1)" by fastforce
    obtain enf where rest: "apply_bans E K policy from_id (Suc i) ds sm1 = (enf, sm')"
      using Cons.prems(3) False add by (auto simp: d' split: prod.splits)
    have "apply_ok E policy (ck_apply K) {d} sm sm1 \<and> store_ready (length ds) (ban_store sm1)"
      by (rule apply_one_ok [OF assms(1) _ _ _ _ add]) (use Cons.prems False in \<open>simp_all add: src_def\<close>)
    then show ?thesis using Cons.IH [OF _ _ rest] Cons.prems(2)
      by (auto intro: apply_ok_trans apply_ok_mono)
  qed
qed

section \<open>Runs of the actor\<close>

text \<open>The bans a message carries, and the call of the gossip engine that it leads to.\<close>

fun carried :: "ClusterMessage \<Rightarrow> SignedBanRecord list" where
  "carried (BanSync _ records) = records"
| "carried (DiffResponse records) = records"
| "carried _ = []"

definition heard :: "cluster_clock \<Rightarrow> string \<Rightarrow> ClusterActor \<Rightarrow> ClusterActor" where
  "heard K from_id a = set_peers (update_peer_state (ck_heard K) from_id Alive (ca_peers a)) a"

definition inbound_calls ::
    "cluster_env \<Rightarrow> cluster_clock \<Rightarrow> string \<Rightarrow> ClusterMessage \<Rightarrow> StateManager \<Rightarrow> StateManager \<Rightarrow> ClusterActor \<Rightarrow> gossip_call list" where
  "inbound_calls E K from_id msg sm1 sm2 a =
     (if carried msg = [] then [] else [fst (ingest_decide E K from_id (carried msg) sm1 sm2 (heard K from_id a))])"

inductive cluster_run :: "cluster_env \<Rightarrow> ClusterActor \<Rightarrow> gossip_call list \<Rightarrow> ClusterActor \<Rightarrow> bool" for E a0 where
  start: "cluster_run E a0 [] a0"
| connected: "cluster_run E a0 qs a \<Longrightarrow>
    cluster_run E a0 qs (fst (on_peer_connected is_closed now node_id public_key addr conn a))"
| message: "cluster_run E a0 qs a \<Longrightarrow> on_inbound E K from_id msg sm1 sm2 sm3 a = Some (enforced, sm', a', effects) \<Longrightarrow>
    cluster_run E a0 (qs @ inbound_calls E K from_id msg sm1 sm2 a) a'"
| announce: "cluster_run E a0 qs a \<Longrightarrow> on_local_ban E slot_free now r a = Some (a', effects) \<Longrightarrow> cluster_run E a0 qs a'"
| probe: "cluster_run E a0 qs a \<Longrightarrow> cluster_run E a0 qs (fst (on_probe P a))"
| maintain: "cluster_run E a0 qs a \<Longrightarrow> cluster_run E a0 qs (fst (on_maintenance now a))"
| dialed: "cluster_run E a0 qs a \<Longrightarrow> cluster_run E a0 qs (dial_done addr a)"

text \<open>What no handler changes, and what a peer must be to be in the table.\<close>

definition admitted_peer :: "ClusterActor \<Rightarrow> string \<Rightarrow> bool" where
  "admitted_peer a0 n \<longleftrightarrow> n \<noteq> ca_node_id a0 \<and> (ca_strict a0 \<longrightarrow> n \<in> ca_allowed a0)"

definition same_config :: "ClusterActor \<Rightarrow> ClusterActor \<Rightarrow> bool" where
  "same_config a b \<longleftrightarrow> ca_node_id b = ca_node_id a \<and> ca_strict b = ca_strict a \<and> ca_allowed b = ca_allowed a
     \<and> ca_founders b = ca_founders a \<and> ca_remote_policy b = ca_remote_policy a"

text \<open>A step without consequences for the safety of bans: engine and trust table stay, no peer joins.\<close>

definition calm :: "ClusterActor \<Rightarrow> ClusterActor \<Rightarrow> bool" where
  "calm a b \<longleftrightarrow> same_config a b \<and> ca_trust b = ca_trust a
     \<and> co_gossip (ca_coordinator b) = co_gossip (ca_coordinator a)
     \<and> (pm_wf (ca_peers a) \<longrightarrow> pm_wf (ca_peers b)
          \<and> dom (peer_of (ca_peers b)) \<subseteq> dom (peer_of (ca_peers a)))"

lemma calm_refl [simp]: "calm a a"
  by (simp add: calm_def same_config_def)

lemma calm_trans: "calm a b \<Longrightarrow> calm b c \<Longrightarrow> calm a c"
  by (simp add: calm_def same_config_def) blast

lemma calm_fields [simp]:
  "calm a (a\<lparr>ca_sign_cache := x1\<rparr>)" "calm a (a\<lparr>ca_diff_offsets := x2\<rparr>)" "calm a (a\<lparr>ca_diff_requests := x3\<rparr>)"
  "calm a (a\<lparr>ca_digest_mismatches := x4\<rparr>)" "calm a (a\<lparr>ca_seed_outages := x5\<rparr>)" "calm a (a\<lparr>ca_connections := x6\<rparr>)"
  "calm a (a\<lparr>ca_dialing := x7\<rparr>)" "calm a (a\<lparr>ca_diff_requests := x3, ca_diff_offsets := x2\<rparr>)"
  by (simp_all add: calm_def same_config_def)

lemma ca_peers_set [simp]: "ca_peers (set_peers pm a) = pm"
  by (simp add: set_peers_def)

lemma calm_set_peers:
  "(pm_wf (ca_peers a) \<Longrightarrow> pm_wf pm \<and> dom (peer_of pm) \<subseteq> dom (peer_of (ca_peers a))) \<Longrightarrow> calm a (set_peers pm a)"
  by (simp add: calm_def same_config_def set_peers_def)

lemma dom_update_peer [simp]: "dom (peer_of (update_peer_state t n s pm)) = dom (peer_of pm)"
  by (auto simp: dom_def)

lemma calm_heard: "calm a (heard K from_id a)"
  unfolding heard_def by (rule calm_set_peers) (simp add: dom_update_peer del: peer_of_update)

lemma check_timeouts_calm:
  assumes "check_timeouts pick now clock pm sw = (actions, pm', sw')"
  shows "(pm_wf pm \<longrightarrow> pm_wf pm') \<and> dom (peer_of pm') \<subseteq> dom (peer_of pm)"
proof -
  obtain kept pm1 acts1 where 1: "check_pings sw pick now clock (pending_pings sw) pm [] = (kept, pm1, acts1)"
    by (metis prod_cases3)
  obtain pm2 acts2 where 2: "check_suspects (sw_config sw) now clock (peers_in Suspect pm1) pm1 acts1 = (pm2, acts2)"
    by fastforce
  have 3: "check_dead (sw_config sw) now (peers_in Dead pm2) pm2 acts2 = (pm', actions)"
    using assms 1 2 by (auto simp: check_timeouts_def split: prod.splits)
  have "peer_of pm1 p = None \<longleftrightarrow> peer_of pm p = None" for p
    using check_pings_effect [OF 1, of p] by auto
  moreover have "peer_of pm2 p = None \<longleftrightarrow> peer_of pm1 p = None" for p
    using check_suspects_effect [OF 2, of p] by (auto split: if_splits)
  moreover have "peer_of pm2 p = None \<Longrightarrow> peer_of pm' p = None" for p
    using check_dead_effect [OF 3, of p] by simp
  ultimately have "dom (peer_of pm') \<subseteq> dom (peer_of pm)" by (intro subsetI) (metis domIff)
  then show ?thesis
    using check_pings_effect [OF 1] check_suspects_effect [OF 2] check_dead_effect [OF 3] by blast
qed

lemma calm_probe_cycle:
  "run_probe_cycle P digest (ca_coordinator a) = (actions, co) \<Longrightarrow> calm a (a\<lparr>ca_coordinator := co\<rparr>)"
  using check_timeouts_calm
  by (fastforce simp: run_probe_cycle_def calm_def same_config_def split: prod.splits)

lemma calm_drop_peer: "calm a (fst (drop_peer n a))"
proof -
  have "calm b (set_peers (remove_peer n (ca_peers b)) b)" for b
    by (rule calm_set_peers) (auto simp: dom_def)
  from calm_trans [OF calm_fields(6) this] show ?thesis by (simp add: drop_peer_def)
qed

lemma calm_swim_action: "calm a (fst (on_swim_action x a))"
  by (cases x) (simp_all add: calm_drop_peer)

lemma calm_swim_actions: "calm a (fst (on_swim_actions xs a))"
proof (induction xs arbitrary: a)
  case (Cons x xs)
  show ?case
    using calm_trans [OF calm_swim_action [of a x] Cons.IH] by (simp add: case_prod_beta)
qed simp

lemma calm_probe: "calm a (fst (on_probe P a))"
  using calm_trans [OF calm_probe_cycle calm_swim_actions] by (simp add: on_probe_def split: prod.split)

lemma calm_track: "calm a (track_seed_outage seed c now a)"
  by (simp add: track_seed_outage_def Let_def split: option.split prod.split)

lemma calm_dial: "calm a (fst (dial addr a))"
  by (simp add: dial_def)

lemma calm_dial_seeds: "calm a (fst (dial_seeds now seeds a))"
proof (induction seeds arbitrary: a)
  case (Cons s seeds)
  have "calm a (fst (dial_seeds now seeds (track_seed_outage s c now a)))" for c
    by (rule calm_trans [OF calm_track Cons.IH])
  moreover have "calm a (fst (dial_seeds now seeds (fst (dial (raw_addr s) (track_seed_outage s c now a)))))" for c
    by (rule calm_trans [OF calm_trans [OF calm_track calm_dial] Cons.IH])
  ultimately show ?case by (simp add: Let_def case_prod_beta)
qed simp

lemma calm_maintenance: "calm a (fst (on_maintenance now a))"
  using calm_dial_seeds [of a now "ca_seeds a"] by (simp add: on_maintenance_def Let_def case_prod_beta)

lemma calm_send_signed: "calm a (fst (send_signed_bans E slot targets records a))"
  by (simp add: send_signed_bans_def Let_def split: prod.split)

lemma calm_local_ban: "on_local_ban E slot now r a = Some (a', effects) \<Longrightarrow> calm a a'"
  using calm_send_signed by (auto simp: on_local_ban_def split: if_splits option.splits) (metis fst_conv)+

lemma calm_digest_exchange: "calm a (fst (on_digest_exchange E K from_id digest sm a))"
  by (simp add: on_digest_exchange_def note_digest_mismatch_def Let_def split: option.split GossipAction.split prod.split)

lemma calm_diff_request:
  assumes "on_diff_request E K from_id ks sm a = Some (a', effects)"
  shows "calm a a'"
proof -
  have "send_signed_bans E s ts rs b = (a', effects) \<Longrightarrow> calm a b \<Longrightarrow> calm a a'" for b s ts rs
    using calm_send_signed [of b E s ts rs] calm_trans by fastforce
  then show ?thesis using assms
    by (auto simp: on_diff_request_def Let_def split: if_splits option.splits prod.splits)
qed

section \<open>The invariant of a run\<close>

definition cluster_inv :: "cluster_env \<Rightarrow> ClusterActor \<Rightarrow> real \<Rightarrow> gossip_call list \<Rightarrow> ClusterActor \<Rightarrow> bool" where
  "cluster_inv E a0 t qs a \<longleftrightarrow> same_config a0 a \<and> (\<exists>ops. ca_trust a = fold trust_step ops (tm_new t))
     \<and> co_gossip (ca_coordinator a) = gossip_run (cl_gossip E) qs (co_gossip (ca_coordinator a0))
     \<and> pm_wf (ca_peers a) \<and> (\<forall>n \<in> dom (peer_of (ca_peers a)). admitted_peer a0 n)
     \<and> (\<forall>q \<in> set qs. \<forall>n. hm_contains (sy_keys (gl_call q)) n \<longrightarrow> admitted_peer a0 n)"

lemma cluster_inv_calm:
  assumes "cluster_inv E a0 t qs a" "calm a b"
  shows "cluster_inv E a0 t qs b"
  using assms by (simp add: cluster_inv_def calm_def same_config_def) blast

lemma pm_wf_add [simp]: "pm_wf pm \<Longrightarrow> pm_wf (add_peer p pm)"
  by (auto simp: pm_wf_def add_peer_def split: if_splits)

lemma dom_add_peer [simp]: "dom (peer_of (add_peer p pm)) = insert (pi_node_id p) (dom (peer_of pm))"
  by (auto simp: add_peer_def split: if_splits)

lemma register_peer_peers:
  assumes "pm_wf (ca_peers a)"
  shows "pm_wf (ca_peers (register_peer now n pk addr a))
    \<and> dom (peer_of (ca_peers (register_peer now n pk addr a))) = insert n (dom (peer_of (ca_peers a)))"
proof -
  define pm where "pm = (case peer_of (ca_peers a) n of
      Some _ \<Rightarrow> update_peer_state now n Alive (ca_peers a)
    | None \<Rightarrow> add_peer ((peer_new now n addr n)\<lparr>pi_public_key := pk\<rparr>) (ca_peers a))"
  have pm: "pm_wf pm \<and> dom (peer_of pm) = insert n (dom (peer_of (ca_peers a)))"
    using assms by (auto simp: pm_def peer_new_def simp del: peer_of_update split: option.split)
  define pm' where "pm' = (case peer_of pm n of
      Some p \<Rightarrow> if pi_public_key p \<noteq> pk then add_peer (p\<lparr>pi_public_key := pk\<rparr>) pm else pm
    | None \<Rightarrow> pm)"
  have "pm_wf pm' \<and> dom (peer_of pm') = insert n (dom (peer_of (ca_peers a)))"
  proof (cases "peer_of pm n")
    case (Some p)
    then have "pi_node_id p = n" "n \<in> dom (peer_of pm)" using pm by (auto simp: pm_wf_def)
    then show ?thesis using pm Some by (auto simp: pm'_def)
  qed (use pm in \<open>simp add: pm'_def\<close>)
  moreover have "ca_peers (register_peer now n pk addr a) = pm'"
    by (simp add: register_peer_def Let_def pm_def [symmetric] pm'_def [symmetric])
  ultimately show ?thesis by simp
qed

lemma register_peer_rest:
  "same_config a (register_peer now n pk addr a)"
  "co_gossip (ca_coordinator (register_peer now n pk addr a)) = co_gossip (ca_coordinator a)"
  "\<exists>op. ca_trust (register_peer now n pk addr a) = trust_step op (ca_trust a)"
  by (simp_all add: register_peer_def Let_def set_peers_def same_config_def)
    (metis trust_step.simps(1,2))

lemma cluster_inv_register:
  assumes "cluster_inv E a0 t qs a" "admitted_peer a0 n"
  shows "cluster_inv E a0 t qs (register_peer now n pk addr a)"
proof -
  let ?b = "register_peer now n pk addr a"
  obtain ops where ops: "ca_trust a = fold trust_step ops (tm_new t)" using assms(1) by (auto simp: cluster_inv_def)
  obtain op where "ca_trust ?b = trust_step op (ca_trust a)" using register_peer_rest(3) by blast
  then have "ca_trust ?b = fold trust_step (ops @ [op]) (tm_new t)" using ops by simp
  then have trust: "\<exists>ops. ca_trust ?b = fold trust_step ops (tm_new t)" by blast
  have peers: "pm_wf (ca_peers ?b)" "dom (peer_of (ca_peers ?b)) = insert n (dom (peer_of (ca_peers a)))"
    using register_peer_peers assms(1) by (simp_all add: cluster_inv_def)
  have "same_config a0 ?b" using register_peer_rest(1) [of a] assms(1) by (simp add: cluster_inv_def same_config_def)
  then show ?thesis
    using assms trust peers register_peer_rest(2) unfolding cluster_inv_def by simp
qed

lemma cluster_inv_connected:
  assumes "cluster_inv E a0 t qs a"
  shows "cluster_inv E a0 t qs (fst (on_peer_connected is_closed now n pk addr conn a))"
proof -
  let ?b = "register_peer now n pk addr a"
  have reg: "cluster_inv E a0 t qs ?b" if "n \<noteq> ca_node_id a" "ca_strict a \<longrightarrow> n \<in> ca_allowed a"
  proof (rule cluster_inv_register [OF assms])
    have "same_config a0 a" using assms by (simp add: cluster_inv_def)
    then show "admitted_peer a0 n" using that by (simp add: same_config_def admitted_peer_def)
  qed
  show ?thesis
  proof (cases "n \<noteq> ca_node_id a \<and> (ca_strict a \<longrightarrow> n \<in> ca_allowed a)")
    case True
    then have "cluster_inv E a0 t qs ?b" "cluster_inv E a0 t qs (?b\<lparr>ca_connections := c\<rparr>)" for c
      using reg cluster_inv_calm [OF _ calm_fields(6)] by blast+
    then show ?thesis using True assms by (simp add: on_peer_connected_def Let_def)
  qed (use assms in \<open>auto simp: on_peer_connected_def\<close>)
qed

lemma peer_public_keys_admitted:
  assumes "pm_wf pm" "hm_contains (peer_public_keys pm) n"
  shows "n \<in> dom (peer_of pm)"
proof -
  have "\<exists>p \<in> set ps. pi_node_id p = n" if "hm_contains (foldl (\<lambda>m p. hm_insert (pi_node_id p) (pi_public_key p) m) [] ps) n" for ps
    using that by (induction ps rule: rev_induct) (auto split: if_splits)
  then obtain p where p: "p \<in> set (hm_values (known_peers pm))" "pi_node_id p = n"
    using assms(2) unfolding peer_public_keys_def by fastforce
  then show ?thesis using assms(1) by (auto simp: hm_set_values pm_wf_def)
qed

lemma ingest_filter_subset:
  "set (fst (ingest_filter E K policy sm from_id i records batch limiter)) \<subseteq> set records
   \<and> length (fst (ingest_filter E K policy sm from_id i records batch limiter)) \<le> length records"
proof (induction records arbitrary: i batch limiter)
  case (Cons s records)
  let ?rest = "\<lambda>b l. fst (ingest_filter E K policy sm from_id (Suc i) records b l)"
  have "\<exists>b l. fst (ingest_filter E K policy sm from_id i (s # records) batch limiter) \<in> {?rest b l, s # ?rest b l}"
    by (simp add: Let_def case_prod_beta) blast
  then obtain b l where "fst (ingest_filter E K policy sm from_id i (s # records) batch limiter) \<in> {?rest b l, s # ?rest b l}"
    by blast
  then show ?case using Cons.IH [of "Suc i" b l] by auto
qed simp

lemma ingest_decide_effect:
  assumes "ingest_decide E K from_id records sm1 sm2 a = (q, ds, a')"
  defines "G \<equiv> gossip_handle (cl_gossip E) q (co_gossip (ca_coordinator a))"
  shows "sy_trust (gl_call q) = ca_trust a \<and> sy_keys (gl_call q) = peer_public_keys (ca_peers a)
    \<and> set (gl_records q) \<subseteq> set records \<and> length (gl_records q) \<le> length records
    \<and> (ds \<noteq> [] \<longrightarrow> fst G = Some (ApplyBans ds)) \<and> same_config a a' \<and> ca_trust a' = ca_trust a
    \<and> ca_peers a' = ca_peers a \<and> co_gossip (ca_coordinator a') = snd (snd G)"
proof -
  define a1 where "a1 = (if ck_instant K - ca_count_window a \<ge> int (secs 60)
    then a\<lparr>ca_ban_counts := hm_empty, ca_count_window := ck_window K\<rparr> else a)"
  have a1: "same_config a a1" "ca_trust a1 = ca_trust a" "ca_coordinator a1 = ca_coordinator a"
    by (simp_all add: a1_def same_config_def)
  obtain kept raw where f: "ingest_filter E K (ca_remote_policy a1) sm1 from_id 0 records {} (ca_raw_limiter a1) = (kept, raw)"
    by fastforce
  have kept: "set kept \<subseteq> set records" "length kept \<le> length records"
    using ingest_filter_subset [of E K "ca_remote_policy a1" sm1 from_id 0 records "{}" "ca_raw_limiter a1"] f by simp_all
  define q' where "q' = decide_call E K from_id kept sm2 (a1\<lparr>ca_raw_limiter := raw\<rparr>)"
  obtain act lim g where h: "gossip_handle (cl_gossip E) q' (co_gossip (ca_coordinator a)) = (act, lim, g)"
    by (metis prod_cases3)
  define a3 where "a3 = a1\<lparr>ca_raw_limiter := raw, ca_rate_limiter := lim, ca_coordinator := (ca_coordinator a)\<lparr>co_gossip := g\<rparr>\<rparr>"
  have a3: "same_config a (a3\<lparr>ca_ban_counts := c\<rparr>)" "same_config a a3" "ca_trust a3 = ca_trust a" "ca_peers a3 = ca_peers a"
    "co_gossip (ca_coordinator a3) = g" for c
    using a1 by (simp_all add: a3_def same_config_def)
  have "(q, ds, a') = (case act of
      Some (ApplyBans ds) \<Rightarrow> (q', ds, a3\<lparr>ca_ban_counts := hm_insert from_id
         (hm_get_or 0 (ca_ban_counts a3) from_id + of_nat (length ds)) (ca_ban_counts a3)\<rparr>)
    | _ \<Rightarrow> (q', [], a3))"
    using assms(1) unfolding ingest_decide_def Let_def a1_def [symmetric] f prod.case q'_def [symmetric]
    by (cases act) (simp_all add: a1(3) h a3_def split: GossipAction.splits)
  then have "q = q'" and "ds \<noteq> [] \<longrightarrow> act = Some (ApplyBans ds)" and "\<exists>c. a' = a3 \<or> a' = a3\<lparr>ca_ban_counts := c\<rparr>"
    by (auto split: option.splits GossipAction.splits)
  moreover have "gl_records q' = kept" "sy_trust (gl_call q') = ca_trust a" "sy_keys (gl_call q') = peer_public_keys (ca_peers a)"
    using a1 by (simp_all add: q'_def decide_call_def)
  ultimately show ?thesis using kept a3 h unfolding G_def by auto
qed

lemma cluster_inv_ingest:
  assumes "cluster_inv E a0 t qs a" "ingest_decide E K from_id records sm1 sm2 a = (q, ds, a')"
  shows "cluster_inv E a0 t (qs @ [q]) a'"
proof -
  note eff = ingest_decide_effect [OF assms(2)]
  have "co_gossip (ca_coordinator a') = gossip_run (cl_gossip E) (qs @ [q]) (co_gossip (ca_coordinator a0))"
    using eff assms(1) by (simp add: cluster_inv_def gossip_run_def)
  moreover have "admitted_peer a0 n" if "hm_contains (sy_keys (gl_call q)) n" for n
    using peer_public_keys_admitted [of "ca_peers a" n] eff assms(1) that by (simp add: cluster_inv_def)
  moreover have "same_config a0 a'" using eff assms(1) by (simp add: cluster_inv_def same_config_def)
  ultimately show ?thesis using eff assms(1) by (auto simp: cluster_inv_def)
qed

text \<open>How a message is processed: bans through the filter and into the state, anything else calmly.\<close>

lemma on_inbound_cases:
  assumes "on_inbound E K from_id msg sm1 sm2 sm3 a = Some (enforced, sm', a', effects)"
  obtains (calm) "inbound_calls E K from_id msg sm1 sm2 a = []" "calm a a'" "sm' = sm3"
  | (bans) q ds where "inbound_calls E K from_id msg sm1 sm2 a = [q]"
      "ingest_decide E K from_id (carried msg) sm1 sm2 (heard K from_id a) = (q, ds, a')"
      "apply_bans E K (ca_remote_policy a') from_id 0 ds sm3 = (enforced, sm')"
proof -
  note rules = that
  let ?a = "heard K from_id a"
  have calm: "calm a b" if "calm ?a b" for b using calm_trans [OF calm_heard that] .
  have un: "on_inbound E K from_id msg sm1 sm2 sm3 a = (case msg of
      Ping _ _ \<Rightarrow> Some ([], sm3, ?a, send_to from_id (Pong (ca_node_id ?a) (local_digest E sm1)) ?a)
    | Pong _ _ \<Rightarrow> Some ([], sm3, ?a\<lparr>ca_coordinator := co_handle_pong (ck_pong K) from_id (ca_coordinator ?a)\<rparr>, [])
    | PingReq _ target \<Rightarrow> Some ([], sm3, ?a, send_to target (Ping (ca_node_id ?a) (local_digest E sm1)) ?a)
    | BanSync _ records \<Rightarrow> (case ingest_remote_bans E K from_id records sm1 sm2 sm3 ?a of (e, sm, a) \<Rightarrow> Some (e, sm, a, []))
    | DiffResponse records \<Rightarrow> (case ingest_remote_bans E K from_id records sm1 sm2 sm3 ?a of (e, sm, a) \<Rightarrow> Some (e, sm, a, []))
    | DigestExchange d \<Rightarrow> (case on_digest_exchange E K from_id d sm1 ?a of (a, effects) \<Rightarrow> Some ([], sm3, a, effects))
    | DiffRequest ks \<Rightarrow> (case on_diff_request E K from_id ks sm1 ?a of None \<Rightarrow> None | Some (a, effects) \<Rightarrow> Some ([], sm3, a, effects))
    | MembershipUpdate _ \<Rightarrow> Some ([], sm3, ?a, []))"
    by (cases msg) (simp_all add: on_inbound_def heard_def Let_def)
  have pong: "calm ?a (?a\<lparr>ca_coordinator := co_handle_pong (ck_pong K) from_id (ca_coordinator ?a)\<rparr>)"
    by (simp add: calm_def same_config_def co_handle_pong_def handle_pong_def del: peer_of_update)
  have ingest: thesis
    if m: "carried msg = records" and i: "ingest_remote_bans E K from_id records sm1 sm2 sm3 ?a = (enforced, sm', a')" for records
  proof (cases "records = []")
    case True
    then show ?thesis using m i calm [OF calm_refl]
      by (intro rules(1)) (simp_all add: inbound_calls_def ingest_remote_bans_def)
  next
    case False
    obtain q ds b where d: "ingest_decide E K from_id records sm1 sm2 ?a = (q, ds, b)" by (metis prod_cases3)
    then show ?thesis using False m i
      by (intro rules(2)) (auto simp: inbound_calls_def ingest_remote_bans_def split: prod.splits)
  qed
  show ?thesis
  proof (cases msg)
    case (BanSync x records)
    then show ?thesis using assms un ingest by (auto split: prod.splits)
  next
    case (DiffResponse records)
    then show ?thesis using assms un ingest by (auto split: prod.splits)
  next
    case (DigestExchange d)
    then have "on_digest_exchange E K from_id d sm1 ?a = (a', effects)" "sm' = sm3"
      using assms un by (auto split: prod.splits)
    then show ?thesis using DigestExchange calm [OF calm_digest_exchange [of ?a E K from_id d sm1]]
      by (intro rules(1)) (simp_all add: inbound_calls_def)
  next
    case (DiffRequest ks)
    then show ?thesis using assms un calm calm_diff_request
      by (intro rules(1)) (auto simp: inbound_calls_def split: prod.splits option.splits)
  qed (use assms un calm [OF calm_refl] calm [OF pong] rules(1) in \<open>auto simp: inbound_calls_def\<close>)
qed

lemma cluster_inv_message:
  assumes "cluster_inv E a0 t qs a" "on_inbound E K from_id msg sm1 sm2 sm3 a = Some (enforced, sm', a', effects)"
  shows "cluster_inv E a0 t (qs @ inbound_calls E K from_id msg sm1 sm2 a) a'"
  using assms(2)
proof (cases rule: on_inbound_cases)
  case calm
  then show ?thesis using cluster_inv_calm [OF assms(1)] by simp
next
  case (bans q ds)
  then show ?thesis using cluster_inv_ingest [OF cluster_inv_calm [OF assms(1) calm_heard] bans(2)] by simp
qed

lemma actor_new_inv:
  fixes clock node pkcs8 strict seeds founders trust now
  defines "a0 \<equiv> actor_new clock node pkcs8 strict seeds founders trust now"
  shows "cluster_inv E a0 (tc_ban_threshold trust) [] a0"
proof -
  have "fold (\<lambda>(i, fp). register_founder_node (clock i) fp) xs tm = fold trust_step (List.map (\<lambda>(i, fp). TFounder (clock i) fp) xs) tm"
    for xs tm by (induction xs arbitrary: tm) auto
  then have "\<exists>ops. ca_trust a0 = fold trust_step ops (tm_new (tc_ban_threshold trust))"
    by (auto simp: a0_def actor_new_def)
  then show ?thesis
    by (simp add: cluster_inv_def same_config_def gossip_run_def pm_wf_def)
       (simp add: a0_def actor_new_def coordinator_new_def pm_new_def)
qed

lemma cluster_run_inv:
  assumes "cluster_run E (actor_new clock node pkcs8 strict seeds founders trust now) qs a"
  shows "cluster_inv E (actor_new clock node pkcs8 strict seeds founders trust now) (tc_ban_threshold trust) qs a"
  using assms
proof (induction rule: cluster_run.induct)
  case start
  then show ?case by (rule actor_new_inv)
next
  case connected
  then show ?case by (intro cluster_inv_connected)
next
  case message
  then show ?case by (intro cluster_inv_message)
next
  case announce
  then show ?case by (blast intro: cluster_inv_calm calm_local_ban)
next
  case probe
  then show ?case by (blast intro: cluster_inv_calm calm_probe)
next
  case maintain
  then show ?case by (blast intro: cluster_inv_calm calm_maintenance)
next
  case (dialed qs a addr)
  have "calm a (dial_done addr a)" by (simp add: dial_done_def)
  then show ?case by (rule cluster_inv_calm [OF dialed.IH])
qed

section \<open>Safety of remote bans\<close>

text \<open>What a message may do to the stored bans, given the decisions of the gossip engine.\<close>

lemma message_apply_ok:
  assumes "on_inbound E K from_id msg sm1 sm2 sm3 a = Some (enforced, sm', a', effects)"
    and "ipnet_spec (env_net (cl_sm E))" "store_wf (ban_store sm3)" "keys_truncated (ban_store sm3)"
    and "length (bans (ban_store sm3)) + length (carried msg) < 2 ^ 32"
    and "\<forall>s \<in> set (carried msg). net_ok (br_subject (sb_record s))"
  obtains ds where "apply_ok E (ca_remote_policy a') (ck_apply K) (set ds) sm3 sm'"
    "ds \<noteq> [] \<Longrightarrow> \<exists>q. inbound_calls E K from_id msg sm1 sm2 a = [q] \<and> sy_trust (gl_call q) = ca_trust (heard K from_id a)
       \<and> fst (gossip_handle (cl_gossip E) q (co_gossip (ca_coordinator a))) = Some (ApplyBans ds)"
  using assms(1)
proof (cases rule: on_inbound_cases)
  case calm
  then show ?thesis using that [of "[]"] by (simp add: apply_ok_refl)
next
  case (bans q ds)
  note eff = ingest_decide_effect [OF bans(2)]
  have g: "co_gossip (ca_coordinator (heard K from_id a)) = co_gossip (ca_coordinator a)"
    using calm_heard by (simp add: calm_def)
  have fst: "fst (gossip_handle (cl_gossip E) q (co_gossip (ca_coordinator a))) = Some (ApplyBans ds)" if "ds \<noteq> []"
    using eff g that by simp
  have ds: "length ds \<le> length (carried msg)" "\<forall>d \<in> set ds. net_ok (br_subject d)"
    using gossip_handle_subjects [OF fst] eff assms(6) by (cases "ds = []"; fastforce)+
  have ready: "store_ready (length ds) (ban_store sm3)" using assms(3-5) ds(1) by (simp add: store_ready_def)
  have "apply_ok E (ca_remote_policy a') (ck_apply K) (set ds) sm3 sm'"
    by (rule apply_bans_ok [OF assms(2) ready ds(2) bans(3)])
  then show ?thesis using that [of ds] fst bans(1) eff by blast
qed

text \<open>
  C6: No message from a peer changes a ban that the node detected itself. Whatever the
  actor has seen before, whatever the message contains, and whatever other tasks do to the
  state while the actor waits for its lock: a stored ban that does not come from the
  cluster is still stored, unchanged, after the message.
\<close>

theorem local_bans_kept:
  assumes "on_inbound E K from_id msg sm1 sm2 sm3 a = Some (enforced, sm', a', effects)"
    and "ipnet_spec (env_net (cl_sm E))" "store_wf (ban_store sm3)" "keys_truncated (ban_store sm3)"
    and "length (bans (ban_store sm3)) + length (carried msg) < 2 ^ 32"
    and "\<forall>s \<in> set (carried msg). net_ok (br_subject (sb_record s))"
    and "hm_get (bans (ban_store sm3)) k = Some b" "\<not> is_cluster_peer (br_source b)"
  shows "hm_get (bans (ban_store sm')) k = Some b"
proof -
  obtain ds where "apply_ok E (ca_remote_policy a') (ck_apply K) (set ds) sm3 sm'"
    using message_apply_ok [OF assms(1-6)] by blast
  then show ?thesis using assms(7,8) by (simp add: apply_ok_def)
qed

text \<open>
  C2: A node bans on the word of its peers only within its policy and with a quorum. Take
  any run of the cluster actor from its start, with trust threshold \<open>t\<close>. If a message
  then changes the stored ban of a network, the new ban is the decision \<open>d\<close> of the gossip
  engine: it is marked as coming from the cluster, the local policy admits it (prefix,
  lifetime, not expired), and its network shares no address with the whitelist. And at
  least \<open>t\<close> distinct peers other than the node itself each signed a first-hand observation of
  that subject which supports lifetime and severity, verified under the key of the peer's
  TLS certificate. In strict mode every one of them is a peer pinned in the configuration.
\<close>

theorem remote_ban_quorum:
  assumes "cluster_run E (actor_new clock node pkcs8 strict seeds founders trust now) qs a"
    and "on_inbound E K from_id msg sm1 sm2 sm3 a = Some (enforced, sm', a', effects)"
    and "ipnet_spec (env_net (cl_sm E))" "store_wf (ban_store sm3)" "keys_truncated (ban_store sm3)"
    and "length (bans (ban_store sm3)) + length (carried msg) < 2 ^ 32"
    and "\<forall>s \<in> set (carried msg). net_ok (br_subject (sb_record s))"
    and "hm_get (bans (ban_store sm')) k = Some r" "hm_get (bans (ban_store sm3)) k \<noteq> Some r"
  shows "\<exists>d V. stored_as d k r \<and> remote_policy_allows trust d (ck_apply K)
    \<and> \<not> overlaps (env_net (cl_sm E)) k (whitelist sm3) \<and> finite V \<and> tc_ban_threshold trust \<le> real (card V)
    \<and> (\<forall>n \<in> V. n \<noteq> node \<and> (strict \<longrightarrow> (\<exists>s \<in> set seeds. seed_fingerprint s = Some n)) \<and>
         (\<exists>r'. signed_by (cl_gossip E) (qs @ inbound_calls E K from_id msg sm1 sm2 a)
            (ge_show_net (cl_gossip E) (br_subject d)) n r' \<and> supports r' d))"
proof -
  let ?a0 = "actor_new clock node pkcs8 strict seeds founders trust now"
  let ?t = "tc_ban_threshold trust" and ?G = "cl_gossip E"
  have inv: "cluster_inv E ?a0 ?t qs a" by (rule cluster_run_inv [OF assms(1)])
  have inv': "cluster_inv E ?a0 ?t (qs @ inbound_calls E K from_id msg sm1 sm2 a) a'"
    by (rule cluster_inv_message [OF inv assms(2)])
  obtain ds where ok: "apply_ok E (ca_remote_policy a') (ck_apply K) (set ds) sm3 sm'"
    and dec: "ds \<noteq> [] \<Longrightarrow> \<exists>q. inbound_calls E K from_id msg sm1 sm2 a = [q] \<and> sy_trust (gl_call q) = ca_trust (heard K from_id a)
       \<and> fst (gossip_handle ?G q (co_gossip (ca_coordinator a))) = Some (ApplyBans ds)"
    by (rule message_apply_ok [OF assms(2-7)]) (rule that)
  have pol: "ca_remote_policy a' = trust" using inv' by (simp add: cluster_inv_def same_config_def actor_new_def)
  then obtain d where d: "d \<in> set ds" "stored_as d k r" "remote_policy_allows trust d (ck_apply K)"
      "\<not> overlaps (env_net (cl_sm E)) k (whitelist sm3)"
    using ok assms(8,9) unfolding apply_ok_def pol by blast
  then obtain q where q: "inbound_calls E K from_id msg sm1 sm2 a = [q]" "sy_trust (gl_call q) = ca_trust (heard K from_id a)"
      "fst (gossip_handle ?G q (co_gossip (ca_coordinator a))) = Some (ApplyBans ds)"
    using dec by fastforce
  have "cluster_inv E ?a0 ?t qs (heard K from_id a)" by (rule cluster_inv_calm [OF inv calm_heard])
  then obtain ops where ops: "sy_trust (gl_call q) = fold trust_step ops (tm_new ?t)"
    using q(2) by (auto simp: cluster_inv_def)
  have g: "co_gossip (ca_coordinator a) =
      gossip_run ?G qs (gossip_new node \<lparr>gc_fanout = 8, gc_pow_difficulty = POW_DIFFICULTY\<rparr>)"
    using inv by (simp add: cluster_inv_def actor_new_def coordinator_new_def)
  obtain V where V: "finite V" "?t \<le> real (card V)"
      "\<And>n. n \<in> V \<Longrightarrow> \<exists>r. signed_by ?G (qs @ [q]) (ge_show_net ?G (br_subject d)) n r \<and> supports r d"
    using gossip_decision_quorum [OF ops q(3) [unfolded g] d(1)] by blast
  have "n \<noteq> node \<and> (strict \<longrightarrow> (\<exists>s \<in> set seeds. seed_fingerprint s = Some n))" if n: "n \<in> V" for n
  proof -
    obtain q' where "q' \<in> set (qs @ [q])" "hm_contains (sy_keys (gl_call q')) n"
      using V(3) [OF n] by (fastforce simp: signed_by_def)
    then have "admitted_peer ?a0 n" using inv' unfolding cluster_inv_def q(1) by blast
    then show ?thesis by (auto simp: admitted_peer_def actor_new_def List.map_filter_def)
  qed
  then show ?thesis unfolding q(1) using d V by blast
qed

section \<open>An example cluster\<close>

definition ex_cluster_env :: cluster_env where
  "ex_cluster_env = \<lparr>cl_gossip = ex_gossip_env,
     cl_sm = Recovery.ex_env\<lparr>env_wal := table_codec [AddBan ((ex_remote_ban 1)\<lparr>br_source := ClusterPeer ''b''\<rparr>)]\<rparr>,
     cl_chrono = chrono_ref, cl_size = (\<lambda>_. Some 1)\<rparr>"

definition ex_clock :: cluster_clock where
  "ex_clock = \<lparr>ck_heard = 1, ck_pong = 1, ck_instant = 1, ck_window = 1, ck_utc = 1, ck_filter = (\<lambda>_. 1),
     ck_raw = (\<lambda>_. (1, 1)), ck_sync = 1, ck_eligible = (\<lambda>_. 1), ck_limiter = (\<lambda>_. (1, 1)), ck_apply = 1,
     ck_io = (\<lambda>_ _. IoOk), ck_slot_free = True\<rparr>"

definition ex_seeds :: "Seed list" where
  "ex_seeds = [\<lparr>raw_addr = ''h1'', seed_fingerprint = Some ''a''\<rparr>, \<lparr>raw_addr = ''h2'', seed_fingerprint = Some ''b''\<rparr>]"

definition ex_actor :: ClusterActor where
  "ex_actor = actor_new (\<lambda>_. 0) ''n'' [] True ex_seeds [''a'', ''b''] trust_config_default 0"

definition ex_join :: "string \<Rightarrow> ClusterActor \<Rightarrow> ClusterActor" where
  "ex_join n a = fst (on_peer_connected (\<lambda>_. False) 0 n [1] (IpV4 1, 2) 0 a)"

definition ex_joined :: ClusterActor where
  "ex_joined = ex_join ''b'' (ex_join ''a'' ex_actor)"

lemma ex_actor_eval:
  "ex_actor = \<lparr>ca_node_id = ''n'', ca_pkcs8 = [], ca_strict = True, ca_allowed = {''a'', ''b''}, ca_founders = {''a'', ''b''},
     ca_seeds = ex_seeds,
     ca_coordinator = coordinator_new ''n'' swim_config_default \<lparr>gc_fanout = 8, gc_pow_difficulty = POW_DIFFICULTY\<rparr>,
     ca_trust = ex_trust, ca_rate_limiter = rl_new 100 (int (secs 60)),
     ca_sign_cache = sc_new DEFAULT_CAPACITY, ca_diff_offsets = hm_empty, ca_diff_requests = hm_empty,
     ca_raw_limiter = rl_new 10000 (int (secs 60)), ca_remote_policy = trust_config_default, ca_count_window = 0,
     ca_ban_counts = hm_empty, ca_digest_mismatches = hm_empty, ca_seed_outages = hm_empty,
     ca_connections = hm_empty, ca_dialing = {}\<rparr>"
  by (simp add: ex_actor_def actor_new_def ex_seeds_def List.map_filter_def ex_trust_def trust_config_default_def)

lemma ex_trust_registered [simp]:
  "register_founder_node 0 ''a'' ex_trust = ex_trust" "register_founder_node 0 ''b'' ex_trust = ex_trust"
  by (simp_all add: ex_trust_def register_founder_node_def tm_new_def or_insert_def)

lemma ex_joined_eval:
  "ex_joined = ex_actor\<lparr>ca_connections := [(''a'', 0), (''b'', 0)], ca_coordinator := (ca_coordinator ex_actor)
     \<lparr>co_peer_manager := \<lparr>known_peers = [(''a'', (peer_new 0 ''a'' (IpV4 1, 2) ''a'')\<lparr>pi_public_key := [1]\<rparr>),
        (''b'', (peer_new 0 ''b'' (IpV4 1, 2) ''b'')\<lparr>pi_public_key := [1]\<rparr>)], auto_accept = False\<rparr>\<rparr>\<rparr>"
  by (simp add: ex_joined_def ex_join_def on_peer_connected_def register_peer_def Let_def ex_actor_eval set_peers_def
      coordinator_new_def pm_new_def add_peer_def peer_new_def)

lemma ex_run: "cluster_run E ex_actor [] ex_joined"
  unfolding ex_joined_def ex_join_def by (intro cluster_run.connected cluster_run.start)

lemma ex_cluster_env_sel [simp]:
  "env_net (cl_sm ex_cluster_env) = ipnet_ref" "cl_gossip ex_cluster_env = ex_gossip_env"
  by (simp_all add: ex_cluster_env_def Recovery.ex_env_def)

lemma ex_applicable: "applicable ex_cluster_env trust_config_default 1 ex_fresh ((ex_remote_ban 1)\<lparr>br_source := src\<rparr>)"
proof -
  have "\<not> overlaps ipnet_ref (NetV4 0x08080801 32) (wl_new parse_ref)" by code_simp
  moreover have "is_banned ipnet_ref store_new (IpV4 0x08080801) = None" by code_simp
  ultimately show ?thesis
    by (simp add: applicable_def accepts_remote_ban_def remote_changes_state_def remote_policy_allows_def
        ex_remote_ban_def trust_config_default_def I64_MAX_def num_seconds_def ns_per_sec_def)
qed

lemma ex_remote_ban_upd:
  "(ex_remote_ban a)\<lparr>br_source := LocalDetector []\<rparr> = ex_remote_ban a"
  "(ex_remote_ban a)\<lparr>br_created_at := 0, br_expires_at := Some 9, br_severity := 150, br_source := src\<rparr> =
     (ex_remote_ban a)\<lparr>br_source := src\<rparr>"
  by (simp_all add: ex_remote_ban_def)

lemma ex_applicable_first: "applicable ex_cluster_env trust_config_default 1 ex_fresh (ex_remote_ban 1)"
  using ex_applicable [of "LocalDetector []"] by (simp add: ex_remote_ban_upd)

text \<open>A packet of one applicable record.\<close>

lemma ingest_one:
  assumes "ck_instant K - ca_count_window a < int (secs 60)"
    and "applicable E (ca_remote_policy a) (ck_filter K 0) sm1 (sb_record s)"
    and "check_and_record (fst (ck_raw K 0)) (snd (ck_raw K 0)) from_id (ca_raw_limiter a) = (True, raw)"
    and "gossip_handle (cl_gossip E) (decide_call E K from_id [s] sm2 a) (co_gossip (ca_coordinator a)) = (act, rate, g)"
  defines "b \<equiv> a\<lparr>ca_raw_limiter := raw, ca_rate_limiter := rate, ca_coordinator := (ca_coordinator a)\<lparr>co_gossip := g\<rparr>\<rparr>"
  shows "act = None \<Longrightarrow> ingest_decide E K from_id [s] sm1 sm2 a = (decide_call E K from_id [s] sm2 a, [], b)"
    and "act = Some (ApplyBans ds) \<Longrightarrow> \<exists>a'. ingest_decide E K from_id [s] sm1 sm2 a = (decide_call E K from_id [s] sm2 a, ds, a')"
proof -
  have w: "\<not> ck_instant K - ca_count_window a \<ge> int (secs 60)" using assms(1) by simp
  have q: "decide_call E K from_id [s] sm2 (a\<lparr>ca_raw_limiter := raw\<rparr>) = decide_call E K from_id [s] sm2 a"
    by (simp add: decide_call_def)
  have f: "ingest_filter E K (ca_remote_policy a) sm1 from_id 0 [s] {} (ca_raw_limiter a) = ([s], raw)"
    using assms(2,3) by (simp add: Let_def)
  show "act = None \<Longrightarrow> ingest_decide E K from_id [s] sm1 sm2 a = (decide_call E K from_id [s] sm2 a, [], b)"
    "act = Some (ApplyBans ds) \<Longrightarrow> \<exists>a'. ingest_decide E K from_id [s] sm1 sm2 a = (decide_call E K from_id [s] sm2 a, ds, a')"
    unfolding ingest_decide_def Let_def if_not_P [OF w] f prod.case q
    using assms(4) by (simp_all add: b_def)
qed

definition ex_packet :: "string \<Rightarrow> gossip_call" where
  "ex_packet n = \<lparr>gl_call = \<lparr>sy_sender = n, sy_trust = ex_trust, sy_keys = [(''a'', [1]), (''b'', [1])],
     sy_eligible = (\<lambda>_. applicable ex_cluster_env trust_config_default 1 ex_fresh), sy_now = 1,
     sy_limiter_clock = (\<lambda>_. (1, 1))\<rparr>,
     gl_records = [ex_signed n], gl_ban_counts = [], gl_limiter = rl_new 100 (int (secs 60))\<rparr>"

abbreviation ex_engine :: GossipEngine where
  "ex_engine \<equiv> gossip_new ''n'' \<lparr>gc_fanout = 8, gc_pow_difficulty = POW_DIFFICULTY\<rparr>"

lemma ex_verify_key: "verify_record ex_sign_env [1] (ex_signed n) = Inr ()"
proof -
  have "si_verify ex_sign_env [1] = si_verify ex_sign_env []" by (simp add: ex_sign_env_def fun_eq_iff)
  then show ?thesis using ex_verify [of n] unfolding verify_record_def by metis
qed

lemma ex_packet_first:
  "gossip_handle ex_gossip_env (ex_packet ''a'') ex_engine =
     (None, rl_new 100 (int (secs 60)), ex_engine\<lparr>ge_reports := [(''1.1.1.1'', [(''a'', ex_remote_ban 1)])]\<rparr>)"
  by (simp add: ex_gossip_simps ex_packet_def ex_verify_key)

lemma ex_packet_second:
  "\<exists>rate g. gossip_handle ex_gossip_env (ex_packet ''b'')
       (ex_engine\<lparr>ge_reports := [(''1.1.1.1'', [(''a'', ex_remote_ban 1)])]\<rparr>) =
     (Some (ApplyBans [(ex_remote_ban 1)\<lparr>br_source := ClusterPeer ''b''\<rparr>]), rate, g)"
  by (simp add: ex_gossip_simps ex_packet_def ex_verify_key ex_applicable ex_remote_ban_upd merge_votes_def list_min_def
      List.map_filter_def)

text \<open>An actor with both peers and the engine \<open>g\<close>, ready for a packet.\<close>

definition ex_ready :: "GossipEngine \<Rightarrow> (string, instant list) hmap \<Rightarrow> ClusterActor \<Rightarrow> bool" where
  "ex_ready g ks a \<longleftrightarrow> ca_count_window a = 0 \<and> ca_remote_policy a = trust_config_default \<and> ca_trust a = ex_trust
     \<and> ca_ban_counts a = [] \<and> ca_rate_limiter a = rl_new 100 (int (secs 60)) \<and> co_gossip (ca_coordinator a) = g
     \<and> (\<exists>pa pb. known_peers (ca_peers a) = [(''a'', pa), (''b'', pb)] \<and> pi_node_id pa = ''a'' \<and> pi_node_id pb = ''b''
          \<and> pi_public_key pa = [1] \<and> pi_public_key pb = [1])
     \<and> ca_raw_limiter a = (rl_new 10000 (int (secs 60)))\<lparr>rl_entries := ks\<rparr>"

lemma ex_ready_joined: "ex_ready ex_engine [] ex_joined"
  by (simp add: ex_ready_def ex_joined_eval ex_actor_eval coordinator_new_def peer_new_def rl_new_def)

lemma ex_ready_heard:
  assumes "ex_ready g ks a" "n = ''a'' \<or> n = ''b''"
  shows "ex_ready g ks (heard K n a)"
  using assms by (auto simp: ex_ready_def heard_def set_peers_def update_peer_state_def)

lemma ex_ready_call: "ex_ready g ks a \<Longrightarrow> decide_call ex_cluster_env ex_clock n [ex_signed n] ex_fresh a = ex_packet n"
  by (auto simp: ex_ready_def decide_call_def ex_packet_def ex_clock_def peer_public_keys_def hm_values_def)

lemma ex_ready_raw:
  assumes "ex_ready g ks a" "n \<notin> fst ` set ks" "length ks \<le> 1"
  shows "check_and_record (fst (ck_raw ex_clock 0)) (snd (ck_raw ex_clock 0)) n (ca_raw_limiter a) =
    (True, (rl_new 10000 (int (secs 60)))\<lparr>rl_entries := hm_insert n [1] ks\<rparr>)"
proof -
  have "hm_get ks n = None" using assms(2) by (simp add: map_of_eq_None_iff)
  then show ?thesis using assms(1,3)
    by (simp add: ex_ready_def check_and_record_def ex_clock_def rl_new_def DEFAULT_MAX_KEYS_def Let_def hm_get_or_def)
qed

lemma ex_ready_checks:
  assumes "ex_ready g ks a"
  shows "ck_instant ex_clock - ca_count_window a < int (secs 60)"
    "applicable ex_cluster_env (ca_remote_policy a) (ck_filter ex_clock 0) ex_fresh (sb_record (ex_signed n))"
  using assms by (simp_all add: ex_ready_def ex_clock_def ex_applicable_first ns_per_sec_def)

lemma ex_first_packet:
  assumes "ex_ready ex_engine [] a"
  shows "\<exists>a'. ingest_decide ex_cluster_env ex_clock ''a'' [ex_signed ''a''] ex_fresh ex_fresh a = (ex_packet ''a'', [], a')
    \<and> ex_ready (ex_engine\<lparr>ge_reports := [(''1.1.1.1'', [(''a'', ex_remote_ban 1)])]\<rparr>) [(''a'', [1])] a'"
proof -
  have "co_gossip (ca_coordinator a) = ex_engine" using assms by (simp add: ex_ready_def)
  then have g: "gossip_handle (cl_gossip ex_cluster_env) (decide_call ex_cluster_env ex_clock ''a'' [ex_signed ''a''] ex_fresh a)
      (co_gossip (ca_coordinator a)) = (None, rl_new 100 (int (secs 60)),
        ex_engine\<lparr>ge_reports := [(''1.1.1.1'', [(''a'', ex_remote_ban 1)])]\<rparr>)"
    using ex_packet_first ex_ready_call [OF assms] by simp
  have raw: "check_and_record (fst (ck_raw ex_clock 0)) (snd (ck_raw ex_clock 0)) ''a'' (ca_raw_limiter a) =
      (True, (rl_new 10000 (int (secs 60)))\<lparr>rl_entries := [(''a'', [1])]\<rparr>)"
    using ex_ready_raw [OF assms, of "''a''"] by simp
  from ingest_one(1) [OF ex_ready_checks [OF assms] raw g HOL.refl] show ?thesis
    using assms ex_ready_call [OF assms] by (auto simp: ex_ready_def)
qed

lemma ex_second_packet:
  assumes "ex_ready (ex_engine\<lparr>ge_reports := [(''1.1.1.1'', [(''a'', ex_remote_ban 1)])]\<rparr>) [(''a'', [1])] a"
  shows "\<exists>a'. ingest_decide ex_cluster_env ex_clock ''b'' [ex_signed ''b''] ex_fresh ex_fresh a =
    (ex_packet ''b'', [(ex_remote_ban 1)\<lparr>br_source := ClusterPeer ''b''\<rparr>], a')"
proof -
  have "co_gossip (ca_coordinator a) = ex_engine\<lparr>ge_reports := [(''1.1.1.1'', [(''a'', ex_remote_ban 1)])]\<rparr>"
    using assms by (simp add: ex_ready_def)
  then obtain rate g where g: "gossip_handle (cl_gossip ex_cluster_env)
      (decide_call ex_cluster_env ex_clock ''b'' [ex_signed ''b''] ex_fresh a) (co_gossip (ca_coordinator a)) =
      (Some (ApplyBans [(ex_remote_ban 1)\<lparr>br_source := ClusterPeer ''b''\<rparr>]), rate, g)"
    using ex_packet_second ex_ready_call [OF assms] by auto
  have raw: "check_and_record (fst (ck_raw ex_clock 0)) (snd (ck_raw ex_clock 0)) ''b'' (ca_raw_limiter a) =
      (True, (rl_new 10000 (int (secs 60)))\<lparr>rl_entries := hm_insert ''b'' [1] [(''a'', [1])]\<rparr>)"
    using ex_ready_raw [OF assms, of "''b''"] by simp
  from ingest_one(2) [OF ex_ready_checks [OF assms] raw g HOL.refl] show ?thesis
    using ex_ready_call [OF assms] by simp
qed

lemma ex_stored:
  "\<exists>sm'. apply_bans ex_cluster_env ex_clock trust_config_default ''b'' 0 [(ex_remote_ban 1)\<lparr>br_source := ClusterPeer ''b''\<rparr>] ex_fresh
      = ([NetV4 0x08080801 32], sm')
    \<and> hm_get (bans (ban_store sm')) (NetV4 0x08080801 32) = Some ((ex_remote_ban 1)\<lparr>br_source := ClusterPeer ''b''\<rparr>)"
proof -
  let ?d = "(ex_remote_ban 1)\<lparr>br_source := ClusterPeer ''b''\<rparr>"
  have 1: "net_trunc ipnet_ref (NetV4 0x08080801 32) = NetV4 0x08080801 32" by code_simp
  have 2: "\<not> overlaps ipnet_ref (NetV4 0x08080801 32) (wl_new parse_ref)" by code_simp
  have d: "br_subject ?d = NetV4 0x08080801 32" "?d\<lparr>br_subject := NetV4 0x08080801 32\<rparr> = ?d"
    by (simp_all add: ex_remote_ban_def)
  have w: "wal_writer ex_fresh = \<lparr>wal_file = [], wal_durable = 0, sync_mode = Fdatasync, write_failed = False\<rparr>"
    by (simp add: ex_fresh_def SmMemory.extend_def StateManager.fields_def)
  have enc: "encode (env_wal (cl_sm ex_cluster_env)) (AddBan ?d) = Some [0]"
    by (simp add: ex_cluster_env_def table_codec_def)
  obtain sm' where add: "sm_add_ban (cl_sm ex_cluster_env) (ck_io ex_clock 0) ?d ex_fresh = (Inr (), sm')"
      "ban_store sm' = add_ban ?d store_new"
    using 1 2 d w enc
    by (simp add: sm_add_ban_def sm_append_def wal_append_def Let_def WAL_MAX_RECORD_SIZE_def ex_clock_def)
  have ok: "remote_policy_allows trust_config_default ?d (ck_apply ex_clock)"
    "accepts_remote_ban (cl_sm ex_cluster_env) ?d ex_fresh" "remote_changes_state (cl_sm ex_cluster_env) ?d ex_fresh"
    using ex_applicable [of "ClusterPeer ''b''"] by (simp_all add: applicable_def ex_clock_def)
  show ?thesis using add ok 2 d by (simp add: Let_def add_ban_get)
qed

text \<open>Two packets from two peers: the second one meets the quorum, whatever state it is then applied to.\<close>

lemma ex_two_packets:
  "\<exists>qs a a'. cluster_run ex_cluster_env ex_actor qs a
    \<and> (\<forall>sm3. on_inbound ex_cluster_env ex_clock ''b'' (BanSync ''b'' [ex_signed ''b'']) ex_fresh ex_fresh sm3 a =
         (case apply_bans ex_cluster_env ex_clock trust_config_default ''b'' 0
            [(ex_remote_ban 1)\<lparr>br_source := ClusterPeer ''b''\<rparr>] sm3 of (ips, sm') \<Rightarrow> Some (ips, sm', a', [])))"
proof -
  let ?K = ex_clock and ?E = ex_cluster_env and ?s = ex_fresh
  obtain a1 where a1: "ingest_decide ?E ?K ''a'' [ex_signed ''a''] ?s ?s (heard ?K ''a'' ex_joined) = (ex_packet ''a'', [], a1)"
      "ex_ready (ex_engine\<lparr>ge_reports := [(''1.1.1.1'', [(''a'', ex_remote_ban 1)])]\<rparr>) [(''a'', [1])] a1"
    using ex_first_packet [OF ex_ready_heard [OF ex_ready_joined]] by blast
  have in1: "on_inbound ?E ?K ''a'' (BanSync ''a'' [ex_signed ''a'']) ?s ?s ?s ex_joined = Some ([], ?s, a1, [])"
    using a1(1) by (simp add: on_inbound_def Let_def heard_def ingest_remote_bans_def)
  obtain qs where run: "cluster_run ?E ex_actor qs a1" using cluster_run.message [OF ex_run in1] by blast
  obtain a2 where a2: "ingest_decide ?E ?K ''b'' [ex_signed ''b''] ?s ?s (heard ?K ''b'' a1) =
      (ex_packet ''b'', [(ex_remote_ban 1)\<lparr>br_source := ClusterPeer ''b''\<rparr>], a2)"
    using ex_second_packet [OF ex_ready_heard [OF a1(2)]] by blast
  have "same_config (heard ?K ''b'' a1) a2" using ingest_decide_effect [OF a2] by simp
  then have pol: "ca_remote_policy a2 = trust_config_default"
    using ex_ready_heard [OF a1(2), of "''b''" ?K] by (simp add: same_config_def ex_ready_def)
  have "on_inbound ?E ?K ''b'' (BanSync ''b'' [ex_signed ''b'']) ?s ?s sm3 a1 =
      (case apply_bans ?E ?K trust_config_default ''b'' 0 [(ex_remote_ban 1)\<lparr>br_source := ClusterPeer ''b''\<rparr>] sm3 of
         (ips, sm') \<Rightarrow> Some (ips, sm', a2, []))" for sm3
    using a2 pol by (simp add: on_inbound_def Let_def heard_def ingest_remote_bans_def del: apply_bans.simps split: prod.split)
  then have "cluster_run ?E ex_actor qs a1 \<and> (\<forall>sm3. on_inbound ?E ?K ''b'' (BanSync ''b'' [ex_signed ''b'']) ?s ?s sm3 a1 =
      (case apply_bans ?E ?K trust_config_default ''b'' 0 [(ex_remote_ban 1)\<lparr>br_source := ClusterPeer ''b''\<rparr>] sm3 of
         (ips, sm') \<Rightarrow> Some (ips, sm', a2, [])))"
    using run by (intro conjI allI)
  then show ?thesis by (intro exI)
qed

theorem remote_ban_quorum_witness:
  "\<exists>qs a sm' a' r V. cluster_run ex_cluster_env ex_actor qs a
     \<and> on_inbound ex_cluster_env ex_clock ''b'' (BanSync ''b'' [ex_signed ''b'']) ex_fresh ex_fresh ex_fresh a
         = Some ([NetV4 0x08080801 32], sm', a', [])
     \<and> hm_get (bans (ban_store sm')) (NetV4 0x08080801 32) = Some r
     \<and> finite V \<and> 2 \<le> real (card V) \<and> (\<forall>n \<in> V. n = ''a'' \<or> n = ''b'')"
proof -
  let ?K = ex_clock and ?E = ex_cluster_env and ?s = ex_fresh and ?k = "NetV4 0x08080801 32"
  obtain sm' where sm': "apply_bans ?E ?K trust_config_default ''b'' 0 [(ex_remote_ban 1)\<lparr>br_source := ClusterPeer ''b''\<rparr>] ?s = ([?k], sm')"
      "hm_get (bans (ban_store sm')) ?k = Some ((ex_remote_ban 1)\<lparr>br_source := ClusterPeer ''b''\<rparr>)"
    using ex_stored by blast
  obtain qs a a' where run: "cluster_run ?E ex_actor qs a"
      and "\<forall>sm3. on_inbound ?E ?K ''b'' (BanSync ''b'' [ex_signed ''b'']) ?s ?s sm3 a =
         (case apply_bans ?E ?K trust_config_default ''b'' 0 [(ex_remote_ban 1)\<lparr>br_source := ClusterPeer ''b''\<rparr>] sm3 of
            (ips, sm') \<Rightarrow> Some (ips, sm', a', []))"
    using ex_two_packets by (elim exE conjE)
  then have in2: "on_inbound ?E ?K ''b'' (BanSync ''b'' [ex_signed ''b'']) ?s ?s ?s a = Some ([?k], sm', a', [])"
    using sm'(1) by (simp del: apply_bans.simps)
  have h: "ipnet_spec (env_net (cl_sm ?E))" "store_wf (ban_store ?s)" "keys_truncated (ban_store ?s)"
    "length (bans (ban_store ?s)) + length (carried (BanSync ''b'' [ex_signed ''b''])) < 2 ^ 32"
    "\<forall>s \<in> set (carried (BanSync ''b'' [ex_signed ''b''])). net_ok (br_subject (sb_record s))"
    "hm_get (bans (ban_store ?s)) ?k \<noteq> Some ((ex_remote_ban 1)\<lparr>br_source := ClusterPeer ''b''\<rparr>)"
    using store_new_wf
    by (simp_all add: ipref.ipnet_spec_axioms keys_truncated_def store_new_def hm_keys_def ex_remote_ban_def)
  obtain d V where quorum: "finite V" "tc_ban_threshold trust_config_default \<le> real (card V)"
      "\<forall>n \<in> V. n \<noteq> ''n'' \<and> (True \<longrightarrow> (\<exists>s \<in> set ex_seeds. seed_fingerprint s = Some n)) \<and>
         (\<exists>r'. signed_by (cl_gossip ?E) (qs @ inbound_calls ?E ?K ''b'' (BanSync ''b'' [ex_signed ''b'']) ?s ?s a)
            (ge_show_net (cl_gossip ?E) (br_subject d)) n r' \<and> supports r' d)"
    using remote_ban_quorum [OF run [unfolded ex_actor_def] in2 h(1-5) sm'(2) h(6)] by (elim exE conjE)
  have two: "2 \<le> real (card V)" using quorum(2) by (simp add: trust_config_default_def)
  have pinned: "\<forall>n \<in> V. n = ''a'' \<or> n = ''b''"
  proof
    fix n assume "n \<in> V"
    from bspec [OF quorum(3) this] have "\<exists>s \<in> set ex_seeds. seed_fingerprint s = Some n"
      by (elim conjE) (rule mp [OF _ TrueI])
    then show "n = ''a'' \<or> n = ''b''" unfolding ex_seeds_def by (elim bexE) (simp, metis Seed.select_convs(2) option.inject)
  qed
  note facts = conjI [OF run conjI [OF in2 conjI [OF sm'(2) conjI [OF quorum(1) conjI [OF two pinned]]]]]
  show ?thesis by (intro exI) (rule facts)
qed

text \<open>The same two packets, where a local detector bans the address before the decision is applied.\<close>

definition ex_meanwhile :: StateManager where
  "ex_meanwhile = ex_fresh\<lparr>ban_store := add_ban (ex_remote_ban 1) store_new\<rparr>"

lemma ex_not_applied:
  "apply_bans ex_cluster_env ex_clock trust_config_default ''b'' 0 [(ex_remote_ban 1)\<lparr>br_source := ClusterPeer ''b''\<rparr>] ex_meanwhile
    = ([], ex_meanwhile)"
proof -
  have "is_banned ipnet_ref (add_ban (ex_remote_ban 1) store_new) (IpV4 0x08080801) = Some (ex_remote_ban 1)" by code_simp
  then have "\<not> remote_changes_state (cl_sm ex_cluster_env) ((ex_remote_ban 1)\<lparr>br_source := ClusterPeer ''b''\<rparr>) ex_meanwhile"
    by (simp add: remote_changes_state_def ex_meanwhile_def ex_remote_ban_def)
  then show ?thesis by simp
qed

theorem local_bans_kept_witness:
  "\<exists>a sm' a'. on_inbound ex_cluster_env ex_clock ''b'' (BanSync ''b'' [ex_signed ''b'']) ex_fresh ex_fresh ex_meanwhile a
         = Some ([], sm', a', [])
     \<and> hm_get (bans (ban_store sm')) (NetV4 0x08080801 32) = Some (ex_remote_ban 1)"
proof -
  let ?K = ex_clock and ?E = ex_cluster_env and ?s = ex_fresh and ?k = "NetV4 0x08080801 32"
  obtain a a' where "\<forall>sm3. on_inbound ?E ?K ''b'' (BanSync ''b'' [ex_signed ''b'']) ?s ?s sm3 a =
         (case apply_bans ?E ?K trust_config_default ''b'' 0 [(ex_remote_ban 1)\<lparr>br_source := ClusterPeer ''b''\<rparr>] sm3 of
            (ips, sm') \<Rightarrow> Some (ips, sm', a', []))"
    using ex_two_packets by (elim exE conjE)
  then have in2: "on_inbound ?E ?K ''b'' (BanSync ''b'' [ex_signed ''b'']) ?s ?s ex_meanwhile a = Some ([], ex_meanwhile, a', [])"
    by (simp add: ex_not_applied del: apply_bans.simps)
  have "store_ready (Suc (Suc 0)) store_new"
    using store_new_wf by (simp add: store_ready_def keys_truncated_def store_new_def hm_keys_def)
  then have store: "store_ready (Suc 0) (add_ban (ex_remote_ban 1) store_new)"
    by (rule store_ready_add) (code_simp+)
  have h: "ipnet_spec (env_net (cl_sm ?E))" "store_wf (ban_store ex_meanwhile)" "keys_truncated (ban_store ex_meanwhile)"
    "length (bans (ban_store ex_meanwhile)) + length (carried (BanSync ''b'' [ex_signed ''b''])) < 2 ^ 32"
    "\<forall>s \<in> set (carried (BanSync ''b'' [ex_signed ''b''])). net_ok (br_subject (sb_record s))"
    "hm_get (bans (ban_store ex_meanwhile)) ?k = Some (ex_remote_ban 1)" "\<not> is_cluster_peer (br_source (ex_remote_ban 1))"
    using store
    by (simp_all add: ipref.ipnet_spec_axioms store_ready_def ex_meanwhile_def add_ban_get ex_remote_ban_def)
  show ?thesis using local_bans_kept [OF in2 h] in2 by blast
qed

end
