(* ===== verification/Spec2Isabelle.thy ===== *)
theory Spec2Isabelle
  imports Window_Detectors Http_Detectors Port_Scan Sigma_Rules Cluster_Safety
begin

text \<open>
  A verification development of HiveGuard.
\<close>

end
